(* ===== verification/Prelude.thy ===== *)
theory Prelude
  imports Main "HOL-Library.Word" "HOL-Library.Signed_Division" "HOL-Library.Char_ord"
    "HOL-Library.List_Lexorder" "HOL-Library.Code_Target_Numeral"
begin

text \<open>
  Shared vocabulary of the development: the machine types of the C++ sources, the named
  theorem collections the component theories fill, and generic lemmas on lists and words.
  Nothing here models a particular function of the repository.
\<close>

unbundle bit_operations_syntax

type_synonym byte = "8 word"
type_synonym u32 = "32 word"
type_synonym handle = int

text \<open>
  \<open>frame\<close> collects the equations that say which fields an operation leaves alone,
  \<open>machine_simps\<close> the evaluation of the session state machine, \<open>codec\<close> the byte layout facts.
\<close>

named_theorems frame
named_theorems machine_simps
named_theorems codec

subsection \<open>Lists\<close>

lemma takeWhile_take_id: "n \<le> length (takeWhile P xs) \<Longrightarrow> take n (takeWhile P xs) = take n xs"
  by (metis length_takeWhile_le take_append takeWhile_dropWhile_id diff_is_0_eq take0 append_Nil2)

lemma takeWhile_append_stop [simp]:
  "(\<forall>x\<in>set xs. P x) \<Longrightarrow> \<not> P y \<Longrightarrow> takeWhile P (xs @ y # ys) = xs"
  by (simp add: takeWhile_append)

lemma takeWhile_replicate_stop:
  "(\<forall>x\<in>set xs. P x) \<Longrightarrow> \<not> P y \<Longrightarrow> 0 < n \<Longrightarrow> takeWhile P (xs @ replicate n y) = xs"
  by (cases n) auto

lemma length_eq_4E:
  assumes "length xs = 4"
  obtains a b c d where "xs = [a, b, c, d]"
  using assms by (auto simp: numeral_eq_Suc length_Suc_conv)

lemma length_eq_3E:
  assumes "length xs = 3"
  obtains a b c where "xs = [a, b, c]"
  using assms by (auto simp: numeral_eq_Suc length_Suc_conv)

lemma take_take_drop: "take a xs @ take b (drop a xs) = take (a + b) xs"
  by (simp add: take_add)

subsection \<open>C++ integer division\<close>

text \<open>\<open>sdiv\<close> and \<open>smod\<close> truncate towards zero, as \<open>/\<close> and \<open>%\<close> on C++ integers do.\<close>

lemma sdiv_nonneg [simp]: "0 \<le> a \<Longrightarrow> 0 \<le> b \<Longrightarrow> a sdiv b = a div (b::int)"
  by (cases "a = 0"; cases "b = 0") (simp_all add: signed_divide_int_def sgn_if)

lemma smod_nonneg [simp]: "0 \<le> a \<Longrightarrow> 0 \<le> b \<Longrightarrow> a smod b = a mod (b::int)"
  by (cases "a = 0") (simp_all add: signed_modulo_int_def minus_div_mult_eq_mod)

subsection \<open>Words and bytes\<close>

lemma unat_byte_less [simp]: "unat (b::byte) < 256"
  using unsigned_less [of b, where ?'a = nat] by simp

lemma unat_u32_less [simp]: "unat (w::u32) < 4294967296"
  using unsigned_less [of w, where ?'a = nat] by simp

lemma unat_ucast_byte [simp]: "unat (ucast (a::byte) :: u32) = unat a"
proof -
  have "unat a < 2 ^ 32" by (rule less_trans [OF unat_byte_less]) simp
  then show ?thesis by (simp add: unsigned_ucast_eq take_bit_nat_eq_self)
qed

lemma ucast_byte_eq [simp]: "(ucast (a::byte) :: u32) = ucast b \<longleftrightarrow> a = b"
  by (metis unat_ucast_byte word_unat_eq_iff)

text \<open>A C++ \<open>char\<close> of a buffer and the byte that represents it.\<close>

definition byte_of_char :: "char \<Rightarrow> byte" where
  "byte_of_char c = word_of_nat (of_char c)"

definition char_of_byte :: "byte \<Rightarrow> char" where
  "char_of_byte b = char_of (unat b)"

lemma char_of_byte_of_char [simp, codec]: "char_of_byte (byte_of_char c) = c"
  by (simp add: char_of_byte_def byte_of_char_def unat_of_nat)

lemma byte_of_char_of_byte [simp, codec]: "byte_of_char (char_of_byte b) = b"
  using unat_byte_less [of b] by (simp add: char_of_byte_def byte_of_char_def)

lemma map_char_of_byte_of_char [simp, codec]: "map (char_of_byte \<circ> byte_of_char) cs = cs"
  by (simp add: map_idI)

lemma map_byte_of_char_of_byte [simp, codec]: "map (byte_of_char \<circ> char_of_byte) bs = bs"
  by (simp add: map_idI)

text \<open>A 32-bit value in memory on the little-endian hosts the program is built for.\<close>

definition le32 :: "u32 \<Rightarrow> byte list" where
  "le32 w = [ucast w, ucast (drop_bit 8 w), ucast (drop_bit 16 w), ucast (drop_bit 24 w)]"

definition un_le32 :: "byte list \<Rightarrow> u32" where
  "un_le32 bs = ucast (bs ! 0) OR push_bit 8 (ucast (bs ! 1))
                  OR push_bit 16 (ucast (bs ! 2)) OR push_bit 24 (ucast (bs ! 3))"

lemma length_le32 [simp, codec]: "length (le32 w) = 4"
  by (simp add: le32_def)

lemma un_le32_le32 [simp, codec]: "un_le32 (le32 w) = w"
proof (rule bit_word_eqI)
  fix n assume n: "n < LENGTH(32)"
  consider "n < 8" | "8 \<le> n" "n < 16" | "16 \<le> n" "n < 24" | "24 \<le> n" by linarith
  then show "bit (un_le32 (le32 w)) n \<longleftrightarrow> bit w n"
    by cases (use n in \<open>auto simp: le32_def un_le32_def bit_simps\<close>)
qed

lemma le32_un_le32 [codec]:
  assumes "length bs = 4"
  shows "le32 (un_le32 bs) = bs"
proof -
  obtain a b c d where bs: "bs = [a, b, c, d]"
    using assms by (rule length_eq_4E)
  have "ucast (un_le32 bs) = a" "ucast (drop_bit 8 (un_le32 bs)) = b"
    "ucast (drop_bit 16 (un_le32 bs)) = c" "ucast (drop_bit 24 (un_le32 bs)) = d"
    by (rule bit_word_eqI, auto simp: bs un_le32_def bit_simps dest: bit_imp_le_length)+
  then show ?thesis by (simp add: le32_def bs)
qed

end
