(* ===== verification/Std_Text.thy ===== *)
theory Std_Text
  imports Prelude
begin

text \<open>
  What the sources use of the C++ text library: decimal output of integers with
  \<open>std::setw\<close>/\<open>std::setfill('0')\<close>, \<open>std::to_string\<close>, \<open>std::stoi\<close>, and \<open>std::put_time\<close> on
  \<open>std::gmtime\<close>. A wall-clock reading is a number of milliseconds since the epoch; clocks
  set before 1970 are not modelled.
\<close>

subsection \<open>Decimal numerals\<close>

definition digit_char :: "nat \<Rightarrow> char" where
  "digit_char d = char_of (48 + d)"

fun dec :: "nat \<Rightarrow> string" where
  "dec n = (if n < 10 then [digit_char n] else dec (n div 10) @ [digit_char (n mod 10)])"

declare dec.simps [simp del]

definition to_string_int :: "int \<Rightarrow> string" where
  "to_string_int i = (if i < 0 then ''-'' @ dec (nat (- i)) else dec (nat i))"

text \<open>\<open>std::setw(w) << std::setfill('0')\<close> before a number.\<close>

definition pad0 :: "nat \<Rightarrow> string \<Rightarrow> string" where
  "pad0 w s = replicate (w - length s) CHR ''0'' @ s"

definition is_digit :: "char \<Rightarrow> bool" where
  "is_digit c \<longleftrightarrow> CHR ''0'' \<le> c \<and> c \<le> CHR ''9''"

definition digit_val :: "char \<Rightarrow> nat" where
  "digit_val c = of_char c - 48"

definition digits_val :: "string \<Rightarrow> nat" where
  "digits_val s = foldl (\<lambda>acc c. acc * 10 + digit_val c) 0 s"

lemma is_digit_iff: "is_digit c \<longleftrightarrow> 48 \<le> (of_char c :: nat) \<and> (of_char c :: nat) \<le> 57"
  by (simp add: is_digit_def less_eq_char_def)

lemma of_char_digit_char [simp]: "d < 10 \<Longrightarrow> (of_char (digit_char d) :: nat) = 48 + d"
  by (simp add: digit_char_def)

lemma digit_val_digit_char [simp]: "d < 10 \<Longrightarrow> digit_val (digit_char d) = d"
  by (simp add: digit_val_def)

lemma is_digit_digit_char [simp]: "d < 10 \<Longrightarrow> is_digit (digit_char d)"
  by (simp add: is_digit_iff)

lemma digit_char_inject [simp]: "a < 10 \<Longrightarrow> b < 10 \<Longrightarrow> digit_char a = digit_char b \<longleftrightarrow> a = b"
  by (metis digit_val_digit_char)

lemma digits_val_snoc [simp]: "digits_val (s @ [c]) = digits_val s * 10 + digit_val c"
  by (simp add: digits_val_def)

lemma digits_val_single [simp]: "digits_val [c] = digit_val c"
  by (simp add: digits_val_def)

lemma digits_val_dec [simp]: "digits_val (dec n) = n"
proof (induction n rule: dec.induct)
  case (1 n)
  then show ?case by (cases "n < 10") (simp_all add: dec.simps [of n])
qed

lemma dec_digits: "c \<in> set (dec n) \<Longrightarrow> is_digit c"
proof (induction n rule: dec.induct)
  case (1 n)
  then show ?case by (cases "n < 10") (auto simp: dec.simps [of n])
qed

lemma dec_not_Nil [simp]: "dec n \<noteq> []"
  by (simp add: dec.simps)

lemma dec_inject [simp]: "dec m = dec n \<longleftrightarrow> m = n"
  by (metis digits_val_dec)

lemma length_dec_le: "n < 10 ^ w \<Longrightarrow> 0 < w \<Longrightarrow> length (dec n) \<le> w"
proof (induction n arbitrary: w rule: dec.induct)
  case (1 n)
  show ?case
  proof (cases "n < 10")
    case True
    with 1 show ?thesis by (simp add: dec.simps)
  next
    case False
    then obtain w' where w: "w = Suc w'" "0 < w'"
      using "1.prems" by (cases w; cases "w - 1") auto
    with 1 False have "length (dec (n div 10)) \<le> w'"
      by (simp add: less_mult_imp_div_less mult.commute)
    with w False show ?thesis by (simp add: dec.simps [of n])
  qed
qed

lemma digits_val_zeros: "digits_val (replicate k CHR ''0'' @ s) = digits_val s"
proof (induction s rule: rev_induct)
  case Nil
  have "digits_val (replicate k CHR ''0'') = 0"
    by (induction k) (simp_all add: replicate_append_same [symmetric] digit_val_def
        del: replicate_Suc add: replicate_Suc [where x = "CHR ''0''"] digits_val_def)
  then show ?case by (simp add: digits_val_def)
next
  case (snoc c s)
  then show ?case
    using digits_val_snoc [of "replicate k CHR ''0'' @ s" c] by simp
qed

lemma digits_val_pad0 [simp]: "digits_val (pad0 w (dec n)) = n"
  by (simp add: pad0_def digits_val_zeros)

lemma pad0_inject [simp]: "pad0 w (dec m) = pad0 w (dec n) \<longleftrightarrow> m = n"
  by (metis digits_val_pad0)

lemma length_pad0: "length s \<le> w \<Longrightarrow> length (pad0 w s) = w"
  by (simp add: pad0_def)

lemma pad0_digits: "c \<in> set (pad0 w (dec n)) \<Longrightarrow> is_digit c"
  by (auto simp: pad0_def dec_digits) (simp add: is_digit_def)

subsection \<open>std::stoi\<close>

text \<open>
  \<open>std::stoi\<close> skips leading white space, takes an optional sign and as many digits as follow,
  ignores the rest of the string, and throws where there is no digit or where the value does
  not fit an \<open>int\<close>.
\<close>

datatype stoi_error = Invalid_argument | Out_of_range

definition is_space :: "char \<Rightarrow> bool" where
  "is_space c \<longleftrightarrow> c = CHR '' '' \<or> (9 \<le> (of_char c :: nat) \<and> (of_char c :: nat) \<le> 13)"

definition INT_MAX :: int where "INT_MAX = 2147483647"
definition INT_MIN :: int where "INT_MIN = - 2147483648"

definition stoi_digits :: "int \<Rightarrow> string \<Rightarrow> stoi_error + int" where
  "stoi_digits sign s =
     (let ds = takeWhile is_digit s; v = sign * int (digits_val ds)
      in if ds = [] then Inl Invalid_argument
         else if v < INT_MIN \<or> INT_MAX < v then Inl Out_of_range
         else Inr v)"

definition stoi :: "string \<Rightarrow> stoi_error + int" where
  "stoi s =
     (case dropWhile is_space s of
        [] \<Rightarrow> Inl Invalid_argument
      | c # cs \<Rightarrow>
          if c = CHR ''-'' then stoi_digits (- 1) cs
          else if c = CHR ''+'' then stoi_digits 1 cs
          else stoi_digits 1 (c # cs))"

lemma not_space_digit: "is_digit c \<Longrightarrow> \<not> is_space c"
  by (auto simp: is_digit_iff is_space_def)

lemma digit_not_sign: "is_digit c \<Longrightarrow> c \<noteq> CHR ''-'' \<and> c \<noteq> CHR ''+''"
  by (auto simp: is_digit_def less_eq_char_def)

text \<open>Reading back a printed number, whatever text follows it.\<close>

lemma stoi_dec_append:
  assumes "int n \<le> INT_MAX" "rest = [] \<or> \<not> is_digit (hd rest)"
  shows "stoi (dec n @ rest) = Inr (int n)"
proof -
  obtain c cs where d: "dec n = c # cs" by (cases "dec n") auto
  have digit: "is_digit c" using dec_digits [of c n] d by simp
  have tw: "takeWhile is_digit (dec n @ rest) = dec n"
  proof (cases rest)
    case Nil
    then show ?thesis by (simp add: takeWhile_eq_all_conv dec_digits)
  next
    case (Cons r rs)
    then show ?thesis using assms dec_digits by simp
  qed
  have "stoi (dec n @ rest) = stoi_digits 1 (dec n @ rest)"
    using digit not_space_digit [OF digit] digit_not_sign [OF digit]
    by (simp add: stoi_def d)
  also have "\<dots> = Inr (int n)"
    using assms by (simp add: stoi_digits_def tw INT_MIN_def INT_MAX_def)
  finally show ?thesis .
qed

lemma stoi_range: "stoi s = Inr v \<Longrightarrow> INT_MIN \<le> v \<and> v \<le> INT_MAX"
  by (auto simp: stoi_def stoi_digits_def Let_def split: list.splits if_splits)

subsection \<open>Wall-clock time\<close>

record tm =
  tm_year :: nat
  tm_mon :: nat
  tm_mday :: nat
  tm_hour :: nat
  tm_min :: nat
  tm_sec :: nat

text \<open>The proleptic Gregorian date of a day count, by eras of 400 years.\<close>

definition year_of_era :: "int \<Rightarrow> int" where
  "year_of_era doe = (doe - doe div 1460 + doe div 36524 - doe div 146096) div 365"

definition day_of_year :: "int \<Rightarrow> int \<Rightarrow> int" where
  "day_of_year doe yoe = doe - (365 * yoe + yoe div 4 - yoe div 100)"

definition tm_of :: "int \<Rightarrow> int \<Rightarrow> int \<Rightarrow> int \<Rightarrow> int \<Rightarrow> tm" where
  "tm_of year doy mp month secs =
     \<lparr> tm_year = nat (if month \<le> 2 then year + 1 else year), tm_mon = nat month,
       tm_mday = nat (doy - (153 * mp + 2) div 5 + 1), tm_hour = nat (secs div 3600),
       tm_min = nat (secs mod 3600 div 60), tm_sec = nat (secs mod 60) \<rparr>"

text \<open>The year starts in March here: month \<open>mp\<close> counts from it.\<close>

definition tm_month :: "int \<Rightarrow> int \<Rightarrow> int \<Rightarrow> int \<Rightarrow> tm" where
  "tm_month year doy mp secs = tm_of year doy mp (if mp < 10 then mp + 3 else mp - 9) secs"

definition tm_doy :: "int \<Rightarrow> int \<Rightarrow> int \<Rightarrow> tm" where
  "tm_doy year doy secs = tm_month year doy ((5 * doy + 2) div 153) secs"

definition tm_era :: "int \<Rightarrow> int \<Rightarrow> int \<Rightarrow> int \<Rightarrow> tm" where
  "tm_era era doe yoe secs = tm_doy (yoe + era * 400) (day_of_year doe yoe) secs"

definition tm_days :: "int \<Rightarrow> int \<Rightarrow> int \<Rightarrow> tm" where
  "tm_days era doe secs = tm_era era doe (year_of_era doe) secs"

definition gmtime_int :: "int \<Rightarrow> tm" where
  "gmtime_int secs =
     tm_days ((secs div 86400 + 719468) div 146097) ((secs div 86400 + 719468) mod 146097)
       (secs mod 86400)"

definition gmtime :: "nat \<Rightarrow> tm" where
  "gmtime secs = gmtime_int (int secs)"

definition two :: "nat \<Rightarrow> string" where
  "two n = pad0 2 (dec n)"

text \<open>\<open>%H:%M:%S\<close>, \<open>%Y%m%d_%H%M%S\<close> and \<open>%Y-%m-%d %H:%M:%S UTC\<close>.\<close>

definition fmt_hms :: "tm \<Rightarrow> string" where
  "fmt_hms t = two (tm_hour t) @ '':'' @ two (tm_min t) @ '':'' @ two (tm_sec t)"

definition fmt_file :: "tm \<Rightarrow> string" where
  "fmt_file t = dec (tm_year t) @ two (tm_mon t) @ two (tm_mday t) @ ''_''
                  @ two (tm_hour t) @ two (tm_min t) @ two (tm_sec t)"

definition fmt_log :: "tm \<Rightarrow> string" where
  "fmt_log t = dec (tm_year t) @ ''-'' @ two (tm_mon t) @ ''-'' @ two (tm_mday t) @ '' ''
                 @ fmt_hms t @ '' UTC''"

lemma tm_days_clock:
  "tm_hour (tm_days era doe secs) = nat (secs div 3600)"
  "tm_min (tm_days era doe secs) = nat (secs mod 3600 div 60)"
  "tm_sec (tm_days era doe secs) = nat (secs mod 60)"
  unfolding tm_days_def tm_era_def tm_doy_def tm_month_def tm_of_def by simp_all

lemma gmtime_fields:
  "tm_hour (gmtime t) < 24" "tm_min (gmtime t) < 60" "tm_sec (gmtime t) < 60"
proof -
  have c: "nat (s div 3600) < 24" "nat (s mod 3600 div 60) < 60" "nat (s mod 60) < 60"
    if "s < 86400" for s :: int
  proof -
    from that have "s div 3600 < 24" by linarith
    moreover have "s mod 3600 < 3600" "s mod 60 < 60" by simp_all
    then have "s mod 3600 div 60 < 60" by (simp add: div_less_iff_less_mult)
    ultimately show "nat (s div 3600) < 24" "nat (s mod 3600 div 60) < 60" "nat (s mod 60) < 60"
      using \<open>s mod 60 < 60\<close> by linarith+
  qed
  have "int t mod 86400 < 86400" by simp
  from c [OF this] show "tm_hour (gmtime t) < 24" "tm_min (gmtime t) < 60" "tm_sec (gmtime t) < 60"
    by (simp_all only: gmtime_def gmtime_int_def tm_days_clock)
qed

lemma length_two: "n < 100 \<Longrightarrow> length (two n) = 2"
  by (simp add: two_def length_pad0 length_dec_le)

lemma length_fmt_hms: "length (fmt_hms (gmtime t)) = 8"
  using gmtime_fields [of t] by (simp add: fmt_hms_def length_two)

end
