(* ===== verification/Packet.thy ===== *)
theory Packet
  imports Std_Text "HOL-Library.Multiset"
begin

text \<open>
  \<open>common/packet.h\<close>: the packet types, the packed 29-byte header and its layout in memory
  (which is what goes over the wire), the additive checksum, the header constructor and the
  reader of the fixed-width aircraft id. The telemetry payload's five \<open>float\<close> fields are kept
  as their 32-bit patterns: nothing here computes with them.
\<close>

subsection \<open>Packet types\<close>

text \<open>
  \<open>enum class PacketType : std::uint8_t\<close> is filled from received bytes, so a variable of the
  type can hold any byte; \<open>OTHER_TYPE\<close> stands for the values with no enumerator.
\<close>

datatype PacketType =
    HANDSHAKE_REQUEST
  | HANDSHAKE_ACK
  | HANDSHAKE_FAIL
  | TELEMETRY_PACKET
  | LARGE_FILE
  | DISCONNECT
  | OTHER_TYPE byte

fun type_byte :: "PacketType \<Rightarrow> byte" where
  "type_byte HANDSHAKE_REQUEST = 0x01"
| "type_byte HANDSHAKE_ACK = 0x02"
| "type_byte HANDSHAKE_FAIL = 0x03"
| "type_byte TELEMETRY_PACKET = 0x04"
| "type_byte LARGE_FILE = 0x05"
| "type_byte DISCONNECT = 0x06"
| "type_byte (OTHER_TYPE b) = b"

definition type_of_byte :: "byte \<Rightarrow> PacketType" where
  "type_of_byte b =
     (if b = 0x01 then HANDSHAKE_REQUEST else if b = 0x02 then HANDSHAKE_ACK
      else if b = 0x03 then HANDSHAKE_FAIL else if b = 0x04 then TELEMETRY_PACKET
      else if b = 0x05 then LARGE_FILE else if b = 0x06 then DISCONNECT
      else OTHER_TYPE b)"

definition wf_type :: "PacketType \<Rightarrow> bool" where
  "wf_type t \<longleftrightarrow> (case t of OTHER_TYPE b \<Rightarrow> b = 0 \<or> 6 < b | _ \<Rightarrow> True)"

fun packetTypeToString :: "PacketType \<Rightarrow> string" where
  "packetTypeToString HANDSHAKE_REQUEST = ''HANDSHAKE_REQUEST''"
| "packetTypeToString HANDSHAKE_ACK = ''HANDSHAKE_ACK''"
| "packetTypeToString HANDSHAKE_FAIL = ''HANDSHAKE_FAIL''"
| "packetTypeToString TELEMETRY_PACKET = ''TELEMETRY''"
| "packetTypeToString LARGE_FILE = ''LARGE_FILE''"
| "packetTypeToString DISCONNECT = ''DISCONNECT''"
| "packetTypeToString (OTHER_TYPE _) = ''UNKNOWN''"

lemma type_byte_of_byte [simp, codec]: "type_byte (type_of_byte b) = b"
  by (simp add: type_of_byte_def)

lemma type_of_type_byte [codec]: "wf_type t \<Longrightarrow> type_of_byte (type_byte t) = t"
  by (cases t) (auto simp: type_of_byte_def wf_type_def)

lemma byte_cases_7: "(b::byte) = 0 \<or> b = 1 \<or> b = 2 \<or> b = 3 \<or> b = 4 \<or> b = 5 \<or> b = 6 \<or> 6 < b"
  by unat_arith

lemma wf_type_of_byte [simp, codec]: "wf_type (type_of_byte b)"
  using byte_cases_7 [of b] by (auto simp: wf_type_def type_of_byte_def)

subsection \<open>The header\<close>

record PacketHeader =
  packet_type :: PacketType
  aircraft_id :: string
  sequence_number :: u32
  payload_size :: u32
  checksum :: u32

definition header_size :: nat where "header_size = 29"

definition wf_header :: "PacketHeader \<Rightarrow> bool" where
  "wf_header h \<longleftrightarrow> wf_type (packet_type h) \<and> length (aircraft_id h) = 16"

text \<open>The bytes of the packed struct, in field order, and the struct read from 29 bytes.\<close>

definition header_bytes :: "PacketHeader \<Rightarrow> byte list" where
  "header_bytes h =
     [type_byte (packet_type h)] @ map byte_of_char (aircraft_id h)
       @ le32 (sequence_number h) @ le32 (payload_size h) @ le32 (checksum h)"

definition header_of_bytes :: "byte list \<Rightarrow> PacketHeader" where
  "header_of_bytes bs =
     \<lparr> packet_type = type_of_byte (bs ! 0),
       aircraft_id = map char_of_byte (take 16 (drop 1 bs)),
       sequence_number = un_le32 (take 4 (drop 17 bs)),
       payload_size = un_le32 (take 4 (drop 21 bs)),
       checksum = un_le32 (take 4 (drop 25 bs)) \<rparr>"

lemma length_header_bytes [codec]: "wf_header h \<Longrightarrow> length (header_bytes h) = header_size"
  by (simp add: header_bytes_def wf_header_def header_size_def)

lemma header_of_header_bytes [codec]:
  assumes "wf_header h"
  shows "header_of_bytes (header_bytes h) = h"
  using assms
  by (simp add: header_of_bytes_def header_bytes_def wf_header_def type_of_type_byte o_def)

lemma wf_header_of_bytes [codec]: "length bs = header_size \<Longrightarrow> wf_header (header_of_bytes bs)"
  by (simp add: wf_header_def header_of_bytes_def header_size_def)

lemma split_header_bytes:
  assumes "length bs = 29"
  shows "[bs ! 0] @ take 16 (drop 1 bs) @ take 4 (drop 17 bs) @ take 4 (drop 21 bs)
           @ take 4 (drop 25 bs) = bs"
proof -
  have "bs = [bs ! 0] @ drop 1 bs"
    using assms by (cases bs) auto
  also have "drop 1 bs = take 16 (drop 1 bs) @ drop 17 bs"
    by (metis append_take_drop_id drop_drop numeral_One numeral_plus_numeral
        semiring_norm(2) semiring_norm(3) semiring_norm(26) add.commute num.simps)
  also have "drop 17 bs = take 4 (drop 17 bs) @ drop 21 bs"
    using append_take_drop_id [of 4 "drop 17 bs"] by simp
  also have "drop 21 bs = take 4 (drop 21 bs) @ drop 25 bs"
    using append_take_drop_id [of 4 "drop 21 bs"] by simp
  also have "drop 25 bs = take 4 (drop 25 bs)"
    using assms by simp
  finally show ?thesis by simp
qed

lemma header_bytes_of_bytes [codec]:
  assumes "length bs = header_size"
  shows "header_bytes (header_of_bytes bs) = bs"
  using assms split_header_bytes [of bs]
  by (simp add: header_bytes_def header_of_bytes_def header_size_def le32_un_le32 o_def)

subsection \<open>Aircraft ids\<close>

definition NUL :: char where "NUL = CHR 0x00"

text \<open>
  The field as \<open>memset\<close> and \<open>strncpy\<close> with bound 15 leave it: the C string up to its first NUL
  or 15 characters, then NULs.
\<close>

definition id_field :: "string \<Rightarrow> string" where
  "id_field s = (let cs = take 15 (takeWhile (\<lambda>c. c \<noteq> NUL) s) in cs @ replicate (16 - length cs) NUL)"

definition extractAircraftId :: "string \<Rightarrow> string" where
  "extractAircraftId field = takeWhile (\<lambda>c. c \<noteq> NUL) (take 16 field)"

definition makeHeader :: "PacketType \<Rightarrow> string \<Rightarrow> u32 \<Rightarrow> u32 \<Rightarrow> u32 \<Rightarrow> PacketHeader" where
  "makeHeader t aircraftId sequenceNumber payloadSize chk =
     \<lparr> packet_type = t, aircraft_id = id_field aircraftId, sequence_number = sequenceNumber,
       payload_size = payloadSize, checksum = chk \<rparr>"

lemma makeHeader_simps [simp]:
  "packet_type (makeHeader t i n s c) = t"
  "aircraft_id (makeHeader t i n s c) = id_field i"
  "sequence_number (makeHeader t i n s c) = n"
  "payload_size (makeHeader t i n s c) = s"
  "checksum (makeHeader t i n s c) = c"
  by (simp_all add: makeHeader_def)

lemma length_id_field [simp]: "length (id_field s) = 16"
  by (simp add: id_field_def Let_def)

lemma wf_makeHeader [simp, codec]: "wf_type t \<Longrightarrow> wf_header (makeHeader t i n s c)"
  by (simp add: wf_header_def)

lemma extract_id_field:
  "extractAircraftId (id_field s) = take 15 (takeWhile (\<lambda>c. c \<noteq> NUL) s)"
proof -
  let ?cs = "take 15 (takeWhile (\<lambda>c. c \<noteq> NUL) s)"
  have len: "length ?cs \<le> 15" by simp
  have "takeWhile (\<lambda>c. c \<noteq> NUL) (?cs @ replicate (16 - length ?cs) NUL) = ?cs"
    by (rule takeWhile_replicate_stop) (use len in \<open>auto dest!: in_set_takeD set_takeWhileD\<close>)
  then show ?thesis by (simp add: extractAircraftId_def id_field_def Let_def)
qed

lemma takeWhile_not_NUL: "NUL \<notin> set s \<Longrightarrow> takeWhile (\<lambda>c. c \<noteq> NUL) s = s"
  by (induction s) auto

lemma extract_short_id: "length s \<le> 15 \<Longrightarrow> NUL \<notin> set s \<Longrightarrow> extractAircraftId (id_field s) = s"
  by (subst extract_id_field, subst takeWhile_not_NUL) simp_all

lemma extract_no_NUL: "NUL \<notin> set (extractAircraftId f)"
  by (auto simp: extractAircraftId_def dest: set_takeWhileD)

lemma length_extract: "length (extractAircraftId f) \<le> 16"
proof -
  have "length (takeWhile (\<lambda>c. c \<noteq> NUL) (take 16 f)) \<le> length (take 16 f)"
    by (rule length_takeWhile_le)
  also have "\<dots> \<le> 16" by simp
  finally show ?thesis by (simp add: extractAircraftId_def)
qed

subsection \<open>The checksum\<close>

text \<open>The loop over the first \<open>size\<close> bytes with its 32-bit accumulator.\<close>

function checksum_loop :: "byte list \<Rightarrow> nat \<Rightarrow> nat \<Rightarrow> u32 \<Rightarrow> u32" where
  "checksum_loop data i n acc =
     (if i < n then checksum_loop data (i + 1) n (acc + ucast (data ! i)) else acc)"
  by pat_completeness auto
termination by (relation "measure (\<lambda>(data, i, n, acc). n - i)") auto

declare checksum_loop.simps [simp del]

definition computeChecksum :: "byte list \<Rightarrow> u32 \<Rightarrow> u32" where
  "computeChecksum data n = checksum_loop data 0 (unat n) 0"

definition byte_sum :: "byte list \<Rightarrow> u32" where
  "byte_sum bs = sum_list (map ucast bs)"

lemma byte_sum_simps [simp]:
  "byte_sum [] = 0" "byte_sum (b # bs) = ucast b + byte_sum bs"
  "byte_sum (as @ bs) = byte_sum as + byte_sum bs"
  by (simp_all add: byte_sum_def)

lemma checksum_loop_sum:
  "n \<le> length data \<Longrightarrow>
     checksum_loop data i n acc = acc + byte_sum (drop i (take n data))"
proof (induction data i n acc rule: checksum_loop.induct)
  case (1 data i n acc)
  show ?case
  proof (cases "i < n")
    case True
    have "drop i (take n data) = data ! i # drop (Suc i) (take n data)"
      using True "1.prems" Cons_nth_drop_Suc [of i "take n data"] by simp
    with 1 True show ?thesis by (simp add: checksum_loop.simps [of data i] add.assoc)
  next
    case False
    then show ?thesis by (simp add: checksum_loop.simps)
  qed
qed

lemma computeChecksum_take:
  "unat n \<le> length data \<Longrightarrow> computeChecksum data n = byte_sum (take (unat n) data)"
  by (simp add: computeChecksum_def checksum_loop_sum)

lemma computeChecksum_sum:
  "unat n = length data \<Longrightarrow> computeChecksum data n = byte_sum data"
  by (simp add: computeChecksum_take)

lemma computeChecksum_0 [simp]: "computeChecksum data 0 = 0"
  by (simp add: computeChecksum_def checksum_loop.simps)

lemma byte_sum_perm: "mset as = mset bs \<Longrightarrow> byte_sum as = byte_sum bs"
  unfolding byte_sum_def by (metis mset_map sum_mset_sum_list)

lemma unat_byte_sum:
  "255 * length bs < 2 ^ 32 \<Longrightarrow> unat (byte_sum bs) = sum_list (map unat bs)"
proof (induction bs)
  case (Cons b bs)
  have bound: "sum_list (map unat bs) \<le> 255 * length bs"
  proof (induction bs)
    case (Cons c cs)
    have "unat c \<le> 255" using unat_byte_less [of c] by linarith
    with Cons show ?case by simp
  qed simp
  have "unat b \<le> 255" using unat_byte_less [of b] by linarith
  with Cons bound show ?case
    by (simp add: unat_word_ariths)
qed simp

subsection \<open>The telemetry payload\<close>

record TelemetryPayload =
  latitude :: u32
  longitude :: u32
  altitude :: u32
  speed :: u32
  heading :: u32

definition telemetry_size :: nat where "telemetry_size = 20"

definition zero_telemetry :: TelemetryPayload where
  "zero_telemetry = \<lparr> latitude = 0, longitude = 0, altitude = 0, speed = 0, heading = 0 \<rparr>"

definition telemetry_bytes :: "TelemetryPayload \<Rightarrow> byte list" where
  "telemetry_bytes p =
     le32 (latitude p) @ le32 (longitude p) @ le32 (altitude p) @ le32 (speed p) @ le32 (heading p)"

definition telemetry_of_bytes :: "byte list \<Rightarrow> TelemetryPayload" where
  "telemetry_of_bytes bs =
     \<lparr> latitude = un_le32 (take 4 bs), longitude = un_le32 (take 4 (drop 4 bs)),
       altitude = un_le32 (take 4 (drop 8 bs)), speed = un_le32 (take 4 (drop 12 bs)),
       heading = un_le32 (take 4 (drop 16 bs)) \<rparr>"

lemma length_telemetry_bytes [simp, codec]: "length (telemetry_bytes p) = telemetry_size"
  by (simp add: telemetry_bytes_def telemetry_size_def)

lemma telemetry_of_telemetry_bytes [simp, codec]: "telemetry_of_bytes (telemetry_bytes p) = p"
  by (simp add: telemetry_of_bytes_def telemetry_bytes_def)

subsection \<open>Properties\<close>

lemma byte_sum_update:
  "i < length data \<Longrightarrow> byte_sum (data[i := b]) + ucast (data ! i) = byte_sum data + ucast b"
proof (induction data arbitrary: i)
  case (Cons a data)
  show ?case
  proof (cases i)
    case (Suc j)
    with Cons have "byte_sum (data[j := b]) + ucast (data ! j) = byte_sum data + ucast b" by simp
    with Suc show ?thesis by (simp add: add.assoc)
  qed simp
qed simp

lemma checksum_update_differs:
  assumes "unat n = length data" "i < length data" "b \<noteq> data ! i"
  shows "computeChecksum (data[i := b]) n \<noteq> computeChecksum data n"
proof
  assume "computeChecksum (data[i := b]) n = computeChecksum data n"
  then have "byte_sum (data[i := b]) = byte_sum data"
    using assms(1) by (simp add: computeChecksum_sum)
  with byte_sum_update [OF assms(2), of b] have "(ucast (data ! i) :: u32) = ucast b" by simp
  then show False using assms(3) by (simp add: ucast_byte_eq)
qed

text \<open>
  C35. The wire format of a header is exact in both directions: a header whose type byte and id field
  have the wire's shape occupies 29 bytes and is read back as it was, and any 29 bytes are the
  encoding of the header they are read as, so no two headers share an encoding.
\<close>

theorem header_codec:
  assumes "wf_header h" "length bs = header_size"
  shows "length (header_bytes h) = 29 \<and> header_of_bytes (header_bytes h) = h \<and>
    header_bytes (header_of_bytes bs) = bs \<and> wf_header (header_of_bytes bs)"
  using length_header_bytes [OF assms(1)] header_of_header_bytes [OF assms(1)]
    header_bytes_of_bytes [OF assms(2)] wf_header_of_bytes [OF assms(2)]
  by (simp add: header_size_def)

theorem header_codec_witness:
  "header_of_bytes (header_bytes (makeHeader TELEMETRY_PACKET ''AC-001'' 7 20 99)) =
     makeHeader TELEMETRY_PACKET ''AC-001'' 7 20 99 \<and>
   header_bytes (header_of_bytes (replicate 29 255)) = replicate 29 255"
proof -
  have "wf_header (makeHeader TELEMETRY_PACKET ''AC-001'' 7 20 99)" by (simp add: wf_type_def)
  moreover have "length (replicate 29 (255 :: byte)) = header_size" by (simp add: header_size_def)
  ultimately show ?thesis using header_codec by blast
qed

text \<open>
  C36. Aircraft ids cross the wire unharmed up to 15 characters: reading the id back from a header
  built with it gives its first 15 characters up to a NUL, and whatever bytes a peer puts in the
  field, what is read is at most 16 characters and contains no NUL.
\<close>

theorem aircraft_id_field:
  "extractAircraftId (aircraft_id (makeHeader t s n p c)) = take 15 (takeWhile (\<lambda>ch. ch \<noteq> NUL) s) \<and>
   length (extractAircraftId f) \<le> 16 \<and> NUL \<notin> set (extractAircraftId f)"
  by (simp add: extract_id_field length_extract extract_no_NUL)

text \<open>
  The checksum does not see order: any rearrangement of the payload has the same checksum, so
  swapped bytes (a byte-order error, say) pass the receiver's test.
\<close>

theorem checksum_order_blind:
  assumes "mset data' = mset data" "unat n = length data"
  shows "computeChecksum data' n = computeChecksum data n"
proof -
  have "unat n = length data'" using assms(2) mset_eq_length [OF assms(1)] by simp
  then have "computeChecksum data' n = byte_sum data'" by (rule computeChecksum_sum)
  also have "\<dots> = byte_sum data" by (rule byte_sum_perm [OF assms(1)])
  also have "\<dots> = computeChecksum data n" by (rule computeChecksum_sum [OF assms(2), symmetric])
  finally show ?thesis .
qed

theorem checksum_order_blind_witness:
  "computeChecksum [3, 1, 2] 3 = computeChecksum [1, 2, 3] 3"
  by (rule checksum_order_blind) simp_all

end
