(* ===== verification/Client_Packets.thy ===== *)
theory Client_Packets
  imports Packet
begin

text \<open>
  The packets \<open>client/aircraft_client.cpp\<close> builds, as the bytes it writes to its socket.
\<close>

subsection \<open>The client's packets\<close>

text \<open>The bytes \<open>sendPacketLocked\<close> writes: the header, and the payload if it has one.\<close>

definition packet_bytes :: "PacketHeader \<Rightarrow> byte list \<Rightarrow> byte list" where
  "packet_bytes header payload =
     header_bytes header @
     (if 0 < payload_size header then take (unat (payload_size header)) payload else [])"

definition handshake_packet :: "string \<Rightarrow> u32 \<Rightarrow> byte list" where
  "handshake_packet i n = packet_bytes (makeHeader HANDSHAKE_REQUEST i n 0 0) []"

definition telemetry_packet :: "string \<Rightarrow> u32 \<Rightarrow> TelemetryPayload \<Rightarrow> byte list" where
  "telemetry_packet i n p =
     (let bs = telemetry_bytes p;
          len = word_of_nat telemetry_size
      in packet_bytes (makeHeader TELEMETRY_PACKET i n len (computeChecksum bs len)) bs)"

definition map_request_packet :: "string \<Rightarrow> u32 \<Rightarrow> byte list" where
  "map_request_packet i n = packet_bytes (makeHeader LARGE_FILE i n 0 0) []"

definition disconnect_packet :: "string \<Rightarrow> u32 \<Rightarrow> byte list" where
  "disconnect_packet i n = packet_bytes (makeHeader DISCONNECT i n 0 0) []"

end
