(* ===== verification/Socket_Utils.thy ===== *)
theory Socket_Utils
  imports Packet
begin

text \<open>
  \<open>common/socket_utils.h\<close>: the loops that turn the kernel's partial \<open>recv\<close> and \<open>send\<close> into
  all-or-nothing transfers, the handle-guarded \<open>shutdown\<close>/\<open>close\<close> wrappers, and the timeout
  arithmetic of \<open>waitForReadable\<close>. The loops take the system calls as arguments; the locale
  \<open>stream_socket\<close> states what a stream socket promises, and the scripted kernel socket below,
  whose scripts say how the kernel cuts the traffic into chunks and when it fails, is an
  instance of it.
\<close>

definition INVALID_SOCK :: handle where "INVALID_SOCK = - 1"

definition max_chunk :: nat where "max_chunk = 2147483647"

subsection \<open>The transfer loops\<close>

text \<open>
  \<open>recv s n\<close> is \<open>None\<close> for an error and \<open>Some bs\<close> for the bytes read, where \<open>[]\<close> is the
  peer's orderly shutdown; \<open>send s bs\<close> is \<open>None\<close> or the number of bytes taken.
\<close>

function recv_loop ::
  "('s \<Rightarrow> nat \<Rightarrow> byte list option \<times> 's) \<Rightarrow> nat \<Rightarrow> byte list \<Rightarrow> 's \<Rightarrow> byte list option \<times> 's" where
  "recv_loop recv tot buf s =
     (if length buf < tot
      then (case recv s (min (tot - length buf) max_chunk) of
              (None, s') \<Rightarrow> (None, s')
            | (Some [], s') \<Rightarrow> (None, s')
            | (Some (b # bs), s') \<Rightarrow> recv_loop recv tot (buf @ b # bs) s')
      else (Some buf, s))"
  by pat_completeness auto
termination by (relation "measure (\<lambda>(recv, tot, buf, s). tot - length buf)") auto

declare recv_loop.simps [simp del]

definition recvAll ::
  "('s \<Rightarrow> nat \<Rightarrow> byte list option \<times> 's) \<Rightarrow> 's \<Rightarrow> nat \<Rightarrow> byte list option \<times> 's" where
  "recvAll recv s n = recv_loop recv n [] s"

function send_loop ::
  "('s \<Rightarrow> byte list \<Rightarrow> nat option \<times> 's) \<Rightarrow> byte list \<Rightarrow> nat \<Rightarrow> 's \<Rightarrow> bool \<times> 's" where
  "send_loop send data totalSent s =
     (if totalSent < length data
      then (case send s (take (min (length data - totalSent) max_chunk) (drop totalSent data)) of
              (None, s') \<Rightarrow> (False, s')
            | (Some 0, s') \<Rightarrow> (False, s')
            | (Some (Suc k), s') \<Rightarrow> send_loop send data (totalSent + Suc k) s')
      else (True, s))"
  by pat_completeness auto
termination by (relation "measure (\<lambda>(send, data, totalSent, s). length data - totalSent)") auto

declare send_loop.simps [simp del]

definition sendAll :: "('s \<Rightarrow> byte list \<Rightarrow> nat option \<times> 's) \<Rightarrow> 's \<Rightarrow> byte list \<Rightarrow> bool \<times> 's" where
  "sendAll send s data = send_loop send data 0 s"

text \<open>The loops leave alone what each system call leaves alone.\<close>

lemma recv_loop_keeps:
  assumes "\<And>s n. f (snd (recv s n)) = f s"
  shows "f (snd (recv_loop recv tot buf s)) = f s"
  using assms
proof (induction recv tot buf s rule: recv_loop.induct)
  case (1 recv tot buf s)
  have keep: "f s' = f s" if "recv s n = (r, s')" for n r s' using 1(2) [of s n] that by simp
  show ?case
    using 1 by (subst recv_loop.simps) (auto split: prod.splits option.splits list.splits dest!: keep)
qed

lemma send_loop_keeps:
  assumes "\<And>s d. f (snd (send s d)) = f s"
  shows "f (snd (send_loop send data t s)) = f s"
  using assms
proof (induction send data t s rule: send_loop.induct)
  case (1 send data t s)
  have keep: "f s' = f s" if "send s d = (r, s')" for d r s' using 1(2) [of s d] that by simp
  show ?case
    using 1 by (subst send_loop.simps) (auto split: prod.splits option.splits nat.splits dest!: keep)
qed

subsection \<open>What a stream socket promises\<close>

locale stream_socket =
  fixes recv :: "'s \<Rightarrow> nat \<Rightarrow> byte list option \<times> 's"
    and send :: "'s \<Rightarrow> byte list \<Rightarrow> nat option \<times> 's"
    and readable :: "'s \<Rightarrow> byte list"
    and written :: "'s \<Rightarrow> byte list"
  assumes recv_data: "0 < n \<Longrightarrow> recv s n = (Some bs, s') \<Longrightarrow> bs \<noteq> [] \<Longrightarrow>
      length bs \<le> n \<and> readable s = bs @ readable s'"
    and recv_end: "0 < n \<Longrightarrow> recv s n = (r, s') \<Longrightarrow> r = None \<or> r = Some [] \<Longrightarrow> readable s = []"
    and recv_written: "recv s n = (r, s') \<Longrightarrow> written s' = written s"
    and send_some: "send s d = (Some k, s') \<Longrightarrow> k \<le> length d \<and> written s' = written s @ take k d"
    and send_none: "send s d = (None, s') \<Longrightarrow> written s' = written s"
    and send_readable: "send s d = (c, s') \<Longrightarrow> readable s' = readable s"
begin

lemma recv_loop_spec:
  assumes "length buf \<le> tot"
  shows "fst (recv_loop recv tot buf s) =
           (if tot - length buf \<le> length (readable s)
            then Some (buf @ take (tot - length buf) (readable s)) else None) \<and>
         (fst (recv_loop recv tot buf s) \<noteq> None \<longrightarrow>
            readable (snd (recv_loop recv tot buf s)) = drop (tot - length buf) (readable s)) \<and>
         written (snd (recv_loop recv tot buf s)) = written s"
  using assms
proof (induction "tot - length buf" arbitrary: buf s rule: less_induct)
  case less
  show ?case
  proof (cases "length buf < tot")
    case False
    with less.prems show ?thesis by (simp add: recv_loop.simps [of recv tot buf s])
  next
    case True
    let ?n = "min (tot - length buf) max_chunk"
    have pos: "0 < ?n" using True by (simp add: max_chunk_def)
    obtain r s' where r: "recv s ?n = (r, s')" by (cases "recv s ?n")
    have keep: "written s' = written s" using r by (rule recv_written)
    show ?thesis
    proof (cases "r = None \<or> r = Some []")
      case True
      with recv_end [OF pos r] have "readable s = []" by simp
      with True \<open>length buf < tot\<close> r keep show ?thesis
        by (auto simp: recv_loop.simps [of recv tot buf s])
    next
      case False
      then obtain xs where xs: "r = Some xs" "xs \<noteq> []" by (cases r) auto
      from recv_data [OF pos r [unfolded xs] xs(2)]
      have len: "length xs \<le> ?n" and rd: "readable s = xs @ readable s'" by auto
      define m where "m = tot - length (buf @ xs)"
      have sp: "tot - length buf = length xs + m" and le: "length (buf @ xs) \<le> tot"
        using len True by (auto simp: m_def)
      have "tot - length (buf @ xs) < tot - length buf" using True xs(2) by (cases xs) auto
      from less.hyps [OF this le, of s']
      have IH: "fst (recv_loop recv tot (buf @ xs) s') =
           (if m \<le> length (readable s') then Some ((buf @ xs) @ take m (readable s')) else None)
         \<and> (fst (recv_loop recv tot (buf @ xs) s') \<noteq> None \<longrightarrow>
            readable (snd (recv_loop recv tot (buf @ xs) s')) = drop m (readable s'))
         \<and> written (snd (recv_loop recv tot (buf @ xs) s')) = written s'"
        by (simp add: m_def)
      have step: "recv_loop recv tot buf s = recv_loop recv tot (buf @ xs) s'"
        using True r xs by (cases xs) (simp_all add: recv_loop.simps [of recv tot buf s])
      show ?thesis
        using IH keep unfolding step rd sp by simp
    qed
  qed
qed

text \<open>
  The chunking is invisible: a transfer returns exactly the next \<open>n\<close> bytes of the stream if the
  stream still holds as many, and fails otherwise.
\<close>

lemma recvAll_value:
  "fst (recvAll recv s n) = (if n \<le> length (readable s) then Some (take n (readable s)) else None)"
  using recv_loop_spec [of "[]" n s] by (simp add: recvAll_def)

lemma recvAll_rest: "recvAll recv s n = (Some bs, s') \<Longrightarrow> readable s' = drop n (readable s)"
  using recv_loop_spec [of "[]" n s] by (simp add: recvAll_def)

lemma recvAll_written: "written (snd (recvAll recv s n)) = written s"
  using recv_loop_spec [of "[]" n s] by (simp add: recvAll_def)

lemma recvAll_Some: "recvAll recv s n = (Some bs, s') \<Longrightarrow>
    bs = take n (readable s) \<and> length bs = n \<and> readable s' = drop n (readable s)"
  using recvAll_value [of s n] recvAll_rest [of s n bs s'] by (auto split: if_splits)

lemma send_loop_spec:
  assumes "t \<le> length data" "send_loop send data t s = (ok, s')"
  shows "readable s' = readable s \<and>
         (\<exists>k. t + k \<le> length data \<and> written s' = written s @ take k (drop t data) \<and>
              (ok \<longleftrightarrow> t + k = length data))"
  using assms
proof (induction "length data - t" arbitrary: t s rule: less_induct)
  case less
  show ?case
  proof (cases "t < length data")
    case False
    with less.prems show ?thesis
      by (subst (asm) send_loop.simps) auto
  next
    case True
    let ?d = "take (min (length data - t) max_chunk) (drop t data)"
    obtain r s1 where r: "send s ?d = (r, s1)" by (cases "send s ?d")
    have rd: "readable s1 = readable s" using r by (rule send_readable)
    show ?thesis
    proof (cases "r = None \<or> r = Some 0")
      case True
      then have "written s1 = written s"
        using r send_none [of s ?d s1] send_some [of s ?d 0 s1] by auto
      moreover have "ok = False \<and> s' = s1"
        using True \<open>t < length data\<close> r less.prems(2)
        by (auto simp: send_loop.simps [of send data t s])
      ultimately show ?thesis
        using rd \<open>t < length data\<close> by (intro conjI exI [of _ 0]) auto
    next
      case False
      then obtain k where k: "r = Some (Suc k)" by (cases r; cases "the r") auto
      have le: "Suc k \<le> length ?d" and wr: "written s1 = written s @ take (Suc k) ?d"
        using send_some [OF r [unfolded k]] by auto
      have tk: "take (Suc k) ?d = take (Suc k) (drop t data)"
        using le by (simp add: min_absorb1)
      have rec: "send_loop send data (t + Suc k) s1 = (ok, s')"
        using True r k less.prems(2) by (simp add: send_loop.simps [of send data t s])
      have "t + Suc k \<le> length data" using le True by auto
      moreover have "length data - (t + Suc k) < length data - t" using True by simp
      ultimately obtain j where j: "readable s' = readable s1"
        "t + Suc k + j \<le> length data"
        "written s' = written s1 @ take j (drop (t + Suc k) data)"
        "ok \<longleftrightarrow> t + Suc k + j = length data"
        using less.hyps rec by blast
      then show ?thesis
        using rd wr tk take_take_drop [of "Suc k" "drop t data" j]
        by (intro conjI exI [of _ "Suc k + j"]) (auto simp: add.commute add.left_commute)
    qed
  qed
qed

text \<open>A send puts the whole message on the stream, or reports failure having put a proper prefix.\<close>

lemma sendAll_True: "sendAll send s data = (True, s') \<Longrightarrow> written s' = written s @ data"
  using send_loop_spec [of 0 data s True s'] by (auto simp: sendAll_def)

lemma sendAll_False:
  "sendAll send s data = (False, s') \<Longrightarrow>
     \<exists>k < length data. written s' = written s @ take k data"
  using send_loop_spec [of 0 data s False s'] by (auto simp: sendAll_def order.strict_iff_order)

lemma sendAll_readable: "readable (snd (sendAll send s data)) = readable s"
  using send_loop_spec [of 0 data s] by (cases "sendAll send s data") (auto simp: sendAll_def)

end

subsection \<open>The kernel's socket\<close>

text \<open>
  \<open>rx\<close> is what successive \<open>recv\<close> calls find, \<open>tx\<close> how successive \<open>send\<close> calls are answered,
  \<open>outb\<close> the bytes the kernel has taken so far, \<open>shut_all\<close>/\<open>shut_wr\<close> the shutdowns and \<open>closes\<close>
  the number of \<open>close\<close> calls. An exhausted \<open>rx\<close> reads as the peer's shutdown, an exhausted
  \<open>tx\<close> refuses.
\<close>

datatype recv_event = RecvBytes "byte list" | RecvError
datatype send_event = Accepts nat | SendError

record sock =
  rx :: "recv_event list"
  tx :: "send_event list"
  outb :: "byte list"
  shut_all :: bool
  shut_wr :: bool
  closes :: nat

definition sock_recv :: "sock \<Rightarrow> nat \<Rightarrow> byte list option \<times> sock" where
  "sock_recv s n =
     (case rx s of
        [] \<Rightarrow> (Some [], s)
      | RecvError # es \<Rightarrow> (None, s\<lparr>rx := es\<rparr>)
      | RecvBytes bs # es \<Rightarrow>
          (Some (take n bs), s\<lparr>rx := (if length bs \<le> n then es else RecvBytes (drop n bs) # es)\<rparr>))"

definition sock_send :: "sock \<Rightarrow> byte list \<Rightarrow> nat option \<times> sock" where
  "sock_send s d =
     (case tx s of
        [] \<Rightarrow> (None, s)
      | SendError # es \<Rightarrow> (None, s\<lparr>tx := es\<rparr>)
      | Accepts k # es \<Rightarrow>
          (Some (min k (length d)), s\<lparr>tx := es, outb := outb s @ take k d\<rparr>))"

fun stream_of :: "recv_event list \<Rightarrow> byte list" where
  "stream_of [] = []"
| "stream_of (RecvError # es) = []"
| "stream_of (RecvBytes bs # es) = (if bs = [] then [] else bs @ stream_of es)"

definition sock_readable :: "sock \<Rightarrow> byte list" where
  "sock_readable s = stream_of (rx s)"

interpretation kernel: stream_socket sock_recv sock_send sock_readable outb
proof
  fix s :: sock and n bs s'
  assume "0 < n" "sock_recv s n = (Some bs, s')" "bs \<noteq> []"
  then show "length bs \<le> n \<and> sock_readable s = bs @ sock_readable s'"
    by (auto simp: sock_recv_def sock_readable_def split: list.splits recv_event.splits if_splits)
next
  fix s :: sock and n r s'
  assume "0 < n" "sock_recv s n = (r, s')" "r = None \<or> r = Some []"
  then show "sock_readable s = []"
    by (auto simp: sock_recv_def sock_readable_def split: list.splits recv_event.splits)
next
  fix s :: sock and d k s'
  assume "sock_send s d = (Some k, s')"
  then show "k \<le> length d \<and> outb s' = outb s @ take k d"
    by (auto simp: sock_send_def min_def split: list.splits send_event.splits)
qed (auto simp: sock_recv_def sock_send_def sock_readable_def
      split: list.splits recv_event.splits send_event.splits)

subsection \<open>Sockets by handle\<close>

type_synonym net = "handle \<Rightarrow> sock"

definition closeSocket :: "net \<Rightarrow> handle \<Rightarrow> net" where
  "closeSocket n h = (if h \<noteq> INVALID_SOCK then n(h := (n h)\<lparr>closes := closes (n h) + 1\<rparr>) else n)"

definition shutdownSocket :: "net \<Rightarrow> handle \<Rightarrow> net" where
  "shutdownSocket n h = (if h \<noteq> INVALID_SOCK then n(h := (n h)\<lparr>shut_all := True\<rparr>) else n)"

definition shutdownSocketSend :: "net \<Rightarrow> handle \<Rightarrow> net" where
  "shutdownSocketSend n h = (if h \<noteq> INVALID_SOCK then n(h := (n h)\<lparr>shut_wr := True\<rparr>) else n)"

definition net_recvAll :: "net \<Rightarrow> handle \<Rightarrow> nat \<Rightarrow> byte list option \<times> net" where
  "net_recvAll n h k = (let (r, s) = recvAll sock_recv (n h) k in (r, n(h := s)))"

definition net_sendAll :: "net \<Rightarrow> handle \<Rightarrow> byte list \<Rightarrow> bool \<times> net" where
  "net_sendAll n h bs = (let (ok, s) = sendAll sock_send (n h) bs in (ok, n(h := s)))"

text \<open>What each operation leaves alone: the other sockets, and the bytes sent by a receive.\<close>

lemma net_recvAll_other [frame]: "net_recvAll n h k = (r, n') \<Longrightarrow> h' \<noteq> h \<Longrightarrow> n' h' = n h'"
  by (auto simp: net_recvAll_def split: prod.splits)

lemma net_sendAll_other [frame]: "net_sendAll n h bs = (ok, n') \<Longrightarrow> h' \<noteq> h \<Longrightarrow> n' h' = n h'"
  by (auto simp: net_sendAll_def split: prod.splits)

lemma sock_closes [frame]:
  "closes (snd (sock_recv s n)) = closes s" "closes (snd (sock_send s d)) = closes s"
  by (auto simp: sock_recv_def sock_send_def split: list.splits recv_event.splits send_event.splits)

lemma net_closes [frame]:
  "net_recvAll n h k = (r, n') \<Longrightarrow> closes (n' h') = closes (n h')"
  "net_sendAll n h bs = (ok, n') \<Longrightarrow> closes (n' h') = closes (n h')"
  using recv_loop_keeps [where f = closes and recv = sock_recv, OF sock_closes(1), of k "[]" "n h"]
    send_loop_keeps [where f = closes and send = sock_send, OF sock_closes(2), of bs 0 "n h"]
  by (cases "h' = h"; auto simp: net_recvAll_def net_sendAll_def recvAll_def sendAll_def
        split: prod.splits)+

lemma net_recvAll_outb [frame]: "net_recvAll n h k = (r, n') \<Longrightarrow> outb (n' h') = outb (n h')"
  using kernel.recvAll_written [of "n h" k]
  by (cases "h' = h") (auto simp: net_recvAll_def split: prod.splits)

lemma net_recvAll_tx [frame]: "net_recvAll n h k = (r, n') \<Longrightarrow> tx (n' h') = tx (n h')"
proof -
  have f: "tx (snd (sock_recv s m)) = tx s" for s m
    by (auto simp: sock_recv_def split: list.splits recv_event.splits)
  show "net_recvAll n h k = (r, n') \<Longrightarrow> tx (n' h') = tx (n h')"
    using recv_loop_keeps [where f = tx and recv = sock_recv, OF f, of k "[]" "n h"]
    by (cases "h' = h") (auto simp: net_recvAll_def recvAll_def split: prod.splits)
qed

text \<open>A message the kernel takes in one piece.\<close>

lemma net_sendAll_whole:
  assumes "tx (n h) = Accepts k # es" "length bs \<le> k" "bs \<noteq> []" "length bs \<le> max_chunk"
  shows "net_sendAll n h bs = (True, n(h := (n h)\<lparr>tx := es, outb := outb (n h) @ bs\<rparr>))"
proof -
  have "sock_send (n h) (take (min (length bs - 0) max_chunk) (drop 0 bs)) =
      (Some (length bs), (n h)\<lparr>tx := es, outb := outb (n h) @ bs\<rparr>)"
    using assms by (simp add: sock_send_def)
  with assms(3) show ?thesis
    by (cases "length bs")
       (simp_all add: net_sendAll_def sendAll_def send_loop.simps [of _ bs 0] send_loop.simps [of _ bs "Suc _"])
qed

lemma net_recvAll_Some:
  "net_recvAll n h k = (Some bs, n') \<Longrightarrow>
     bs = take k (sock_readable (n h)) \<and> length bs = k \<and>
     sock_readable (n' h) = drop k (sock_readable (n h))"
  using kernel.recvAll_Some [of "n h" k bs] by (auto simp: net_recvAll_def split: prod.splits)

lemma net_recvAll_value:
  "fst (net_recvAll n h k) =
     (if k \<le> length (sock_readable (n h)) then Some (take k (sock_readable (n h))) else None)"
  using kernel.recvAll_value [of "n h" k] by (auto simp: net_recvAll_def split: prod.splits)

lemma net_sendAll_True: "net_sendAll n h bs = (True, n') \<Longrightarrow> outb (n' h) = outb (n h) @ bs"
  using kernel.sendAll_True [of "n h" bs] by (auto simp: net_sendAll_def split: prod.splits)

lemma net_sendAll_False:
  "net_sendAll n h bs = (False, n') \<Longrightarrow> \<exists>k<length bs. outb (n' h) = outb (n h) @ take k bs"
  using kernel.sendAll_False [of "n h" bs] by (auto simp: net_sendAll_def split: prod.splits)

lemma net_sendAll_readable [frame]:
  "net_sendAll n h bs = (ok, n') \<Longrightarrow> sock_readable (n' h') = sock_readable (n h')"
  using kernel.sendAll_readable [of "n h" bs]
  by (cases "h' = h") (auto simp: net_sendAll_def split: prod.splits)

subsection \<open>Readiness and errors\<close>

text \<open>The \<open>timeval\<close> that \<open>waitForReadable\<close> builds, and its verdict on \<open>select\<close>'s answer.\<close>

definition wait_timeval :: "int \<Rightarrow> int \<times> int" where
  "wait_timeval timeoutMs = (timeoutMs sdiv 1000, (timeoutMs smod 1000) * 1000)"

definition waitForReadable ::
  "(handle set \<Rightarrow> int \<times> int \<Rightarrow> int \<times> handle set) \<Rightarrow> handle \<Rightarrow> int \<Rightarrow> bool" where
  "waitForReadable sel h timeoutMs =
     (let (result, ready) = sel {h} (wait_timeval timeoutMs) in 0 < result \<and> h \<in> ready)"

definition socketErrorString :: "string \<Rightarrow> int \<Rightarrow> string" where
  "socketErrorString prefix lastError = prefix @ '' (socket error '' @ to_string_int lastError @ '')''"

lemma wait_timeval_exact:
  "0 \<le> ms \<Longrightarrow> wait_timeval ms = (sec, usec) \<Longrightarrow>
     sec * 1000000 + usec = ms * 1000 \<and> 0 \<le> usec \<and> usec < 1000000"
  using pos_mod_bound [of 1000 ms] div_mult_mod_eq [of ms 1000]
  by (auto simp: wait_timeval_def)

subsection \<open>Properties\<close>

text \<open>
  C33. Receiving is all or nothing and blind to segmentation: whatever pieces the kernel delivers the
  stream in, a receive of \<open>n\<close> bytes returns exactly the next \<open>n\<close> bytes of it and leaves the rest,
  or fails because the stream ends (or breaks) before; it writes nothing.
\<close>

theorem recvAll_exact:
  "fst (recvAll sock_recv s n) =
     (if n \<le> length (sock_readable s) then Some (take n (sock_readable s)) else None) \<and>
   (case recvAll sock_recv s n of
      (Some bs, s') \<Rightarrow> sock_readable s' = drop n (sock_readable s) | (None, s') \<Rightarrow> True) \<and>
   outb (snd (recvAll sock_recv s n)) = outb s"
  using kernel.recvAll_value [of s n] kernel.recvAll_rest [of s n] kernel.recvAll_written [of s n]
  by (auto split: prod.splits option.splits)

text \<open>
  C34. Sending reports the truth: whatever the kernel accepts at each call, the bytes it took are a
  prefix of the message, success is reported exactly when the prefix is the whole message, and
  the incoming stream is not touched.
\<close>

theorem sendAll_exact:
  "\<exists>k\<in>{0..length data}. outb (snd (sendAll sock_send s data)) = outb s @ take k data \<and>
     (fst (sendAll sock_send s data) \<longleftrightarrow> k = length data) \<and>
     sock_readable (snd (sendAll sock_send s data)) = sock_readable s"
proof -
  obtain ok s' where r: "sendAll sock_send s data = (ok, s')" by (cases "sendAll sock_send s data")
  have rd: "sock_readable s' = sock_readable s" using kernel.sendAll_readable [of s data] r by simp
  show ?thesis
  proof (cases ok)
    case True
    with kernel.sendAll_True [of s data s'] r rd show ?thesis
      by (intro bexI [of _ "length data"]) simp_all
  next
    case False
    with kernel.sendAll_False [of s data s'] r obtain k where "k < length data"
      "outb s' = outb s @ take k data" by auto
    with False r rd show ?thesis by (intro bexI [of _ k]) simp_all
  qed
qed

end
