(* ===== verification/State_Machine.thy ===== *)
theory State_Machine
  imports Prelude
begin

text \<open>
  \<open>server/state_machine.{h,cpp}\<close>: the six session states, the table of legal transitions, and
  the guarded \<open>transition\<close>. The diagnostic an illegal transition writes to \<open>std::cerr\<close> is not
  modelled. The locale \<open>guarded_machine\<close> is the contract of such a machine; the lemmas about
  sequences of attempts are proved there once.
\<close>

subsection \<open>States and transitions\<close>

datatype State = DISCONNECTED | HANDSHAKE_PENDING | CONNECTED | TELEMETRY | LARGE_FILE_TRANSFER | FAULT

instantiation State :: enum
begin

definition enum_State :: "State list" where
  "enum_State = [DISCONNECTED, HANDSHAKE_PENDING, CONNECTED, TELEMETRY, LARGE_FILE_TRANSFER, FAULT]"

definition enum_all_State :: "(State \<Rightarrow> bool) \<Rightarrow> bool" where
  "enum_all_State P \<longleftrightarrow> list_all P enum_class.enum"

definition enum_ex_State :: "(State \<Rightarrow> bool) \<Rightarrow> bool" where
  "enum_ex_State P \<longleftrightarrow> list_ex P enum_class.enum"

instance
proof
  show univ: "(UNIV :: State set) = set enum_class.enum"
    by (auto simp: enum_State_def intro: State.exhaust)
  show "distinct (enum_class.enum :: State list)" by (simp add: enum_State_def)
  show "enum_class.enum_all P \<longleftrightarrow> Ball UNIV P" for P :: "State \<Rightarrow> bool"
    by (simp add: enum_all_State_def univ list_all_iff)
  show "enum_class.enum_ex P \<longleftrightarrow> Bex UNIV P" for P :: "State \<Rightarrow> bool"
    by (simp add: enum_ex_State_def univ list_ex_iff)
qed

end

record StateMachine =
  current :: State

definition new_machine :: StateMachine where
  "new_machine = \<lparr> current = DISCONNECTED \<rparr>"

definition getState :: "StateMachine \<Rightarrow> State" where
  "getState m = current m"

definition isAllowed :: "State \<Rightarrow> State \<Rightarrow> bool" where
  "isAllowed from to =
     (if from = to then True
      else (case from of
              DISCONNECTED \<Rightarrow> to = HANDSHAKE_PENDING
            | HANDSHAKE_PENDING \<Rightarrow> to = CONNECTED \<or> to = DISCONNECTED \<or> to = FAULT
            | CONNECTED \<Rightarrow>
                to = TELEMETRY \<or> to = LARGE_FILE_TRANSFER \<or> to = DISCONNECTED \<or> to = FAULT
            | TELEMETRY \<Rightarrow> to = CONNECTED \<or> to = FAULT
            | LARGE_FILE_TRANSFER \<Rightarrow> to = CONNECTED \<or> to = FAULT
            | FAULT \<Rightarrow> to = DISCONNECTED))"

definition transition :: "StateMachine \<Rightarrow> State \<Rightarrow> bool \<times> StateMachine" where
  "transition m next_state =
     (if \<not> isAllowed (current m) next_state then (False, m)
      else (True, m\<lparr>current := next_state\<rparr>))"

fun stateToString :: "State \<Rightarrow> string" where
  "stateToString DISCONNECTED = ''STATE_DISCONNECTED''"
| "stateToString HANDSHAKE_PENDING = ''STATE_HANDSHAKE_PENDING''"
| "stateToString CONNECTED = ''STATE_CONNECTED''"
| "stateToString TELEMETRY = ''STATE_TELEMETRY''"
| "stateToString LARGE_FILE_TRANSFER = ''STATE_LARGE_FILE_TRANSFER''"
| "stateToString FAULT = ''STATE_FAULT''"

lemma isAllowed_refl [machine_simps]: "isAllowed s s"
  by (simp add: isAllowed_def)

lemma isAllowed_cases [machine_simps]:
  "isAllowed DISCONNECTED t \<longleftrightarrow> t = DISCONNECTED \<or> t = HANDSHAKE_PENDING"
  "isAllowed HANDSHAKE_PENDING t \<longleftrightarrow>
     t = HANDSHAKE_PENDING \<or> t = CONNECTED \<or> t = DISCONNECTED \<or> t = FAULT"
  "isAllowed CONNECTED t \<longleftrightarrow> t \<noteq> HANDSHAKE_PENDING"
  "isAllowed TELEMETRY t \<longleftrightarrow> t = TELEMETRY \<or> t = CONNECTED \<or> t = FAULT"
  "isAllowed LARGE_FILE_TRANSFER t \<longleftrightarrow> t = LARGE_FILE_TRANSFER \<or> t = CONNECTED \<or> t = FAULT"
  "isAllowed FAULT t \<longleftrightarrow> t = FAULT \<or> t = DISCONNECTED"
  by (cases t; simp add: isAllowed_def)+

lemma getState_new [simp, machine_simps]: "getState new_machine = DISCONNECTED"
  by (simp add: getState_def new_machine_def)

lemma transition_fst [machine_simps]: "fst (transition m s) \<longleftrightarrow> isAllowed (getState m) s"
  by (simp add: transition_def getState_def)

lemma getState_transition [machine_simps]:
  "getState (snd (transition m s)) = (if isAllowed (getState m) s then s else getState m)"
  by (simp add: transition_def getState_def)

lemma stateToString_inject [simp]: "stateToString a = stateToString b \<longleftrightarrow> a = b"
  by (cases a; cases b) simp_all

subsection \<open>The contract of a guarded machine\<close>

text \<open>
  \<open>attempt\<close> moves to the requested state where the table allows it and otherwise leaves the
  machine as it is, and says which it did.
\<close>

locale guarded_machine =
  fixes get :: "'m \<Rightarrow> 's"
    and attempt :: "'m \<Rightarrow> 's \<Rightarrow> bool \<times> 'm"
    and allowed :: "'s \<Rightarrow> 's \<Rightarrow> bool"
  assumes attempt_ok: "fst (attempt m s) \<longleftrightarrow> allowed (get m) s"
    and attempt_moves: "allowed (get m) s \<Longrightarrow> get (snd (attempt m s)) = s"
    and attempt_refused: "\<not> allowed (get m) s \<Longrightarrow> snd (attempt m s) = m"
begin

lemma attempt_path: "allowed\<^sup>*\<^sup>* (get m) (get (snd (attempt m s)))"
  by (cases "allowed (get m) s") (auto simp: attempt_moves attempt_refused)

lemma attempts_path: "allowed\<^sup>*\<^sup>* (get m) (get (foldl (\<lambda>m s. snd (attempt m s)) m ss))"
proof (induction ss arbitrary: m)
  case (Cons s ss)
  from attempt_path [of m s] Cons [of "snd (attempt m s)"] show ?case by simp
qed simp

text \<open>
  Whatever is attempted, a state that a guard keeps out of reach is not entered without passing
  through the guard: if every legal entry into \<open>B\<close> from outside comes from \<open>G\<close>, and the machine
  starts outside both, then a run that ends in \<open>B\<close> has visited \<open>G\<close>.
\<close>

lemma attempts_through_gate:
  assumes gate: "\<And>a b. allowed a b \<Longrightarrow> b \<in> B \<Longrightarrow> a \<in> B \<or> a \<in> G"
    and start: "get m \<notin> B"
    and final: "get (foldl (\<lambda>m s. snd (attempt m s)) m ss) \<in> B"
  shows "\<exists>k \<le> length ss. get (foldl (\<lambda>m s. snd (attempt m s)) m (take k ss)) \<in> G"
  using start final
proof (induction ss arbitrary: m)
  case (Cons s ss)
  show ?case
  proof (cases "get (snd (attempt m s)) \<in> B")
    case True
    then have "allowed (get m) s"
      using Cons.prems(1) attempt_refused by metis
    with True gate Cons.prems(1) have "get m \<in> G"
      using attempt_moves by metis
    then show ?thesis by (intro exI [of _ 0]) simp
  next
    case False
    with Cons.IH [of "snd (attempt m s)"] Cons.prems obtain k where
      "k \<le> length ss"
      "get (foldl (\<lambda>m s. snd (attempt m s)) (snd (attempt m s)) (take k ss)) \<in> G"
      by auto
    then show ?thesis by (intro exI [of _ "Suc k"]) simp
  qed
qed simp

end

interpretation session_machine: guarded_machine getState transition isAllowed
  by unfold_locales (simp_all add: transition_def getState_def)

definition attempts :: "State list \<Rightarrow> StateMachine" where
  "attempts ss = foldl (\<lambda>m s. snd (transition m s)) new_machine ss"

text \<open>The states a session is in when the peer has completed the handshake.\<close>

definition active_states :: "State set" where
  "active_states = {CONNECTED, TELEMETRY, LARGE_FILE_TRANSFER}"

lemma active_entry: "isAllowed a b \<Longrightarrow> b \<in> active_states \<Longrightarrow> a \<in> active_states \<or> a \<in> {HANDSHAKE_PENDING}"
  by (cases a) (auto simp: active_states_def machine_simps)

text \<open>
  C32. No session reaches an active state (connected, streaming telemetry, transferring a file)
  without having been in the handshake state: whatever sequence of transitions is attempted on
  a fresh state machine, a run that ends active has a prefix that ends in HANDSHAKE_PENDING.
\<close>

theorem active_only_after_handshake:
  assumes "getState (attempts ss) \<in> active_states"
  shows "\<exists>k \<le> length ss. getState (attempts (take k ss)) = HANDSHAKE_PENDING"
  using session_machine.attempts_through_gate
    [where B = active_states and G = "{HANDSHAKE_PENDING}" and m = new_machine and ss = ss,
      OF active_entry] assms
  by (auto simp: attempts_def active_states_def)

theorem active_only_after_handshake_witness:
  "\<exists>k \<le> length [CONNECTED, HANDSHAKE_PENDING, CONNECTED]. getState (attempts (take k [CONNECTED, HANDSHAKE_PENDING, CONNECTED])) = HANDSHAKE_PENDING"
proof -
  have "getState (attempts [CONNECTED, HANDSHAKE_PENDING, CONNECTED]) \<in> active_states"
    by code_simp
  then show ?thesis by (rule active_only_after_handshake)
qed

end
