(* ===== verification/Std_Float.thy ===== *)
theory Std_Float
  imports Std_Text Complex_Main
begin

text \<open>
  The floating-point arithmetic the sources use, as IEEE 754 defines it: values are rationals,
  an operation computes exactly and rounds to the nearest representable value, ties to even.
  \<open>f32\<close> is C++ \<open>float\<close> up to the sign of zero, which no computation of the program observes;
  \<open>round_to 53 (-1022)\<close> is \<open>double\<close> on the range the program uses.
\<close>

subsection \<open>Rounding\<close>

definition pow2 :: "int \<Rightarrow> rat" where
  "pow2 e = (if 0 \<le> e then 2 ^ nat e else 1 / 2 ^ nat (- e))"

fun ilog2 :: "nat \<Rightarrow> nat" where
  "ilog2 n = (if n < 2 then 0 else Suc (ilog2 (n div 2)))"

declare ilog2.simps [simp del]

definition exponent_of :: "rat \<Rightarrow> int" where
  "exponent_of r =
     (let (a, b) = quotient_of r; e = int (ilog2 (nat a)) - int (ilog2 (nat b))
      in if pow2 e \<le> r then e else e - 1)"

definition round_even :: "rat \<Rightarrow> int" where
  "round_even r =
     (let f = \<lfloor>r\<rfloor>; d = r - of_int f
      in if d < 1 / 2 then f else if 1 / 2 < d then f + 1 else if even f then f else f + 1)"

definition round_to :: "nat \<Rightarrow> int \<Rightarrow> rat \<Rightarrow> rat" where
  "round_to p emin r =
     (if r = 0 then 0
      else let u = pow2 (max emin (exponent_of \<bar>r\<bar>) - int p + 1)
           in of_int (round_even (r / u)) * u)"

lemma round_even_of_int [simp]: "round_even (of_int i) = i"
  by (simp add: round_even_def)

lemma round_even_mono_int: "of_int i \<le> r \<Longrightarrow> i \<le> round_even r"
proof -
  assume "of_int i \<le> r"
  then have "i \<le> \<lfloor>r\<rfloor>" by (simp add: le_floor_iff)
  then show ?thesis by (simp add: round_even_def Let_def)
qed

lemma pow2_pos [simp]: "0 < pow2 e"
  by (simp add: pow2_def)

lemma round_to_nonneg: "0 \<le> r \<Longrightarrow> 0 \<le> round_to p emin r"
proof -
  assume r: "0 \<le> r"
  let ?u = "pow2 (max emin (exponent_of \<bar>r\<bar>) - int p + 1)"
  have "0 \<le> round_even (r / ?u)"
    using r by (intro round_even_mono_int) (simp add: less_imp_le)
  then show ?thesis by (simp add: round_to_def Let_def less_imp_le)
qed

subsection \<open>Printing a double with one decimal\<close>

text \<open>\<open>std::fixed << std::setprecision(1)\<close> of a non-negative value.\<close>

definition fmt_fixed1 :: "rat \<Rightarrow> string" where
  "fmt_fixed1 r = (let t = nat (round_even (10 * r)) in dec (t div 10) @ ''.'' @ dec (t mod 10))"

definition double_div :: "rat \<Rightarrow> rat \<Rightarrow> rat" where
  "double_div a b = round_to 53 (- 1022) (a / b)"

subsection \<open>Single precision\<close>

datatype f32 = Fin rat | Inf bool | NaN

definition f32_of_bits :: "u32 \<Rightarrow> f32" where
  "f32_of_bits w =
     (let n = uint w; m = n mod 8388608; e = n div 8388608 mod 256; s = n div 2147483648 = 1;
          v = (if e = 0 then of_int m * pow2 (- 149) else of_int (8388608 + m) * pow2 (e - 150))
      in if e = 255 then (if m = 0 then Inf s else NaN)
         else Fin (if s then - v else v))"

definition f32_round :: "rat \<Rightarrow> f32" where
  "f32_round r =
     (let v = round_to 24 (- 126) r
      in if 2 ^ 128 \<le> \<bar>v\<bar> then Inf (v < 0) else Fin v)"

fun f32_add :: "f32 \<Rightarrow> f32 \<Rightarrow> f32" where
  "f32_add (Fin a) (Fin b) = f32_round (a + b)"
| "f32_add (Inf s) (Inf t) = (if s = t then Inf s else NaN)"
| "f32_add (Inf s) (Fin _) = Inf s"
| "f32_add (Fin _) (Inf t) = Inf t"
| "f32_add NaN _ = NaN"
| "f32_add _ NaN = NaN"

fun f32_mul :: "f32 \<Rightarrow> f32 \<Rightarrow> f32" where
  "f32_mul (Fin a) (Fin b) = f32_round (a * b)"
| "f32_mul (Inf s) (Inf t) = Inf (s \<noteq> t)"
| "f32_mul (Inf s) (Fin b) = (if b = 0 then NaN else Inf (s \<noteq> (b < 0)))"
| "f32_mul (Fin a) (Inf t) = (if a = 0 then NaN else Inf (t \<noteq> (a < 0)))"
| "f32_mul NaN _ = NaN"
| "f32_mul _ NaN = NaN"

text \<open>Multiplication and division by a positive finite constant.\<close>

fun f32_mul_pos :: "f32 \<Rightarrow> rat \<Rightarrow> f32" where
  "f32_mul_pos (Fin a) c = f32_round (a * c)"
| "f32_mul_pos (Inf s) c = Inf s"
| "f32_mul_pos NaN c = NaN"

fun f32_div_pos :: "f32 \<Rightarrow> rat \<Rightarrow> f32" where
  "f32_div_pos (Fin a) c = f32_round (a / c)"
| "f32_div_pos (Inf s) c = Inf s"
| "f32_div_pos NaN c = NaN"

text \<open>
  \<open>static_cast<int>\<close> truncates; outside the range of \<open>int\<close>, and on infinities and NaN, C++
  leaves the conversion undefined, which is \<open>None\<close> here.
\<close>

definition rat_trunc :: "rat \<Rightarrow> int" where
  "rat_trunc r = (if r < 0 then - \<lfloor>- r\<rfloor> else \<lfloor>r\<rfloor>)"

fun f32_to_int :: "f32 \<Rightarrow> int option" where
  "f32_to_int (Fin r) =
     (if INT_MIN \<le> rat_trunc r \<and> rat_trunc r \<le> INT_MAX then Some (rat_trunc r) else None)"
| "f32_to_int _ = None"

lemma f32_to_int_range: "f32_to_int x = Some i \<Longrightarrow> INT_MIN \<le> i \<and> i \<le> INT_MAX"
  by (cases x) (auto split: if_splits)


subsection \<open>Powers of two and exponents\<close>

lemma pow2_powi: "pow2 x = 2 powi x"
  by (cases "0 \<le> x") (simp_all add: pow2_def power_int_def inverse_eq_divide power_one_over)

lemma pow2_add: "pow2 (a + b) = pow2 a * pow2 b"
  by (simp add: pow2_powi power_int_add)

lemma pow2_nonzero [simp]: "pow2 e \<noteq> 0"
  using pow2_pos [of e] by linarith

lemma abs_pow2 [simp]: "\<bar>pow2 e\<bar> = pow2 e"
  by (simp add: less_imp_le)

lemma pow2_of_nat: "pow2 (int n) = 2 ^ n"
  by (simp add: pow2_def)

lemma pow2_0 [simp]: "pow2 0 = 1"
  by (simp add: pow2_def)

lemma pow2_minus: "pow2 (- e) = 1 / pow2 e"
  by (simp add: pow2_powi power_int_minus inverse_eq_divide)

lemma pow2_diff: "pow2 (a - b) = pow2 a / pow2 b"
  using pow2_add [of a "- b"] by (simp add: pow2_minus)

lemma pow2_mono: "a \<le> b \<Longrightarrow> pow2 a \<le> pow2 b"
proof -
  assume "a \<le> b"
  then have "pow2 b = pow2 a * 2 ^ nat (b - a)"
    using pow2_add [of a "b - a"] pow2_of_nat [of "nat (b - a)"] by simp
  moreover have "(1::rat) \<le> 2 ^ nat (b - a)" by simp
  ultimately show ?thesis by (metis mult_left_mono mult.right_neutral less_imp_le pow2_pos)
qed

lemma pow2_less_iff: "pow2 a < pow2 b \<longleftrightarrow> a < b"
proof
  show "pow2 a < pow2 b \<Longrightarrow> a < b" using pow2_mono [of b a] by linarith
  assume "a < b"
  then have "pow2 (a + 1) \<le> pow2 b" by (intro pow2_mono) simp
  moreover have "pow2 a < pow2 (a + 1)" by (simp add: pow2_add pow2_def [of 1])
  ultimately show "pow2 a < pow2 b" by simp
qed

lemma ilog2_bounds: "0 < n \<Longrightarrow> 2 ^ ilog2 n \<le> n \<and> n < 2 ^ Suc (ilog2 n)"
proof (induction n rule: ilog2.induct)
  case (1 n)
  show ?case
  proof (cases "n < 2")
    case True
    with 1 show ?thesis by (simp add: ilog2.simps)
  next
    case False
    with 1 have "2 ^ ilog2 (n div 2) \<le> n div 2" "n div 2 < 2 ^ Suc (ilog2 (n div 2))" by auto
    with False show ?thesis by (auto simp: ilog2.simps [of n])
  qed
qed

text \<open>\<open>exponent_of r\<close> is the position of the leading binary digit of \<open>r\<close>.\<close>

lemma exponent_of_bounds:
  assumes "0 < r"
  shows "pow2 (exponent_of r) \<le> r" "r < pow2 (exponent_of r + 1)"
proof -
  obtain a b where q: "quotient_of r = (a, b)" by (cases "quotient_of r")
  have b: "0 < b" using quotient_of_denom_pos [OF q] .
  have r: "r = of_int a / of_int b" using quotient_of_div [OF q] .
  with assms b have a: "0 < a" by (simp add: zero_less_divide_iff)
  let ?la = "ilog2 (nat a)" and ?lb = "ilog2 (nat b)"
  have bnd: "2 ^ ilog2 (nat x) \<le> (of_int x :: rat) \<and> of_int x < (2 * 2 ^ ilog2 (nat x) :: rat)" if "0 < x" for x :: int
  proof -
    have l: "2 ^ ilog2 (nat x) \<le> nat x" and u: "nat x < 2 * 2 ^ ilog2 (nat x)"
      using ilog2_bounds [of "nat x"] that by auto
    have "int (2 ^ ilog2 (nat x)) \<le> x" "x < int (2 * 2 ^ ilog2 (nat x))"
      using l u that by linarith+
    then have "of_int (int (2 ^ ilog2 (nat x))) \<le> (of_int x :: rat)"
      "(of_int x :: rat) < of_int (int (2 * 2 ^ ilog2 (nat x)))" by (simp_all only: of_int_le_iff of_int_less_iff)
    then show ?thesis by simp
  qed
  let ?e = "int ?la - int ?lb"
  have up: "r < pow2 (?e + 1)"
  proof -
    have "r * 2 ^ ?lb \<le> r * of_int b" using bnd [OF b] assms by (intro mult_left_mono) auto
    also have "\<dots> = of_int a" using b by (simp add: r)
    also have "\<dots> < 2 * 2 ^ ?la" using bnd [OF a] by simp
    finally have "r < 2 * 2 ^ ?la / 2 ^ ?lb" by (simp add: field_simps)
    then show ?thesis by (simp add: pow2_add pow2_diff pow2_of_nat pow2_def [of 1] mult.commute)
  qed
  have low: "pow2 (?e - 1) \<le> r"
  proof -
    have "of_int b \<le> (2 * 2 ^ ?lb :: rat)" using bnd [OF b] by simp
    then have "r * (2 * 2 ^ ?lb) \<ge> r * of_int b" using assms by (intro mult_left_mono) auto
    moreover have "r * of_int b = of_int a" using b by (simp add: r)
    ultimately have "2 ^ ?la \<le> r * (2 * 2 ^ ?lb)" using bnd [OF a] by linarith
    then have "2 ^ ?la / (2 * 2 ^ ?lb) \<le> r" by (simp add: pos_divide_le_eq)
    then show ?thesis by (simp add: pow2_diff pow2_add pow2_of_nat pow2_def [of 1])
  qed
  have e: "exponent_of r = (if pow2 ?e \<le> r then ?e else ?e - 1)"
    by (simp add: exponent_of_def q Let_def)
  show "pow2 (exponent_of r) \<le> r" using low by (simp add: e)
  show "r < pow2 (exponent_of r + 1)" using up by (simp add: e)
qed

lemma exponent_of_less: "0 < r \<Longrightarrow> r < pow2 k \<Longrightarrow> exponent_of r < k"
  using exponent_of_bounds(1) [of r] by (metis order_le_less_trans pow2_less_iff)

lemma pow2_quotient: "x \<le> k \<Longrightarrow> of_int i * pow2 k / pow2 x = of_int (i * 2 ^ nat (k - x))"
proof -
  assume "x \<le> k"
  then have "pow2 k / pow2 x = 2 ^ nat (k - x)"
    using pow2_of_nat [of "nat (k - x)"] by (simp add: pow2_diff [symmetric])
  then show ?thesis by (metis times_divide_eq_right of_int_mult of_int_power of_int_numeral)
qed

text \<open>A multiple of a power of two with at most 24 digits is not rounded.\<close>

lemma round_to_exact:
  assumes "\<bar>i\<bar> < 2 ^ 24" "- 149 \<le> k"
  shows "round_to 24 (- 126) (of_int i * pow2 k) = of_int i * pow2 k"
proof (cases "i = 0")
  case False
  let ?r = "of_int i * pow2 k"
  let ?x = "max (- 126) (exponent_of \<bar>?r\<bar>) - int 24 + 1"
  have "\<bar>of_int i :: rat\<bar> < 2 ^ 24" using assms(1) by (metis of_int_abs of_int_less_iff of_int_numeral of_int_power)
  then have "\<bar>?r\<bar> < pow2 (24 + k)" by (simp add: abs_mult pow2_add pow2_def [of 24])
  then have "exponent_of \<bar>?r\<bar> < 24 + k" using False by (intro exponent_of_less) (simp_all add: abs_mult)
  then have x: "?x \<le> k" using assms(2) by simp
  have "?r / pow2 ?x = of_int (i * 2 ^ nat (k - ?x))" by (rule pow2_quotient [OF x])
  then have "of_int (round_even (?r / pow2 ?x)) * pow2 ?x = ?r / pow2 ?x * pow2 ?x"
    by (simp only: round_even_of_int)
  then show ?thesis using False by (simp add: round_to_def Let_def)
qed (simp add: round_to_def)

lemma f32_round_exact:
  assumes "\<bar>i\<bar> < 2 ^ 24" "- 149 \<le> k" "k \<le> 104"
  shows "f32_round (of_int i * pow2 k) = Fin (of_int i * pow2 k)"
proof -
  have "\<bar>of_int i :: rat\<bar> < 2 ^ 24" using assms(1) by (metis of_int_abs of_int_less_iff of_int_numeral of_int_power)
  then have "\<bar>of_int i * pow2 k\<bar> < 2 ^ 24 * pow2 104"
    using pow2_mono [OF assms(3)] mult_less_le_imp_less [of "\<bar>of_int i :: rat\<bar>" "2 ^ 24" "pow2 k" "pow2 104"]
    by (simp add: abs_mult)
  also have "(2::rat) ^ 24 * pow2 104 = 2 ^ 128" by (simp add: pow2_def)
  finally show ?thesis by (simp add: f32_round_def round_to_exact [OF assms(1,2)] Let_def)
qed


subsection \<open>A float in memory\<close>

definition f32_bits :: "f32 \<Rightarrow> u32" where
  "f32_bits x =
     (case x of
        NaN \<Rightarrow> 0x7FC00000
      | Inf s \<Rightarrow> if s then 0xFF800000 else 0x7F800000
      | Fin v \<Rightarrow>
          (let e = max (- 126) (exponent_of \<bar>v\<bar>);
               m = \<lfloor>\<bar>v\<bar> / pow2 (e - 23)\<rfloor>;
               n = (if v = 0 then 0 else if m < 8388608 then m else (e + 127) * 8388608 + (m - 8388608))
           in word_of_int ((if v < 0 then 2147483648 else 0) + n)))"

lemma f32_of_bits_fields:
  assumes "0 \<le> e" "e < 255" "0 \<le> m" "m < 8388608"
  shows "f32_of_bits (word_of_int ((if neg then 2147483648 else 0) + (e * 8388608 + m))) =
    Fin (let v = (if e = 0 then of_int m * pow2 (- 149) else of_int (8388608 + m) * pow2 (e - 150))
         in if neg then - v else v)"
proof -
  let ?n = "(if neg then 2147483648 else 0) + (e * 8388608 + m)"
  have u: "uint (word_of_int n :: u32) = n" if "0 \<le> n" "n < 2 ^ 32" for n
    using that by (simp add: unsigned_of_int take_bit_int_eq_self)
  have r: "0 \<le> ?n" "?n < 2 ^ 32" using assms by auto
  have n: "?n = ((if neg then 256 else 0) + e) * 8388608 + m" by simp
  have f: "?n mod 8388608 = m" "?n div 8388608 = (if neg then 256 else 0) + e"
    using assms by (simp_all only: n mod_mult_self3 div_mult_self3) simp_all
  have "?n div 2147483648 = (if neg then 1 else 0)"
    by (rule int_div_pos_eq [of _ _ _ "e * 8388608 + m"]) (use assms in auto)
  then have s: "(?n div 2147483648 = 1) = neg" by simp
  have "((if neg then 256 else 0) + e) mod 256 = e" using assms by auto
  then show ?thesis using assms(2) by (simp only: f32_of_bits_def u [OF r] f s Let_def) simp
qed

lemma f32_bits_roundtrip:
  assumes "\<bar>i\<bar> < 2 ^ 24" "- 149 \<le> k" "k \<le> 104"
  shows "f32_of_bits (f32_bits (Fin (of_int i * pow2 k))) = Fin (of_int i * pow2 k)"
proof (cases "i = 0")
  case True
  then show ?thesis using f32_of_bits_fields [of 0 0 False] by (simp add: f32_bits_def Let_def)
next
  case False
  define v where "v = (of_int i * pow2 k :: rat)"
  define x where "x = exponent_of \<bar>v\<bar>"
  define e where "e = max (- 126) x"
  define M where "M = \<bar>i\<bar> * 2 ^ nat (k - (e - 23))"
  have av: "\<bar>v\<bar> = of_int \<bar>i\<bar> * pow2 k" by (simp add: v_def abs_mult)
  have pos: "0 < \<bar>v\<bar>" using False by (simp add: v_def)
  have i: "\<bar>of_int i :: rat\<bar> < 2 ^ 24"
    using assms(1) by (metis of_int_abs of_int_less_iff of_int_numeral of_int_power)
  then have "\<bar>v\<bar> < pow2 (24 + k)" by (simp add: av pow2_add pow2_def [of 24])
  then have xk: "x < 24 + k" unfolding x_def using pos by (intro exponent_of_less)
  have q: "\<bar>v\<bar> / pow2 (e - 23) = of_int M"
    using pow2_quotient [of "e - 23" k "\<bar>i\<bar>"] xk assms(2) by (simp add: M_def av e_def)
  then have vM: "\<bar>v\<bar> = of_int M * pow2 (e - 23)" by (simp add: field_simps)
  have "\<bar>v\<bar> < pow2 (24 + (e - 23))"
    using exponent_of_bounds(2) [OF pos] pow2_mono [of "x + 1" "24 + (e - 23)"] by (simp add: x_def [symmetric] e_def)
  then have "of_int M * pow2 (e - 23) < pow2 24 * pow2 (e - 23)" by (simp only: vM pow2_add)
  then have "(of_int M :: rat) < 2 ^ 24" by (simp add: pow2_def [of 24])
  then have M: "M < 16777216" by simp
  have M0: "0 < M" using False by (simp add: M_def)
  have norm: "x = e \<Longrightarrow> 8388608 \<le> M"
  proof -
    assume "x = e"
    then have "pow2 (23 + (e - 23)) \<le> \<bar>v\<bar>" using exponent_of_bounds(1) [OF pos] by (simp add: x_def)
    then have "pow2 23 * pow2 (e - 23) \<le> of_int M * pow2 (e - 23)" by (simp only: vM pow2_add)
    then have "(8388608::rat) \<le> of_int M" by (simp add: pow2_def [of 23])
    then show "8388608 \<le> M" by simp
  qed
  have neg: "v < 0 \<longleftrightarrow> i < 0" "v \<noteq> 0" using False by (simp_all add: v_def mult_less_0_iff less_le_not_le [of "pow2 k"] less_imp_le)
  have sgn: "v = (if i < 0 then - \<bar>v\<bar> else \<bar>v\<bar>)" using neg by auto
  have bits: "f32_bits (Fin v) = word_of_int ((if i < 0 then 2147483648 else 0) +
      (if M < 8388608 then M else (e + 127) * 8388608 + (M - 8388608)))"
    by (simp add: f32_bits_def Let_def neg q x_def [symmetric] e_def [symmetric])
  have "f32_of_bits (f32_bits (Fin v)) = Fin v"
  proof (cases "M < 8388608")
    case True
    with norm have e: "e = - 126" by (auto simp: e_def max_def split: if_splits)
    have "f32_bits (Fin v) = word_of_int ((if i < 0 then 2147483648 else 0) + (0 * 8388608 + M))"
      using True by (simp only: bits if_True) simp
    with f32_of_bits_fields [of 0 M "i < 0"] True M0 have
      "f32_of_bits (f32_bits (Fin v)) = Fin (if i < 0 then - (of_int M * pow2 (- 149)) else of_int M * pow2 (- 149))"
      by simp
    moreover have "of_int M * pow2 (- 149) = \<bar>v\<bar>" by (simp add: vM e)
    ultimately show ?thesis by (simp only: sgn [symmetric])
  next
    case big: False
    have hi: "e \<le> 127" "- 126 \<le> e" using xk assms(3) by (simp_all add: e_def)
    have "f32_bits (Fin v) = word_of_int ((if i < 0 then 2147483648 else 0) + ((e + 127) * 8388608 + (M - 8388608)))"
      using big by (simp only: bits if_False)
    with f32_of_bits_fields [of "e + 127" "M - 8388608" "i < 0"] big M hi have
      "f32_of_bits (f32_bits (Fin v)) = Fin (if i < 0 then - (of_int M * pow2 (e - 23)) else of_int M * pow2 (e - 23))"
      by simp
    moreover have "of_int M * pow2 (e - 23) = \<bar>v\<bar>" by (simp only: vM)
    ultimately show ?thesis by (simp only: sgn [symmetric])
  qed
  then show ?thesis by (simp only: v_def)
qed

subsection \<open>Printing floats\<close>

text \<open>
  \<open>%.<p>f\<close> (and \<open>std::fixed\<close> with precision \<open>p\<close>) of a \<open>float\<close>, which is promoted to \<open>double\<close>
  exactly: the exact value rounded to \<open>p\<close> decimals, ties to even; the sign bit prints also for
  zeros and NaNs.
\<close>

definition fmt_fixed :: "nat \<Rightarrow> u32 \<Rightarrow> string" where
  "fmt_fixed p w =
     (if 2147483648 \<le> uint w then ''-'' else []) @
     (case f32_of_bits w of
        NaN \<Rightarrow> ''nan''
      | Inf _ \<Rightarrow> ''inf''
      | Fin r \<Rightarrow>
          (let t = nat (round_even (\<bar>r\<bar> * 10 ^ p))
           in if p = 0 then dec t else dec (t div 10 ^ p) @ ''.'' @ pad0 p (dec (t mod 10 ^ p))))"

end
