(* ===== verification/Client_Session.thy ===== *)
theory Client_Session
  imports Socket_Utils State_Machine Std_Float
begin

text \<open>
  \<open>server/client_session.{h,cpp}\<close>: the server's record of one connected aircraft. A
  \<open>steady_clock::time_point\<close> is its count of nanoseconds, and \<open>duration_cast\<close> truncates
  towards zero. A C++ default argument \<open>steady_clock::now()\<close> is an explicit argument here.
\<close>

type_synonym time = int

definition to_ms :: "int \<Rightarrow> int" where "to_ms ns = ns sdiv 1000000"
definition to_seconds :: "int \<Rightarrow> int" where "to_seconds ns = ns sdiv 1000000000"

record ClientSession =
  socketHandle :: handle
  session_id :: string
  machine :: StateMachine
  latestTelemetry :: TelemetryPayload
  telemetryValid :: bool
  nextServerSequence :: u32
  lastClientSequenceNumber :: u32
  lastPacketTime :: time
  lastTelemetryPacketTime :: time
  lastTelemetryInterval :: int

abbreviation session_state :: "ClientSession \<Rightarrow> State" where
  "session_state session \<equiv> getState (machine session)"

definition new_session :: "handle \<Rightarrow> time \<Rightarrow> ClientSession" where
  "new_session h now =
     \<lparr> socketHandle = h, session_id = [], machine = new_machine, latestTelemetry = zero_telemetry,
       telemetryValid = False, nextServerSequence = 1, lastClientSequenceNumber = 0,
       lastPacketTime = now, lastTelemetryPacketTime = 0, lastTelemetryInterval = 0 \<rparr>"

subsection \<open>Operations\<close>

definition setSocket :: "ClientSession \<Rightarrow> handle \<Rightarrow> ClientSession" where
  "setSocket session h = session\<lparr>socketHandle := h\<rparr>"

definition session_close :: "net \<Rightarrow> ClientSession \<Rightarrow> ClientSession \<times> net" where
  "session_close n session =
     (let n1 = shutdownSocket n (socketHandle session);
          n2 = closeSocket n1 (socketHandle session)
      in (session\<lparr>socketHandle := INVALID_SOCK\<rparr>, n2))"

definition setAircraftId :: "ClientSession \<Rightarrow> string \<Rightarrow> ClientSession" where
  "setAircraftId session new_id = session\<lparr>session_id := new_id\<rparr>"

definition session_transition :: "ClientSession \<Rightarrow> State \<Rightarrow> bool \<times> ClientSession" where
  "session_transition session s =
     (let (ok, m) = transition (machine session) s in (ok, session\<lparr>machine := m\<rparr>))"

definition touch :: "ClientSession \<Rightarrow> time \<Rightarrow> ClientSession" where
  "touch session now = session\<lparr>lastPacketTime := now\<rparr>"

definition updateTelemetry :: "ClientSession \<Rightarrow> TelemetryPayload \<Rightarrow> time \<Rightarrow> ClientSession" where
  "updateTelemetry session payload now =
     (let session1 =
            (if lastTelemetryPacketTime session \<noteq> 0
             then session\<lparr>lastTelemetryInterval := to_ms (now - lastTelemetryPacketTime session)\<rparr>
             else session)
      in touch (session1\<lparr>lastTelemetryPacketTime := now, latestTelemetry := payload,
                         telemetryValid := True\<rparr>) now)"

definition telemetryRateDegraded :: "ClientSession \<Rightarrow> time \<Rightarrow> bool" where
  "telemetryRateDegraded session now =
     (if session_state session \<noteq> TELEMETRY \<or> \<not> telemetryValid session
         \<or> lastTelemetryPacketTime session = 0 \<or> now \<le> lastTelemetryPacketTime session
      then False
      else (let age = to_ms (now - lastTelemetryPacketTime session);
                threshold = max 1500 (if 0 < lastTelemetryInterval session
                                      then lastTelemetryInterval session * 2 else 0)
            in threshold \<le> age \<and> age < 3000))"

definition telemetryAlertMessage :: "ClientSession \<Rightarrow> time \<Rightarrow> string" where
  "telemetryAlertMessage session now =
     (if \<not> telemetryRateDegraded session now then []
      else (let ageMilliseconds = to_ms (now - lastTelemetryPacketTime session)
            in ''Telemetry rate degraded: '' @ fmt_fixed1 (double_div (of_int ageMilliseconds) 1000)
                 @ ''s since last packet.''))"

definition serverSequence :: "ClientSession \<Rightarrow> u32" where
  "serverSequence session = nextServerSequence session"

definition consumeServerSequence :: "ClientSession \<Rightarrow> u32 \<times> ClientSession" where
  "consumeServerSequence session =
     (nextServerSequence session, session\<lparr>nextServerSequence := nextServerSequence session + 1\<rparr>)"

definition markPacketReceived :: "ClientSession \<Rightarrow> u32 \<Rightarrow> time \<Rightarrow> ClientSession" where
  "markPacketReceived session n now = touch (session\<lparr>lastClientSequenceNumber := n\<rparr>) now"

definition timedOut :: "ClientSession \<Rightarrow> time \<Rightarrow> bool" where
  "timedOut session now =
     (if session_state session = DISCONNECTED \<or> session_state session = FAULT then False
      else (let timeoutSeconds = (if session_state session = TELEMETRY then 3 else 5)
            in timeoutSeconds \<le> to_seconds (now - lastPacketTime session)))"

subsection \<open>Frame equations\<close>

lemma session_transition_frame [frame, simp]:
  "socketHandle (snd (session_transition session s)) = socketHandle session"
  "session_id (snd (session_transition session s)) = session_id session"
  "nextServerSequence (snd (session_transition session s)) = nextServerSequence session"
  "lastClientSequenceNumber (snd (session_transition session s)) = lastClientSequenceNumber session"
  "latestTelemetry (snd (session_transition session s)) = latestTelemetry session"
  "telemetryValid (snd (session_transition session s)) = telemetryValid session"
  "lastPacketTime (snd (session_transition session s)) = lastPacketTime session"
  "lastTelemetryPacketTime (snd (session_transition session s)) = lastTelemetryPacketTime session"
  by (simp_all add: session_transition_def split: prod.splits)

lemma session_transition_state [machine_simps, simp]:
  "session_state (snd (session_transition session s)) =
     (if isAllowed (session_state session) s then s else session_state session)"
  "fst (session_transition session s) \<longleftrightarrow> isAllowed (session_state session) s"
  by (simp_all add: session_transition_def case_prod_beta Let_def machine_simps)

lemma touch_frame [frame, simp]:
  "socketHandle (touch session now) = socketHandle session"
  "session_id (touch session now) = session_id session"
  "machine (touch session now) = machine session"
  "nextServerSequence (touch session now) = nextServerSequence session"
  "lastClientSequenceNumber (touch session now) = lastClientSequenceNumber session"
  "telemetryValid (touch session now) = telemetryValid session"
  "latestTelemetry (touch session now) = latestTelemetry session"
  "lastTelemetryPacketTime (touch session now) = lastTelemetryPacketTime session"
  "lastPacketTime (touch session now) = now"
  by (simp_all add: touch_def)

lemma updateTelemetry_frame [frame, simp]:
  "socketHandle (updateTelemetry session p now) = socketHandle session"
  "session_id (updateTelemetry session p now) = session_id session"
  "machine (updateTelemetry session p now) = machine session"
  "nextServerSequence (updateTelemetry session p now) = nextServerSequence session"
  "lastClientSequenceNumber (updateTelemetry session p now) = lastClientSequenceNumber session"
  "latestTelemetry (updateTelemetry session p now) = p"
  "telemetryValid (updateTelemetry session p now)"
  "lastPacketTime (updateTelemetry session p now) = now"
  "lastTelemetryPacketTime (updateTelemetry session p now) = now"
  by (simp_all add: updateTelemetry_def Let_def)

lemma markPacketReceived_frame [frame, simp]:
  "socketHandle (markPacketReceived session n now) = socketHandle session"
  "session_id (markPacketReceived session n now) = session_id session"
  "machine (markPacketReceived session n now) = machine session"
  "nextServerSequence (markPacketReceived session n now) = nextServerSequence session"
  "lastClientSequenceNumber (markPacketReceived session n now) = n"
  "telemetryValid (markPacketReceived session n now) = telemetryValid session"
  "latestTelemetry (markPacketReceived session n now) = latestTelemetry session"
  "lastTelemetryPacketTime (markPacketReceived session n now) = lastTelemetryPacketTime session"
  "lastPacketTime (markPacketReceived session n now) = now"
  by (simp_all add: markPacketReceived_def)

lemma setAircraftId_frame [frame, simp]:
  "socketHandle (setAircraftId session i) = socketHandle session"
  "session_id (setAircraftId session i) = i"
  "machine (setAircraftId session i) = machine session"
  "nextServerSequence (setAircraftId session i) = nextServerSequence session"
  by (simp_all add: setAircraftId_def)

lemma new_session_frame [frame, simp]:
  "socketHandle (new_session h now) = h" "session_id (new_session h now) = []"
  "machine (new_session h now) = new_machine"
  by (simp_all add: new_session_def)

subsection \<open>Timeouts and alerts\<close>

lemma to_ms_less: "0 \<le> ns \<Longrightarrow> to_ms ns < m \<longleftrightarrow> ns < m * 1000000"
  by (simp add: to_ms_def) linarith

lemma to_ms_ge: "0 \<le> ns \<Longrightarrow> m \<le> to_ms ns \<longleftrightarrow> m * 1000000 \<le> ns"
  using to_ms_less [of ns m] by linarith

lemma to_seconds_ge: "0 \<le> ns \<Longrightarrow> m \<le> to_seconds ns \<longleftrightarrow> m * 1000000000 \<le> ns"
  by (simp add: to_seconds_def) linarith

lemma to_seconds_neg: "ns < 0 \<Longrightarrow> to_seconds ns \<le> 0"
  by (simp add: to_seconds_def signed_divide_int_def sgn_if pos_imp_zdiv_nonneg_iff)

lemma timedOut_iff:
  "timedOut session now \<longleftrightarrow>
     session_state session \<noteq> DISCONNECTED \<and> session_state session \<noteq> FAULT \<and>
     (if session_state session = TELEMETRY then 3 else 5) * 1000000000 \<le> now - lastPacketTime session"
proof (cases "0 \<le> now - lastPacketTime session")
  case True
  then show ?thesis by (simp add: timedOut_def Let_def to_seconds_ge)
next
  case False
  with to_seconds_neg [of "now - lastPacketTime session"] show ?thesis
    by (simp add: timedOut_def Let_def)
qed

lemma telemetryRateDegraded_iff:
  "telemetryRateDegraded session now \<longleftrightarrow>
     session_state session = TELEMETRY \<and> telemetryValid session \<and>
     lastTelemetryPacketTime session \<noteq> 0 \<and>
     max 1500 (2 * lastTelemetryInterval session) * 1000000 \<le> now - lastTelemetryPacketTime session \<and>
     now - lastTelemetryPacketTime session < 3000000000"
proof (cases "lastTelemetryPacketTime session < now")
  case True
  then have "0 \<le> now - lastTelemetryPacketTime session" by simp
  note to_ms_ge [OF this] to_ms_less [OF this]
  then show ?thesis using True
    by (auto simp: telemetryRateDegraded_def Let_def max_def split: if_splits)
next
  case False
  then show ?thesis by (auto simp: telemetryRateDegraded_def max_def split: if_splits)
qed

lemma telemetryAlertMessage_Nil [simp]:
  "telemetryAlertMessage session now = [] \<longleftrightarrow> \<not> telemetryRateDegraded session now"
  by (simp add: telemetryAlertMessage_def Let_def)

text \<open>
  The telemetry packet is never later than the last packet, because every operation that records
  a telemetry time records it as the packet time too. The clock never runs backwards, so a
  later reading keeps it.
\<close>

definition session_times_ok :: "ClientSession \<Rightarrow> bool" where
  "session_times_ok session \<longleftrightarrow> lastTelemetryPacketTime session \<le> lastPacketTime session"

lemma times_ok_updateTelemetry: "session_times_ok (updateTelemetry session p now)"
  by (simp add: session_times_ok_def)

lemma times_ok_touch:
  "session_times_ok session \<Longrightarrow> lastPacketTime session \<le> now \<Longrightarrow> session_times_ok (touch session now)"
  by (simp add: session_times_ok_def)

text \<open>
  While a session streams telemetry, the degraded-rate alert and the timeout are disjoint: an
  alert is only raised inside the three-second window that the timeout closes, so an operator
  who sees it still has the session.
\<close>

lemma alert_before_timeout:
  assumes "session_times_ok session" "telemetryAlertMessage session now \<noteq> []"
  shows "\<not> timedOut session now"
  using assms by (auto simp: telemetryRateDegraded_iff timedOut_iff session_times_ok_def)

text \<open>
  An active session times out exactly when no packet came for its limit, three seconds while
  streaming telemetry and five otherwise; once timed out it stays so until a packet is recorded,
  and recording a packet resets it.
\<close>

lemma timeout_exact:
  assumes "session_state session \<noteq> DISCONNECTED" "session_state session \<noteq> FAULT"
  shows "(timedOut session now \<longleftrightarrow>
            lastPacketTime session + (if session_state session = TELEMETRY then 3 else 5) * 1000000000
              \<le> now) \<and>
         (timedOut session now \<longrightarrow> (\<forall>later\<ge>now. timedOut session later)) \<and>
         \<not> timedOut (markPacketReceived session n now) now"
  using assms by (auto simp: timedOut_iff)

end
