(* ===== verification/Session_Logic.thy ===== *)
theory Session_Logic
  imports Client_Session
begin

text \<open>
  \<open>server/server_utils.cpp\<close> and \<open>server/server_session_logic.cpp\<close>: the aircraft id format, the
  predicate that gates the operator's commands, the uniqueness test for ids, the handshake
  check, and the texts of log and dashboard entries.
\<close>

subsection \<open>Ids and states\<close>

text \<open>\<open>std::regex_match\<close> against \<open>^AC-[0-9]{3}$\<close>: the whole string has the shape.\<close>

definition validateAircraftId :: "string \<Rightarrow> bool" where
  "validateAircraftId s \<longleftrightarrow>
     (case s of
        [a, b, c, d, e, f] \<Rightarrow>
          a = CHR ''A'' \<and> b = CHR ''C'' \<and> c = CHR ''-'' \<and> is_digit d \<and> is_digit e \<and> is_digit f
      | _ \<Rightarrow> False)"

definition isVerifiedSessionState :: "State \<Rightarrow> bool" where
  "isVerifiedSessionState s \<longleftrightarrow> s = CONNECTED \<or> s = TELEMETRY"

lemma validateAircraftId_iff:
  "validateAircraftId s \<longleftrightarrow>
     (\<exists>d e f. s = ''AC-'' @ [d, e, f] \<and> is_digit d \<and> is_digit e \<and> is_digit f)"
  by (auto simp: validateAircraftId_def split: list.splits)

lemma valid_id_shape:
  assumes "validateAircraftId s"
  shows "length s = 6" "s \<noteq> []" "NUL \<notin> set s"
  using assms by (auto simp: validateAircraftId_iff NUL_def is_digit_iff)

text \<open>A valid id survives the fixed-width field of a header.\<close>

lemma valid_id_roundtrip:
  "validateAircraftId s \<Longrightarrow> extractAircraftId (aircraft_id (makeHeader t s n p c)) = s"
  using valid_id_shape [of s] by (simp add: extract_short_id)

subsection \<open>The handshake check\<close>

record ActiveSessionSummary =
  sum_socket :: handle
  sum_id :: string
  sum_state :: State

fun aircraftIdInUse :: "ActiveSessionSummary list \<Rightarrow> handle \<Rightarrow> string \<Rightarrow> bool" where
  "aircraftIdInUse [] currentSocket aircraftId = False"
| "aircraftIdInUse (s # ss) currentSocket aircraftId =
     (if sum_socket s = currentSocket then aircraftIdInUse ss currentSocket aircraftId
      else if sum_id s = aircraftId \<and> sum_state s \<noteq> DISCONNECTED then True
      else aircraftIdInUse ss currentSocket aircraftId)"

definition isValidHandshakeRequest :: "PacketHeader \<Rightarrow> string \<Rightarrow> bool \<Rightarrow> bool" where
  "isValidHandshakeRequest header aircraftId inUse \<longleftrightarrow>
     packet_type header = HANDSHAKE_REQUEST \<and> payload_size header = 0 \<and>
     validateAircraftId aircraftId \<and> \<not> inUse"

lemma aircraftIdInUse_iff:
  "aircraftIdInUse ss h i \<longleftrightarrow>
     (\<exists>s\<in>set ss. sum_socket s \<noteq> h \<and> sum_id s = i \<and> sum_state s \<noteq> DISCONNECTED)"
  by (induction ss h i rule: aircraftIdInUse.induct) auto

subsection \<open>Texts\<close>

definition compactPacketLog :: "string \<Rightarrow> string \<Rightarrow> PacketHeader \<Rightarrow> string" where
  "compactPacketLog timestamp direction header =
     ''['' @ timestamp @ ''] '' @ direction @ '' '' @ packetTypeToString (packet_type header)
       @ '' Seq='' @ dec (unat (sequence_number header)) @ '' ''
       @ extractAircraftId (aircraft_id header)"

definition serverStateLabel :: "State \<Rightarrow> string" where
  "serverStateLabel s = stateToString s"

definition ignoredOperatorRequestMessage :: "string \<Rightarrow> State \<Rightarrow> string \<Rightarrow> string" where
  "ignoredOperatorRequestMessage aircraftId s action =
     (let effective = (if aircraftId = [] then ''UNKNOWN'' else aircraftId)
      in ''Ignored operator '' @ action @ '' request for '' @ effective
           @ '' because the session is not verified ('' @ serverStateLabel s @ '').'')"

definition faultDashboardEntry :: "string \<Rightarrow> string \<Rightarrow> string \<Rightarrow> string" where
  "faultDashboardEntry timestamp aircraftId cause =
     (let effective = (if aircraftId = [] then ''UNKNOWN'' else aircraftId)
      in ''['' @ timestamp @ ''] FAULT '' @ effective @ '' '' @ cause)"

end
