(* ===== verification/Logger.thy ===== *)
theory Logger
  imports Session_Logic
begin

text \<open>
  \<open>common/logger.{h,cpp}\<close>: the communication log and the fault-only black box. A log is the list
  of the lines written to its file, oldest first; \<open>blackBoxLog\<close> is \<open>None\<close> where the stream was
  never opened. Opening the files cannot fail in the model, and the UTC clock reading that each
  line's timestamp makes is an argument (milliseconds since the epoch).
\<close>

record Logger =
  commsLog :: "string list"
  blackBoxLog :: "string list option"
  commsPath :: string
  blackBoxPath :: "string option"

definition timestampUtc :: "nat \<Rightarrow> string" where
  "timestampUtc ms = fmt_log (gmtime (ms div 1000))"

definition makeTimestampPrefix :: "nat \<Rightarrow> int \<Rightarrow> string" where
  "makeTimestampPrefix ms pid =
     fmt_file (gmtime (ms div 1000)) @ ''_'' @ pad0 3 (dec (ms mod 1000)) @ ''_pid'' @ to_string_int pid"

definition makeCommsLogName :: "string \<Rightarrow> string \<Rightarrow> string" where
  "makeCommsLogName role prefix = prefix @ ''_'' @ role @ ''_comms.log''"

definition makeBlackBoxLogName :: "string \<Rightarrow> string" where
  "makeBlackBoxLogName prefix = prefix @ ''_blackbox.log''"

definition logDirectoryForRole :: "string \<Rightarrow> string \<Rightarrow> string" where
  "logDirectoryForRole logsRoot role =
     (if role = ''aircraft'' then logsRoot @ ''/aircraft_comms'' else logsRoot @ ''/groundctrl_comms'')"

definition new_logger :: "string \<Rightarrow> string \<Rightarrow> nat \<Rightarrow> int \<Rightarrow> Logger" where
  "new_logger role logsRoot ms pid =
     (let prefix = makeTimestampPrefix ms pid;
          commsDirectory = logDirectoryForRole logsRoot role
      in \<lparr> commsLog = [],
           blackBoxLog = (if role = ''groundctrl'' then Some [] else None),
           commsPath = commsDirectory @ ''/'' @ makeCommsLogName role prefix,
           blackBoxPath = (if role = ''groundctrl''
                           then Some (logsRoot @ ''/blackbox'' @ ''/'' @ makeBlackBoxLogName prefix)
                           else None) \<rparr>)"

definition packet_line :: "string \<Rightarrow> string \<Rightarrow> PacketHeader \<Rightarrow> string" where
  "packet_line stamp direction hdr =
     ''['' @ stamp @ ''] '' @ ''['' @ direction @ ''] '' @ ''['' @ packetTypeToString (packet_type hdr) @ ''] ''
       @ ''Aircraft='' @ extractAircraftId (aircraft_id hdr) @ '' ''
       @ ''Seq='' @ pad0 4 (dec (unat (sequence_number hdr))) @ '' ''
       @ ''PayloadSize='' @ dec (unat (payload_size hdr))"

definition logPacket :: "nat \<Rightarrow> Logger \<Rightarrow> string \<Rightarrow> PacketHeader \<Rightarrow> Logger" where
  "logPacket ms lg direction hdr =
     lg\<lparr>commsLog := commsLog lg @ [packet_line (timestampUtc ms) direction hdr]\<rparr>"

definition fault_line :: "string \<Rightarrow> string \<Rightarrow> string \<Rightarrow> u32 \<Rightarrow> string" where
  "fault_line stamp cause st n =
     ''['' @ stamp @ ''] '' @ ''[FAULT] '' @ ''Cause='' @ cause @ '' '' @ ''State='' @ st @ '' ''
       @ ''Seq='' @ pad0 4 (dec (unat n))"

definition logFault :: "nat \<Rightarrow> Logger \<Rightarrow> string \<Rightarrow> string \<Rightarrow> u32 \<Rightarrow> Logger" where
  "logFault ms lg cause st n =
     (let line = fault_line (timestampUtc ms) cause st n;
          lg1 = lg\<lparr>commsLog := commsLog lg @ [line]\<rparr>
      in (case blackBoxLog lg1 of
            None \<Rightarrow> lg1
          | Some ls \<Rightarrow> lg1\<lparr>blackBoxLog := Some (ls @ [line])\<rparr>))"

definition logInfo :: "nat \<Rightarrow> Logger \<Rightarrow> string \<Rightarrow> Logger" where
  "logInfo ms lg message =
     lg\<lparr>commsLog := commsLog lg @ [''['' @ timestampUtc ms @ ''] '' @ ''[INFO] '' @ message]\<rparr>"

lemma log_frames [frame, simp]:
  "blackBoxLog (logPacket ms lg d h) = blackBoxLog lg"
  "blackBoxLog (logInfo ms lg m) = blackBoxLog lg"
  "commsLog (logPacket ms lg d h) = commsLog lg @ [packet_line (timestampUtc ms) d h]"
  "commsLog (logInfo ms lg m) = commsLog lg @ [''['' @ timestampUtc ms @ ''] '' @ ''[INFO] '' @ m]"
  by (simp_all add: logPacket_def logInfo_def)

lemma logFault_logs [frame, simp]:
  "commsLog (logFault ms lg c s n) = commsLog lg @ [fault_line (timestampUtc ms) c s n]"
  "blackBoxLog (logFault ms lg c s n) =
     map_option (\<lambda>ls. ls @ [fault_line (timestampUtc ms) c s n]) (blackBoxLog lg)"
  by (simp_all add: logFault_def Let_def split: option.splits)

subsection \<open>Sequences of log calls\<close>

text \<open>A call of the logger at a clock reading, the line it writes, and its effect.\<close>

datatype log_call =
    LogPacket nat string PacketHeader
  | LogFault nat string string u32
  | LogInfo nat string

fun do_log :: "Logger \<Rightarrow> log_call \<Rightarrow> Logger" where
  "do_log lg (LogPacket ms d h) = logPacket ms lg d h"
| "do_log lg (LogFault ms c s n) = logFault ms lg c s n"
| "do_log lg (LogInfo ms m) = logInfo ms lg m"

fun call_line :: "log_call \<Rightarrow> string" where
  "call_line (LogPacket ms d h) = packet_line (timestampUtc ms) d h"
| "call_line (LogFault ms c s n) = fault_line (timestampUtc ms) c s n"
| "call_line (LogInfo ms m) = ''['' @ timestampUtc ms @ ''] '' @ ''[INFO] '' @ m"

fun is_fault_call :: "log_call \<Rightarrow> bool" where
  "is_fault_call (LogFault _ _ _ _) = True"
| "is_fault_call _ = False"

lemma do_log_comms [simp]: "commsLog (do_log lg c) = commsLog lg @ [call_line c]"
  by (cases c) simp_all

lemma do_log_blackbox [simp]:
  "blackBoxLog (do_log lg c) =
     map_option (\<lambda>ls. ls @ (if is_fault_call c then [call_line c] else [])) (blackBoxLog lg)"
  by (cases c) (simp_all add: option.map_ident)

lemma run_log:
  "commsLog (foldl do_log lg cs) = commsLog lg @ map call_line cs"
  "blackBoxLog (foldl do_log lg cs) =
     map_option (\<lambda>ls. ls @ map call_line (filter is_fault_call cs)) (blackBoxLog lg)"
  by (induction cs arbitrary: lg) (auto simp: option.map_comp o_def option.map_ident)

text \<open>
  The black box of the ground station is exactly the faults: after any sequence of log calls
  the communication log holds one line per call in order, the ground station's black box holds
  the fault lines among them in the same order and nothing else, and an aircraft has no black box.
\<close>

lemma blackbox_is_the_faults:
  "commsLog (foldl do_log (new_logger role logsRoot ms pid) cs) = map call_line cs \<and>
   blackBoxLog (foldl do_log (new_logger role logsRoot ms pid) cs) =
     (if role = ''groundctrl'' then Some (map call_line (filter is_fault_call cs)) else None)"
  by (simp add: run_log new_logger_def Let_def)

end
