(* ===== verification/Client_Utils.thy ===== *)
theory Client_Utils
  imports Session_Logic
begin

text \<open>
  \<open>client/client_utils.{h,cpp}\<close>: the client's states, its check of aircraft ids and the ids it
  makes up when the user gives none. The clock reading (a 64-bit tick count) and the process id
  that seed them are arguments.
\<close>

datatype ClientState =
    C_DISCONNECTED
  | C_HANDSHAKE_PENDING
  | C_CONNECTED
  | C_TELEMETRY
  | C_LARGE_FILE_TRANSFER
  | C_FAULT

fun client_stateToString :: "ClientState \<Rightarrow> string" where
  "client_stateToString C_DISCONNECTED = ''DISCONNECTED''"
| "client_stateToString C_HANDSHAKE_PENDING = ''HANDSHAKE_PENDING''"
| "client_stateToString C_CONNECTED = ''CONNECTED''"
| "client_stateToString C_TELEMETRY = ''TELEMETRY''"
| "client_stateToString C_LARGE_FILE_TRANSFER = ''LARGE_FILE_TRANSFER''"
| "client_stateToString C_FAULT = ''FAULT''"

text \<open>\<open>std::regex_match\<close> against \<open>^AC-[0-9]{3}$\<close>: the literal prefix, then three digits and no more.\<close>

definition client_validateAircraftId :: "string \<Rightarrow> bool" where
  "client_validateAircraftId s \<longleftrightarrow>
     take 3 s = ''AC-'' \<and> length (drop 3 s) = 3 \<and> list_all is_digit (drop 3 s)"

definition autoAircraftIdBase :: "64 word \<Rightarrow> int \<Rightarrow> u32" where
  "autoAircraftIdBase ticks pid =
     (let mixed = (ucast ticks :: u32) XOR ucast (drop_bit 32 ticks);
          mixed1 = mixed XOR (word_of_int pid * 2654435761)
      in mixed1 mod 999)"

definition kRetryStride :: u32 where "kRetryStride = 590"

definition generateAutoAircraftId :: "u32 \<Rightarrow> u32 \<Rightarrow> string" where
  "generateAutoAircraftId base salt =
     (let aircraftNumber = (base + salt * kRetryStride) mod 999 + 1
      in ''AC-'' @ pad0 3 (dec (unat aircraftNumber)))"

subsection \<open>The client and the server agree on what an id is\<close>

lemma client_validate_eq: "client_validateAircraftId s = validateAircraftId s"
proof
  assume l: "client_validateAircraftId s"
  then have len: "length (drop 3 s) = 3" by (simp add: client_validateAircraftId_def)
  then obtain d e f where def: "drop 3 s = [d, e, f]" by (rule length_eq_3E)
  have "s = take 3 s @ drop 3 s" by (rule append_take_drop_id [symmetric])
  with l def have "s = ''AC-'' @ [d, e, f]" by (simp add: client_validateAircraftId_def)
  moreover have "is_digit d" "is_digit e" "is_digit f"
    using l def by (simp_all add: client_validateAircraftId_def)
  ultimately show "validateAircraftId s" by (auto simp: validateAircraftId_iff)
next
  assume "validateAircraftId s"
  then show "client_validateAircraftId s"
    by (auto simp: validateAircraftId_iff client_validateAircraftId_def)
qed

subsection \<open>The ids made up\<close>

lemma unat_base: "unat (autoAircraftIdBase t p) < 999"
  by (simp add: autoAircraftIdBase_def Let_def unat_mod) 

lemma unat_auto_number:
  assumes "unat base + unat salt * 590 < 2 ^ 32"
  shows "unat ((base + salt * kRetryStride) mod 999 + 1) = (unat base + unat salt * 590) mod 999 + 1"
proof -
  have m: "unat (salt * kRetryStride) = unat salt * 590"
    using assms by (simp add: kRetryStride_def unat_word_ariths)
  have s: "unat (base + salt * kRetryStride) = unat base + unat salt * 590"
    using assms by (simp add: unat_word_ariths(1) m)
  have "unat ((base + salt * kRetryStride) mod 999) = (unat base + unat salt * 590) mod 999"
    by (simp add: unat_mod s)
  then show ?thesis by (simp add: unat_word_ariths(1))
qed

lemma auto_number_range: "1 \<le> unat ((w::u32) mod 999 + 1) \<and> unat (w mod 999 + 1) \<le> 999"
proof -
  have "unat (w mod 999) < 999" by (simp add: unat_mod)
  then have "unat (w mod 999 + 1) = unat (w mod 999) + 1" by (simp add: unat_word_ariths(1))
  with \<open>unat (w mod 999) < 999\<close> show ?thesis by simp
qed

lemma pad3_valid: "n < 1000 \<Longrightarrow> validateAircraftId (''AC-'' @ pad0 3 (dec n))"
proof -
  assume "n < 1000"
  then have "length (pad0 3 (dec n)) = 3" by (simp add: length_pad0 length_dec_le)
  then obtain d e f where p: "pad0 3 (dec n) = [d, e, f]" by (rule length_eq_3E)
  then have "is_digit d" "is_digit e" "is_digit f" using pad0_digits [of _ 3 n] by auto
  with p show ?thesis by (simp add: validateAircraftId_def)
qed

lemma auto_id_valid: "validateAircraftId (generateAutoAircraftId base salt)"
  using auto_number_range [of "base + salt * kRetryStride"]
  unfolding generateAutoAircraftId_def Let_def by (intro pad3_valid) simp

text \<open>590 is invertible modulo 999, its inverse being 425.\<close>

lemma stride_cancel:
  "(s * 590) mod 999 = (t * 590) mod 999 \<longleftrightarrow> s mod 999 = t mod (999::nat)"
proof
  assume "(s * 590) mod 999 = (t * 590) mod 999"
  then have "(s * 590) * 425 mod 999 = (t * 590) * 425 mod 999" by (metis mod_mult_left_eq)
  moreover have "(x * 590) * 425 mod 999 = x mod 999" for x :: nat
  proof -
    have "(x * 590) * 425 = x + x * 251 * 999" by simp
    then show ?thesis by (simp only: mod_mult_self1)
  qed
  ultimately show "s mod 999 = t mod 999" by simp
qed (metis mod_mult_left_eq)

lemma add_mod_cancel: "((b::nat) + x) mod 999 = (b + y) mod 999 \<longleftrightarrow> x mod 999 = y mod 999"
proof -
  have "(int b + int x) mod 999 = (int b + int y) mod 999 \<longleftrightarrow> int x mod 999 = int y mod 999"
    by (simp add: mod_eq_dvd_iff)
  then show ?thesis by (metis nat_int of_nat_add of_nat_mod of_nat_numeral)
qed

text \<open>Two salts give the same id exactly when they agree modulo 999.\<close>

lemma auto_id_eq_iff:
  assumes "unat base + unat s * 590 < 2 ^ 32" "unat base + unat t * 590 < 2 ^ 32"
  shows "generateAutoAircraftId base s = generateAutoAircraftId base t \<longleftrightarrow>
    unat s mod 999 = unat t mod 999"
proof -
  have "generateAutoAircraftId base s = generateAutoAircraftId base t \<longleftrightarrow>
      (unat base + unat s * 590) mod 999 = (unat base + unat t * 590) mod 999"
    by (simp add: generateAutoAircraftId_def Let_def unat_auto_number [OF assms(1)]
        unat_auto_number [OF assms(2)])
  also have "\<dots> \<longleftrightarrow> (unat s * 590) mod 999 = (unat t * 590) mod 999"
    by (simp add: add_mod_cancel)
  also have "\<dots> \<longleftrightarrow> unat s mod 999 = unat t mod 999" by (rule stride_cancel)
  finally show ?thesis .
qed


lemma auto_id_inj:
  assumes "unat base < 999"
  shows "inj_on (\<lambda>s. generateAutoAircraftId base (word_of_nat s)) {..<999}"
proof (rule inj_onI)
  fix s t :: nat assume r: "s \<in> {..<999}" "t \<in> {..<999}"
    and eq: "generateAutoAircraftId base (word_of_nat s) = generateAutoAircraftId base (word_of_nat t)"
  have u: "unat (word_of_nat s :: u32) = s" "unat (word_of_nat t :: u32) = t"
    using r by (simp_all add: unat_of_nat take_bit_nat_eq_self)
  from auto_id_eq_iff [of base "word_of_nat s" "word_of_nat t"] eq r assms show "s = t"
    by (simp add: u)
qed

text \<open>
  C29. The ids the client makes up are always well-formed, whatever the clock, the process id and the
  retry count are, and the retry salts 0 to 998 walk through the ids AC-001 to AC-999 without
  visiting any of them twice, whichever of them they start at.
\<close>

theorem auto_ids:
  "validateAircraftId (generateAutoAircraftId (autoAircraftIdBase ticks pid) salt) \<and>
   bij_betw (\<lambda>s. generateAutoAircraftId (autoAircraftIdBase ticks pid) (word_of_nat s)) {..<999}
     {''AC-'' @ pad0 3 (dec n) |n. 1 \<le> n \<and> n \<le> 999}"
proof (rule conjI [OF auto_id_valid])
  let ?f = "\<lambda>s. generateAutoAircraftId (autoAircraftIdBase ticks pid) (word_of_nat s)"
  let ?g = "\<lambda>n. ''AC-'' @ pad0 3 (dec n)"
  have eq: "{?g n |n. 1 \<le> n \<and> n \<le> 999} = ?g ` {1..999}" by auto
  have inj: "inj_on ?f {..<999}" by (rule auto_id_inj [OF unat_base])
  have "?f ` {..<999} \<subseteq> ?g ` {1..999}"
    using auto_number_range unfolding generateAutoAircraftId_def Let_def by fastforce
  moreover have "card (?f ` {..<999}) = 999" using card_image [OF inj] by simp
  moreover have "card (?g ` {1..999}) \<le> card {1..(999::nat)}" by (rule card_image_le) simp
  ultimately have "?f ` {..<999} = ?g ` {1..999}"
    by (intro card_seteq) simp_all
  with inj show "bij_betw ?f {..<999} {?g n |n. 1 \<le> n \<and> n \<le> 999}"
    unfolding bij_betw_def eq by blast
qed

end
