(* ===== verification/Options.thy ===== *)
theory Options
  imports Client_Utils
begin

text \<open>
  The command lines: \<open>server/server_options.{h,cpp}\<close> and \<open>client/client_options.{h,cpp}\<close>. The
  arguments are those after the program's name; \<open>Inl\<close> carries the message written to
  \<open>std::cerr\<close> where the parser returns \<open>std::nullopt\<close>.
\<close>

subsection \<open>Ports\<close>

text \<open>
  The \<open>try\<close> block the two parsers share: \<open>std::stoi\<close>, whose exceptions become the usage message,
  then the range check.
\<close>

definition bad_port_message :: string where
  "bad_port_message = ''Invalid port. Please choose a value between 1 and 65535.''"

definition parse_port :: "string \<Rightarrow> string \<Rightarrow> string + 16 word" where
  "parse_port usage arg =
     (case stoi arg of
        Inl e \<Rightarrow> Inl usage
      | Inr p \<Rightarrow> if p < 1 \<or> 65535 < p then Inl bad_port_message else Inr (word_of_int p))"

definition port_arg :: "string \<Rightarrow> bool" where
  "port_arg s \<longleftrightarrow> (case stoi s of Inl e \<Rightarrow> False | Inr p \<Rightarrow> 1 \<le> p \<and> p \<le> 65535)"

lemma parse_port_Inr_iff: "(\<exists>w. parse_port usage s = Inr w) \<longleftrightarrow> port_arg s"
  by (auto simp: parse_port_def port_arg_def split: sum.splits)

lemma parse_port_range: "parse_port usage s = Inr w \<Longrightarrow> 1 \<le> uint w \<and> uint w \<le> 65535"
  by (auto simp: parse_port_def unsigned_of_int take_bit_int_eq_self split: sum.splits if_splits)

lemma parse_port_dec:
  assumes "1 \<le> n" "n \<le> 65535" "junk = [] \<or> \<not> is_digit (hd junk)"
  shows "parse_port usage (dec n @ junk) = Inr (word_of_nat n)"
proof -
  have "stoi (dec n @ junk) = Inr (int n)"
    using assms by (intro stoi_dec_append) (simp_all add: INT_MAX_def)
  with assms show ?thesis by (simp add: parse_port_def of_int_of_nat_eq)
qed

subsection \<open>The server's options\<close>

definition kDefaultServerPort :: "16 word" where "kDefaultServerPort = 5000"

record ServerOptions =
  listenPort :: "16 word"
  headless :: bool

definition server_usage :: string where
  "server_usage = ''Invalid argument. Usage: ./ground_server [port] [--headless]''"

fun server_args :: "ServerOptions \<Rightarrow> string list \<Rightarrow> string + ServerOptions" where
  "server_args options [] = Inr options"
| "server_args options (arg # args) =
     (if arg = ''--headless'' then server_args (options\<lparr>headless := True\<rparr>) args
      else (case parse_port server_usage arg of
              Inl msg \<Rightarrow> Inl msg
            | Inr p \<Rightarrow> server_args (options\<lparr>listenPort := p\<rparr>) args))"

definition parseServerOptions :: "string list \<Rightarrow> string + ServerOptions" where
  "parseServerOptions args = server_args \<lparr> listenPort = kDefaultServerPort, headless = False \<rparr> args"

text \<open>The reference: the first unusable argument decides the error, the last port wins.\<close>

definition server_bad :: "string \<Rightarrow> bool" where
  "server_bad a \<longleftrightarrow> a \<noteq> ''--headless'' \<and> \<not> port_arg a"

definition port_value :: "string \<Rightarrow> 16 word" where
  "port_value s = (case stoi s of Inl e \<Rightarrow> 0 | Inr p \<Rightarrow> word_of_int p)"

definition error_of :: "string \<Rightarrow> string" where
  "error_of s = (case stoi s of Inl e \<Rightarrow> server_usage | Inr p \<Rightarrow> bad_port_message)"

definition server_reference :: "ServerOptions \<Rightarrow> string list \<Rightarrow> string + ServerOptions" where
  "server_reference options args =
     (case find server_bad args of
        Some bad \<Rightarrow> Inl (error_of bad)
      | None \<Rightarrow> Inr \<lparr> listenPort = last (listenPort options # map port_value (filter (\<lambda>a. a \<noteq> ''--headless'') args)),
                     headless = (headless options \<or> ''--headless'' \<in> set args) \<rparr>)"

lemma parse_port_reference:
  "parse_port server_usage a = (if port_arg a then Inr (port_value a) else Inl (error_of a))"
  by (auto simp: parse_port_def port_arg_def port_value_def error_of_def split: sum.splits)

lemma server_args_reference: "server_args options args = server_reference options args"
proof (induction args arbitrary: options)
  case Nil
  then show ?case by (simp add: server_reference_def)
next
  case (Cons a args)
  show ?case
    by (simp add: Cons.IH server_reference_def parse_port_reference server_bad_def split: option.split)
qed

text \<open>
  C27. The server's command line means what its usage says, whatever the number and order of the
  arguments: the parser is the reference that rejects the whole line for its first argument
  that is neither the flag nor a number from 1 to 65535, with the message for that argument,
  and otherwise takes the last port given (5000 if none) and is headless exactly if the flag
  occurs.
\<close>

theorem server_options_reference:
  "parseServerOptions args =
     (case find (\<lambda>a. a \<noteq> ''--headless'' \<and> \<not> port_arg a) args of
        Some bad \<Rightarrow> Inl (error_of bad)
      | None \<Rightarrow> Inr \<lparr> listenPort = last (5000 # map port_value (filter (\<lambda>a. a \<noteq> ''--headless'') args)),
                     headless = (''--headless'' \<in> set args) \<rparr>)"
proof -
  have "server_bad = (\<lambda>a. a \<noteq> ''--headless'' \<and> \<not> port_arg a)" by (rule ext) (simp add: server_bad_def)
  then show ?thesis
    by (simp add: parseServerOptions_def server_args_reference server_reference_def kDefaultServerPort_def
        split: option.split)
qed

subsection \<open>The client's options\<close>

definition kDefaultClientPort :: "16 word" where "kDefaultClientPort = 5000"

record ClientOptions =
  opt_host :: string
  opt_port :: "16 word"
  opt_aircraftId :: string
  opt_aircraftIdExplicit :: bool

definition client_usage :: string where
  "client_usage = ''Invalid client arguments. Usage: ./aircraft_client [host] [port] [aircraft_id]''"

definition bad_id_message :: string where
  "bad_id_message = ''Invalid aircraft id. Use the format AC-001.''"

definition client_port :: "ClientOptions \<Rightarrow> string list \<Rightarrow> string + ClientOptions" where
  "client_port options args =
     (if 1 < length args
      then (case parse_port client_usage (args ! 1) of
              Inl msg \<Rightarrow> Inl msg
            | Inr p \<Rightarrow> Inr (options\<lparr>opt_port := p\<rparr>))
      else Inr options)"

definition parseClientOptions :: "u32 \<Rightarrow> string list \<Rightarrow> string + ClientOptions" where
  "parseClientOptions base args =
     (let options = \<lparr> opt_host = ''localhost'', opt_port = kDefaultClientPort,
                      opt_aircraftId = generateAutoAircraftId base 0, opt_aircraftIdExplicit = False \<rparr>;
          options1 = (if 0 < length args then options\<lparr>opt_host := args ! 0\<rparr> else options)
      in case client_port options1 args of
           Inl msg \<Rightarrow> Inl msg
         | Inr options2 \<Rightarrow>
             (let options3 = (if 2 < length args
                              then options2\<lparr>opt_aircraftId := args ! 2, opt_aircraftIdExplicit := True\<rparr>
                              else options2)
              in if 3 < length args then Inl client_usage
                 else if \<not> client_validateAircraftId (opt_aircraftId options3) then Inl bad_id_message
                 else Inr options3))"

lemma client_port_frame:
  "client_port o1 args = Inr o2 \<Longrightarrow> opt_host o2 = opt_host o1 \<and> opt_aircraftId o2 = opt_aircraftId o1 \<and>
     opt_aircraftIdExplicit o2 = opt_aircraftIdExplicit o1 \<and>
     (1 \<le> uint (opt_port o1) \<and> uint (opt_port o1) \<le> 65535 \<longrightarrow> 1 \<le> uint (opt_port o2) \<and> uint (opt_port o2) \<le> 65535)"
  by (auto simp: client_port_def dest: parse_port_range split: if_splits sum.splits)

text \<open>
  C28. Whatever the command line, options that come out of the client's parser are well-formed: the
  id has the server's format whether it was given or made up, and counts as explicit exactly if
  there were three arguments; there were no more; the port is not 0. Any port from 1 to 65535
  and any well-formed id can be given, and text after the port's digits is ignored.
\<close>

theorem client_options_well_formed:
  assumes "parseClientOptions base args = Inr opts"
    and "1 \<le> n" "n \<le> 65535" "junk = [] \<or> \<not> is_digit (hd junk)" "validateAircraftId i"
  shows "validateAircraftId (opt_aircraftId opts) \<and> opt_port opts \<noteq> 0 \<and> length args \<le> 3 \<and>
    (opt_aircraftIdExplicit opts \<longleftrightarrow> length args = 3) \<and>
    opt_host opts = (if args = [] then ''localhost'' else hd args) \<and>
    parseClientOptions base [h, dec n @ junk, i] =
      Inr \<lparr> opt_host = h, opt_port = word_of_nat n, opt_aircraftId = i, opt_aircraftIdExplicit = True \<rparr>"
proof -
  have "uint (opt_port opts) \<noteq> 0 \<and> validateAircraftId (opt_aircraftId opts) \<and> length args \<le> 3 \<and>
    (opt_aircraftIdExplicit opts \<longleftrightarrow> length args = 3) \<and>
    opt_host opts = (if args = [] then ''localhost'' else hd args)"
    using assms(1)
    by (cases args)
       (auto simp: parseClientOptions_def Let_def kDefaultClientPort_def client_validate_eq
         dest!: client_port_frame split: sum.splits if_splits)
  moreover have "parseClientOptions base [h, dec n @ junk, i] =
      Inr \<lparr> opt_host = h, opt_port = word_of_nat n, opt_aircraftId = i, opt_aircraftIdExplicit = True \<rparr>"
    using assms(5)
    by (simp add: parseClientOptions_def client_port_def parse_port_dec [OF assms(2-4)] client_validate_eq)
  ultimately show ?thesis by auto
qed

theorem client_options_well_formed_witness:
  "parseClientOptions 7 [''ground'', dec 5001 @ ''tcp'', ''AC-042''] =
     Inr \<lparr> opt_host = ''ground'', opt_port = 5001, opt_aircraftId = ''AC-042'', opt_aircraftIdExplicit = True \<rparr>"
proof -
  have "parseClientOptions 7 [] = Inr \<lparr> opt_host = ''localhost'', opt_port = kDefaultClientPort,
      opt_aircraftId = generateAutoAircraftId 7 0, opt_aircraftIdExplicit = False \<rparr>"
    by (simp add: parseClientOptions_def client_port_def client_validate_eq auto_id_valid)
  moreover have "\<not> is_digit (hd ''tcp'')" "validateAircraftId ''AC-042''"
    by (simp_all add: is_digit_def less_eq_char_def validateAircraftId_def)
  ultimately show ?thesis
    using client_options_well_formed [of 7 "[]" _ 5001 "''tcp''" "''AC-042''" "''ground''"] by simp
qed

end
