(* ===== verification/Flight_Sim.thy ===== *)
theory Flight_Sim
  imports Std_Float Packet
begin

text \<open>
  \<open>client/flight_sim.{h,cpp}\<close>: the simulated flight, five floats that drift by random steps in
  IEEE single precision (evaluated without contracting products and sums). The draws of
  \<open>drift10\<close> and \<open>drift6\<close> are arguments, in the order the code makes them.
\<close>

record FlightSim =
  sim_lat :: f32
  sim_lon :: f32
  sim_alt :: f32
  sim_speed :: f32
  sim_heading :: f32

definition new_flight :: FlightSim where
  "new_flight =
     \<lparr> sim_lat = f32_round (434643 / 10000), sim_lon = f32_round (- 805204 / 10000),
       sim_alt = f32_round 35000, sim_speed = f32_round 480, sim_heading = f32_round 270 \<rparr>"

record draws =
  draw_lat :: int
  draw_lon :: int
  draw_alt :: int
  draw_speed :: int

definition draws_ok :: "draws \<Rightarrow> bool" where
  "draws_ok d \<longleftrightarrow> draw_lat d \<in> {0..9} \<and> draw_lon d \<in> {0..9} \<and> draw_alt d \<in> {0..9} \<and> draw_speed d \<in> {0..5}"

definition tick :: "draws \<Rightarrow> FlightSim \<Rightarrow> FlightSim" where
  "tick d f =
     f\<lparr>sim_lat := f32_add (sim_lat f) (f32_mul (f32_round (of_int (draw_lat d - 5))) (f32_round (1 / 10000))),
       sim_lon := f32_add (sim_lon f) (f32_mul (f32_round (of_int (draw_lon d - 5))) (f32_round (1 / 10000))),
       sim_alt := f32_add (sim_alt f) (f32_round (of_int (draw_alt d - 5))),
       sim_speed := f32_add (sim_speed f) (f32_mul (f32_round (of_int (draw_speed d - 3))) (f32_round (1 / 2)))\<rparr>"

definition telemetryPayload :: "FlightSim \<Rightarrow> TelemetryPayload" where
  "telemetryPayload f =
     \<lparr> latitude = f32_bits (sim_lat f), longitude = f32_bits (sim_lon f),
       altitude = f32_bits (sim_alt f), speed = f32_bits (sim_speed f),
       heading = f32_bits (sim_heading f) \<rparr>"

subsection \<open>Altitude and speed are exact\<close>

text \<open>The reference: altitude in feet and speed in half knots, over the integers.\<close>

definition ref_alt :: "draws list \<Rightarrow> int" where
  "ref_alt ds = 35000 + sum_list (map (\<lambda>d. draw_alt d - 5) ds)"

definition ref_speed2 :: "draws list \<Rightarrow> int" where
  "ref_speed2 ds = 960 + sum_list (map (\<lambda>d. draw_speed d - 3) ds)"

lemma drift_bound:
  assumes "list_all draws_ok ds"
  shows "\<bar>sum_list (map (\<lambda>d. draw_alt d - 5) ds)\<bar> \<le> 5 * int (length ds)"
    "\<bar>sum_list (map (\<lambda>d. draw_speed d - 3) ds)\<bar> \<le> 3 * int (length ds)"
  using assms by (induction ds) (auto simp: draws_ok_def)

lemma f32_int: "\<bar>i\<bar> < 2 ^ 24 \<Longrightarrow> f32_round (of_int i) = Fin (of_int i)"
  using f32_round_exact [of i 0] by simp

lemma f32_half: "\<bar>i\<bar> < 2 ^ 24 \<Longrightarrow> f32_round (of_int i / 2) = Fin (of_int i / 2)"
  using f32_round_exact [of i "- 1"] by (simp add: pow2_def)

lemma tick_exact:
  assumes "draws_ok d" "sim_alt f = Fin (of_int a)" "sim_speed f = Fin (of_int s / 2)" "sim_heading f = Fin 270"
    and "\<bar>a + (draw_alt d - 5)\<bar> < 2 ^ 24" "\<bar>s + (draw_speed d - 3)\<bar> < 2 ^ 24"
  shows "sim_alt (tick d f) = Fin (of_int (a + (draw_alt d - 5)))"
    "sim_speed (tick d f) = Fin (of_int (s + (draw_speed d - 3)) / 2)"
    "sim_heading (tick d f) = Fin 270"
proof -
  have r: "\<bar>draw_alt d - 5\<bar> < 2 ^ 24" "\<bar>draw_speed d - 3\<bar> < 2 ^ 24"
    using assms(1) by (auto simp: draws_ok_def)
  have half: "f32_round (1 / 2) = Fin (1 / 2)" using f32_half [of 1] by simp
  show "sim_alt (tick d f) = Fin (of_int (a + (draw_alt d - 5)))"
    using f32_int [OF assms(5)] by (simp add: tick_def assms(2) f32_int [OF r(1)] del: of_int_diff of_int_add
        add: of_int_add [symmetric])
  have sum: "of_int s / 2 + of_int (draw_speed d - 3) / 2 = (of_int (s + (draw_speed d - 3)) / 2 :: rat)"
    by (simp add: field_simps)
  have mul: "f32_mul (f32_round (of_int (draw_speed d - 3))) (f32_round (1 / 2)) = Fin (of_int (draw_speed d - 3) / 2)"
    using f32_half [OF r(2)] by (simp add: f32_int [OF r(2)] half del: of_int_diff)
  show "sim_speed (tick d f) = Fin (of_int (s + (draw_speed d - 3)) / 2)"
    by (simp add: tick_def assms(3) mul sum f32_half [OF assms(6)] del: of_int_diff of_int_add)
  show "sim_heading (tick d f) = Fin 270" by (simp add: tick_def assms(4))
qed

lemma ticks_exact:
  assumes "list_all draws_ok ds" "length ds \<le> 3000000"
  shows "sim_alt (fold tick ds new_flight) = Fin (of_int (ref_alt ds)) \<and>
    sim_speed (fold tick ds new_flight) = Fin (of_int (ref_speed2 ds) / 2) \<and>
    sim_heading (fold tick ds new_flight) = Fin 270"
  using assms
proof (induction ds rule: rev_induct)
  case Nil
  show ?case
    using f32_int [of 35000] f32_int [of 480] f32_int [of 270] by (simp add: new_flight_def ref_alt_def ref_speed2_def)
next
  case (snoc d ds)
  let ?f = "fold tick ds new_flight"
  have ok: "list_all draws_ok (ds @ [d])" and d: "draws_ok d" using snoc.prems(1) by simp_all
  have IH: "sim_alt ?f = Fin (of_int (ref_alt ds))" "sim_speed ?f = Fin (of_int (ref_speed2 ds) / 2)"
    "sim_heading ?f = Fin 270"
    using snoc by auto
  have st: "ref_alt (ds @ [d]) = ref_alt ds + (draw_alt d - 5)"
    "ref_speed2 (ds @ [d]) = ref_speed2 ds + (draw_speed d - 3)"
    by (simp_all add: ref_alt_def ref_speed2_def)
  have b: "\<bar>ref_alt (ds @ [d])\<bar> < 2 ^ 24" "\<bar>ref_speed2 (ds @ [d])\<bar> < 2 ^ 24"
    using drift_bound [OF ok] snoc.prems(2) unfolding ref_alt_def ref_speed2_def by auto
  show ?case
    using tick_exact [OF d IH b [unfolded st]] by (simp add: st)
qed

lemma payload_int: "\<bar>i\<bar> < 2 ^ 24 \<Longrightarrow> f32_of_bits (f32_bits (Fin (of_int i))) = Fin (of_int i)"
  using f32_bits_roundtrip [of i 0] by simp

lemma payload_half: "\<bar>i\<bar> < 2 ^ 24 \<Longrightarrow> f32_of_bits (f32_bits (Fin (of_int i / 2))) = Fin (of_int i / 2)"
  using f32_bits_roundtrip [of i "- 1"] by (simp add: pow2_def)

text \<open>
  C39. The floating-point simulation of altitude and speed makes no rounding error: for up to three
  million ticks (a month at one tick per second), the altitude and speed in the telemetry
  payload are exactly those of the simulation over the integers, whatever is drawn, and the
  heading stays at 270.
\<close>

theorem simulation_exact:
  assumes "list_all draws_ok ds" "length ds \<le> 3000000"
  shows "f32_of_bits (altitude (telemetryPayload (fold tick ds new_flight))) = Fin (of_int (ref_alt ds)) \<and>
    f32_of_bits (speed (telemetryPayload (fold tick ds new_flight))) = Fin (of_int (ref_speed2 ds) / 2) \<and>
    f32_of_bits (heading (telemetryPayload (fold tick ds new_flight))) = Fin 270"
proof -
  have "\<bar>ref_alt ds\<bar> < 2 ^ 24" "\<bar>ref_speed2 ds\<bar> < 2 ^ 24"
    using drift_bound [OF assms(1)] assms(2) unfolding ref_alt_def ref_speed2_def by auto
  then show ?thesis
    using ticks_exact [OF assms] payload_int [of "ref_alt ds"] payload_half [of "ref_speed2 ds"] payload_int [of 270]
    by (simp add: telemetryPayload_def)
qed

theorem simulation_exact_witness:
  "f32_of_bits (altitude (telemetryPayload (fold tick
      (replicate 1000 \<lparr> draw_lat = 0, draw_lon = 9, draw_alt = 0, draw_speed = 5 \<rparr>) new_flight))) = Fin 30000"
proof -
  let ?d = "\<lparr> draw_lat = 0, draw_lon = 9, draw_alt = 0, draw_speed = 5 \<rparr>"
  have "list_all draws_ok (replicate 1000 ?d)" by (simp add: list_all_iff draws_ok_def)
  moreover have "ref_alt (replicate 1000 ?d) = 30000"
    by (simp add: ref_alt_def map_replicate sum_list_replicate)
  ultimately show ?thesis using simulation_exact [of "replicate 1000 ?d"] by simp
qed

end
