(* ===== verification/Aircraft_Client.thy ===== *)
theory Aircraft_Client
  imports Client_Packets Socket_Utils Logger Options Flight_Sim
begin

text \<open>
  \<open>client/aircraft_client.{h,cpp}\<close>: the client's state and the operations of its main thread while
  it is the only one: creation, connecting with its retries, printing the status. The two
  worker threads, and what they share with the main thread, are in \<open>Client_Threads\<close>.
\<close>

subsection \<open>State\<close>

text \<open>
  What the machine decides for the client: the readings of its clock (milliseconds), the i-th
  answers of \<open>::socket\<close> with the traffic of the connection, of \<open>getaddrinfo\<close> (the addresses, each
  with the outcome of \<open>connect\<close>), of \<open>select\<close>, of \<open>malloc\<close> by size and of the random numbers, and
  the base of the ids it makes up.
\<close>

record client_host =
  ch_clock :: "nat \<Rightarrow> nat"
  ch_socket :: "nat \<Rightarrow> handle"
  ch_traffic :: "nat \<Rightarrow> sock"
  ch_resolve :: "nat \<Rightarrow> bool list option"
  ch_select :: "nat \<Rightarrow> handle set \<Rightarrow> int \<times> int \<Rightarrow> int \<times> handle set"
  ch_malloc :: "u32 \<Rightarrow> bool"
  ch_draws :: "nat \<Rightarrow> draws"
  ch_base :: u32

text \<open>
  The members of \<open>AircraftClient\<close>, the console and the files it writes, and its sockets. The
  counters say how many answers of the machine were used; \<open>opened\<close>, \<open>closed\<close> and \<open>polled_dead\<close>
  are history: sockets opened, \<open>close\<close> calls, and whether \<open>select\<close> was ever called on a
  descriptor that is not open.
\<close>

record client =
  csocket :: handle
  running :: bool
  receiverAlive :: bool
  fileTransferActive :: bool
  clogger :: Logger
  flightSim :: FlightSim
  currentState :: ClientState
  currentStateMessage :: string
  cid :: string
  explicitId :: bool
  nextSequence :: u32
  console :: "string list"
  saved :: "(string \<times> byte list) list"
  cnet :: net
  clock_reads :: nat
  socket_calls :: nat
  polls :: nat
  ticks :: nat
  opened :: nat
  closed :: nat
  polled_dead :: bool

definition new_client :: "ClientOptions \<Rightarrow> Logger \<Rightarrow> net \<Rightarrow> client" where
  "new_client options lg n =
     \<lparr> csocket = INVALID_SOCK, running = False, receiverAlive = False, fileTransferActive = False,
       clogger = lg, flightSim = new_flight, currentState = C_DISCONNECTED, currentStateMessage = [],
       cid = opt_aircraftId options, explicitId = opt_aircraftIdExplicit options, nextSequence = 1,
       console = [], saved = [], cnet = n, clock_reads = 0, socket_calls = 0, polls = 0, ticks = 0,
       opened = 0, closed = 0, polled_dead = False \<rparr>"

subsection \<open>Texts\<close>

definition client_fileTimestampUtc :: "nat \<Rightarrow> string" where
  "client_fileTimestampUtc ms = fmt_file (gmtime (ms div 1000)) @ ''_'' @ pad0 3 (dec (ms mod 1000))"

definition client_formatSequence :: "u32 \<Rightarrow> string" where
  "client_formatSequence n = ''seq'' @ pad0 4 (dec (unat n))"

definition receivedWeatherMapPathFor :: "nat \<Rightarrow> string \<Rightarrow> u32 \<Rightarrow> string" where
  "receivedWeatherMapPathFor ms aircraftId sequenceNumber =
     ''runtime/bitmaps/received/'' @ client_fileTimestampUtc ms @ ''_'' @ aircraftId @ ''_''
       @ client_formatSequence sequenceNumber @ ''_weather_map.bmp''"

definition ESC :: string where "ESC = [CHR 0x1B]"

fun colorPrefix :: "ClientState \<Rightarrow> string" where
  "colorPrefix C_HANDSHAKE_PENDING = ESC @ ''[33m''"
| "colorPrefix C_CONNECTED = ESC @ ''[32m''"
| "colorPrefix C_TELEMETRY = ESC @ ''[32m''"
| "colorPrefix C_FAULT = ESC @ ''[31m''"
| "colorPrefix _ = ESC @ ''[0m''"

definition colorSuffix :: string where
  "colorSuffix = ESC @ ''[0m''"

fun statusText :: "ClientState \<Rightarrow> string" where
  "statusText C_HANDSHAKE_PENDING = ''PENDING''"
| "statusText C_CONNECTED = ''CONNECTED''"
| "statusText C_TELEMETRY = ''CONNECTED''"
| "statusText C_LARGE_FILE_TRANSFER = ''CONNECTED''"
| "statusText C_FAULT = ''FAULT''"
| "statusText C_DISCONNECTED = ''DISCONNECTED''"

subsection \<open>Small operations\<close>

definition setState :: "ClientState \<Rightarrow> string \<Rightarrow> client \<Rightarrow> client" where
  "setState nextState message c = c\<lparr>currentState := nextState, currentStateMessage := message\<rparr>"

definition printLine :: "string \<Rightarrow> client \<Rightarrow> client" where
  "printLine line c = c\<lparr>console := console c @ [line]\<rparr>"

text \<open>\<open>printStatus\<close> for the state it has read: the status line, and the message if there is one.\<close>

definition printStatus :: "ClientState \<Rightarrow> client \<Rightarrow> client" where
  "printStatus snapshot c =
     (let c1 = printLine (colorPrefix snapshot @ ''Status: '' @ statusText snapshot
                 @ '' | State: '' @ client_stateToString snapshot @ '' | Aircraft: '' @ cid c @ colorSuffix) c
      in if currentStateMessage c1 \<noteq> [] then printLine (currentStateMessage c1) c1 else c1)"

definition client_now :: "client_host \<Rightarrow> client \<Rightarrow> nat" where
  "client_now E c = ch_clock E (clock_reads c)"

definition clock_tick :: "client \<Rightarrow> client" where
  "clock_tick c = c\<lparr>clock_reads := Suc (clock_reads c)\<rparr>"

definition client_logPacket :: "client_host \<Rightarrow> string \<Rightarrow> PacketHeader \<Rightarrow> client \<Rightarrow> client" where
  "client_logPacket E direction hdr c =
     (clock_tick c)\<lparr>clogger := logPacket (client_now E c) (clogger c) direction hdr\<rparr>"

definition client_logFault :: "client_host \<Rightarrow> string \<Rightarrow> string \<Rightarrow> u32 \<Rightarrow> client \<Rightarrow> client" where
  "client_logFault E cause st n c =
     (clock_tick c)\<lparr>clogger := logFault (client_now E c) (clogger c) cause st n\<rparr>"

definition client_logInfo :: "client_host \<Rightarrow> string \<Rightarrow> client \<Rightarrow> client" where
  "client_logInfo E message c =
     (clock_tick c)\<lparr>clogger := logInfo (client_now E c) (clogger c) message\<rparr>"

subsection \<open>The socket\<close>

text \<open>System calls on a descriptor that is not open fail.\<close>

definition socket_live :: "client \<Rightarrow> bool" where
  "socket_live c \<longleftrightarrow> csocket c \<noteq> INVALID_SOCK \<and> closes (cnet c (csocket c)) = 0"

definition client_sendAll :: "byte list \<Rightarrow> client \<Rightarrow> bool \<times> client" where
  "client_sendAll bs c =
     (if socket_live c
      then (case net_sendAll (cnet c) (csocket c) bs of (ok, n) \<Rightarrow> (ok, c\<lparr>cnet := n\<rparr>))
      else (False, c))"

definition client_recvAll :: "nat \<Rightarrow> client \<Rightarrow> byte list option \<times> client" where
  "client_recvAll k c =
     (if socket_live c
      then (case net_recvAll (cnet c) (csocket c) k of (r, n) \<Rightarrow> (r, c\<lparr>cnet := n\<rparr>))
      else (None, c))"

text \<open>One \<open>recv\<close> call.\<close>

definition client_recv :: "nat \<Rightarrow> client \<Rightarrow> byte list option \<times> client" where
  "client_recv k c =
     (if socket_live c
      then (case sock_recv (cnet c (csocket c)) k of (r, s) \<Rightarrow> (r, c\<lparr>cnet := (cnet c)(csocket c := s)\<rparr>))
      else (None, c))"

definition sendPacketLocked :: "PacketHeader \<Rightarrow> byte list \<Rightarrow> client \<Rightarrow> bool \<times> client" where
  "sendPacketLocked header payload c =
     (case client_sendAll (header_bytes header) c of
        (False, c1) \<Rightarrow> (False, c1)
      | (True, c1) \<Rightarrow>
          if 0 < payload_size header
          then client_sendAll (take (unat (payload_size header)) payload) c1
          else (True, c1))"

definition do_close :: "client \<Rightarrow> client" where
  "do_close c = c\<lparr>cnet := closeSocket (cnet c) (csocket c),
                   closed := (if csocket c = INVALID_SOCK then closed c else Suc (closed c))\<rparr>"

definition closeSocketIfOpen :: "client \<Rightarrow> client" where
  "closeSocketIfOpen c =
     (if csocket c \<noteq> INVALID_SOCK then (do_close c)\<lparr>csocket := INVALID_SOCK\<rparr> else c)"

subsection \<open>Connecting\<close>

definition kMaxAutoIdAttempts :: nat where "kMaxAutoIdAttempts = 8"

definition fresh_socket :: "sock \<Rightarrow> sock" where
  "fresh_socket k = k\<lparr>outb := [], shut_all := False, shut_wr := False, closes := 0\<rparr>"

definition open_socket :: "client_host \<Rightarrow> client \<Rightarrow> client" where
  "open_socket E c =
     (let i = socket_calls c; h = ch_socket E i; c1 = c\<lparr>csocket := h, socket_calls := Suc i\<rparr>
      in if h = INVALID_SOCK then c1
         else c1\<lparr>cnet := (cnet c)(h := fresh_socket (ch_traffic E i)), opened := Suc (opened c)\<rparr>)"

text \<open>The first address that accepts the connection wins.\<close>

definition resolveAndConnect :: "client_host \<Rightarrow> client \<Rightarrow> bool" where
  "resolveAndConnect E c =
     (case ch_resolve E (socket_calls c) of
        None \<Rightarrow> False
      | Some outcomes \<Rightarrow> list_ex id outcomes)"

text \<open>
  One pass of the loop, from the handshake on: \<open>Some\<close> of the value \<open>connectSession\<close> returns, or
  \<open>None\<close> to go round again.
\<close>

definition handshake_answer ::
  "client_host \<Rightarrow> nat \<Rightarrow> nat \<Rightarrow> PacketHeader \<Rightarrow> client \<Rightarrow> bool option \<times> client" where
  "handshake_answer E maxAttempts attempt response c =
     (if packet_type response = HANDSHAKE_ACK
      then (Some True, (setState C_CONNECTED ''[CONNECTED] Handshake verified. Channel secure.'' c)\<lparr>running := True\<rparr>)
      else
        let c1 = closeSocketIfOpen c
        in if packet_type response = HANDSHAKE_FAIL \<and> \<not> explicitId c1 \<and> attempt + 1 < maxAttempts
           then (let previous = cid c1;
                     c2 = c1\<lparr>cid := generateAutoAircraftId (ch_base E) (word_of_nat (attempt + 1))\<rparr>
                 in (None, printLine (''[INFO] Auto-assigned aircraft ID '' @ previous
                       @ '' was already in use. Retrying as '' @ cid c2 @ ''.'') c2))
           else if packet_type response = HANDSHAKE_FAIL
           then (Some False, setState C_DISCONNECTED
                   ''[FAULT] Handshake rejected by server. Aircraft ID may already be in use.'' c1)
           else (Some False, setState C_DISCONNECTED
                   ''[FAULT] Unexpected handshake response from server.'' c1))"

definition handshake_exchange ::
  "client_host \<Rightarrow> nat \<Rightarrow> nat \<Rightarrow> client \<Rightarrow> bool option \<times> client" where
  "handshake_exchange E maxAttempts attempt c =
     (let handshake = makeHeader HANDSHAKE_REQUEST (cid c) (nextSequence c) 0 0;
          c1 = c\<lparr>nextSequence := nextSequence c + 1\<rparr>
      in case sendPacketLocked handshake [] c1 of
           (False, c2) \<Rightarrow> (Some False, closeSocketIfOpen (setState C_FAULT ''[FAULT] Failed to send handshake request.'' c2))
         | (True, c2) \<Rightarrow>
             (case client_recvAll header_size (client_logPacket E ''TX'' handshake c2) of
                (None, c3) \<Rightarrow> (Some False, closeSocketIfOpen (setState C_FAULT ''[FAULT] No handshake response received.'' c3))
              | (Some bs, c3) \<Rightarrow>
                  handshake_answer E maxAttempts attempt (header_of_bytes bs)
                    (client_logPacket E ''RX'' (header_of_bytes bs) c3)))"

definition connect_attempt :: "client_host \<Rightarrow> nat \<Rightarrow> nat \<Rightarrow> client \<Rightarrow> bool option \<times> client" where
  "connect_attempt E maxAttempts attempt c =
     (let c1 = open_socket E (c\<lparr>nextSequence := 1\<rparr>)
      in if csocket c1 = INVALID_SOCK
         then (Some False, setState C_FAULT ''[FAULT] Unable to create client socket.'' c1)
         else
           let c2 = setState C_HANDSHAKE_PENDING ''[PENDING] Connecting to ground control...'' c1
           in if \<not> resolveAndConnect E c2
              then (Some False, closeSocketIfOpen (setState C_FAULT ''[FAULT] Unable to connect to ground control.'' c2))
              else handshake_exchange E maxAttempts attempt c2)"

function connect_loop :: "client_host \<Rightarrow> nat \<Rightarrow> nat \<Rightarrow> client \<Rightarrow> bool \<times> client" where
  "connect_loop E maxAttempts attempt c =
     (if attempt < maxAttempts
      then (case connect_attempt E maxAttempts attempt c of
              (Some result, c') \<Rightarrow> (result, c')
            | (None, c') \<Rightarrow> connect_loop E maxAttempts (attempt + 1) c')
      else (False, setState C_DISCONNECTED
              ''[FAULT] Unable to claim a unique aircraft ID automatically. Try passing one explicitly.'' c))"
  by pat_completeness auto
termination by (relation "measure (\<lambda>(E, maxAttempts, attempt, c). maxAttempts - attempt)") auto

declare connect_loop.simps [simp del]

definition connectSession :: "client_host \<Rightarrow> client \<Rightarrow> bool \<times> client" where
  "connectSession E c = connect_loop E (if explicitId c then 1 else kMaxAutoIdAttempts) 0 c"


subsection \<open>What the operations leave alone\<close>

text \<open>
  Texts, logs and the state label do not touch the connection: the socket, the flags, the
  identity and the history.
\<close>

definition same_connection :: "client \<Rightarrow> client \<Rightarrow> bool" where
  "same_connection c c' \<longleftrightarrow>
     csocket c' = csocket c \<and> running c' = running c \<and> cid c' = cid c \<and> explicitId c' = explicitId c \<and>
     closed c' = closed c \<and> opened c' = opened c \<and> socket_calls c' = socket_calls c \<and>
     (\<forall>h. closes (cnet c' h) = closes (cnet c h))"

lemma same_connection_refl [simp]: "same_connection c c"
  by (simp add: same_connection_def)

lemma same_connection_trans: "same_connection c c1 \<Longrightarrow> same_connection c1 c2 \<Longrightarrow> same_connection c c2"
  by (simp add: same_connection_def)

lemma same_connection_small [simp]:
  "same_connection c (setState s m c)" "same_connection c (printLine l c)"
  "same_connection c (printStatus s c)" "same_connection c (client_logPacket E d hdr c)"
  "same_connection c (client_logFault E cause st n c)" "same_connection c (client_logInfo E l c)"
  "same_connection c (c\<lparr>nextSequence := n\<rparr>)" "same_connection c (c\<lparr>fileTransferActive := b\<rparr>)"
  "same_connection c (c\<lparr>receiverAlive := b\<rparr>)"
  by (simp_all add: same_connection_def setState_def printLine_def printStatus_def Let_def
      client_logPacket_def client_logFault_def client_logInfo_def clock_tick_def)

lemma same_connection_sendAll: "client_sendAll bs c = (ok, c') \<Longrightarrow> same_connection c c'"
  using net_closes(2) [of "cnet c" "csocket c" bs]
  by (auto simp: client_sendAll_def same_connection_def split: if_splits prod.splits)

lemma same_connection_recvAll: "client_recvAll k c = (r, c') \<Longrightarrow> same_connection c c'"
  using net_closes(1) [of "cnet c" "csocket c" k]
  by (auto simp: client_recvAll_def same_connection_def split: if_splits prod.splits)

lemma same_connection_recv: "client_recv k c = (r, c') \<Longrightarrow> same_connection c c'"
  using sock_closes(1) [of "cnet c (csocket c)" k]
  by (auto simp: client_recv_def same_connection_def split: if_splits prod.splits)

lemma same_connection_sendPacket: "sendPacketLocked hdr p c = (ok, c') \<Longrightarrow> same_connection c c'"
  by (auto simp: sendPacketLocked_def split: prod.splits bool.splits if_splits
      intro: same_connection_trans dest!: same_connection_sendAll)

subsection \<open>The descriptors\<close>

text \<open>
  Every descriptor is closed at most once, and the sockets opened but not closed are the current
  one, if it is open, and no other.
\<close>

definition descriptors_ok :: "client \<Rightarrow> bool" where
  "descriptors_ok c \<longleftrightarrow>
     (\<forall>h. closes (cnet c h) \<le> 1) \<and> opened c = closed c + (if socket_live c then 1 else 0)"

lemma socket_live_same: "same_connection c c' \<Longrightarrow> socket_live c' = socket_live c"
  by (simp add: same_connection_def socket_live_def)

lemma descriptors_same: "same_connection c c' \<Longrightarrow> descriptors_ok c' = descriptors_ok c"
  using socket_live_same [of c c'] by (simp add: same_connection_def descriptors_ok_def)

lemma descriptors_open:
  assumes "descriptors_ok c" "csocket c = INVALID_SOCK"
  shows "descriptors_ok (open_socket E c)"
    "csocket (open_socket E c) \<noteq> INVALID_SOCK \<Longrightarrow> socket_live (open_socket E c)"
  using assms by (auto simp: descriptors_ok_def open_socket_def socket_live_def Let_def fresh_socket_def)

lemma do_close_closes:
  "csocket c \<noteq> INVALID_SOCK \<Longrightarrow>
     closes (cnet (do_close c) h) = (if h = csocket c then closes (cnet c h) + 1 else closes (cnet c h))"
  by (simp add: do_close_def closeSocket_def)

lemma descriptors_close:
  assumes "descriptors_ok c" "csocket c \<noteq> INVALID_SOCK \<Longrightarrow> socket_live c"
  shows "descriptors_ok (closeSocketIfOpen c)" "csocket (closeSocketIfOpen c) = INVALID_SOCK"
  using assms do_close_closes [of c]
  by (auto simp: descriptors_ok_def closeSocketIfOpen_def socket_live_def do_close_def closeSocket_def)

lemma closeSocketIfOpen_frame [simp]:
  "running (closeSocketIfOpen c) = running c" "cid (closeSocketIfOpen c) = cid c"
  "explicitId (closeSocketIfOpen c) = explicitId c" "socket_calls (closeSocketIfOpen c) = socket_calls c"
  "currentState (closeSocketIfOpen c) = currentState c"
  "currentStateMessage (closeSocketIfOpen c) = currentStateMessage c"
  by (simp_all add: closeSocketIfOpen_def do_close_def)

lemma setState_sets [simp]:
  "currentState (setState s m c) = s" "currentStateMessage (setState s m c) = m"
  by (simp_all add: setState_def)

subsection \<open>The outcome of connecting\<close>

definition claim_message :: string where
  "claim_message = ''[FAULT] Unable to claim a unique aircraft ID automatically. Try passing one explicitly.''"

text \<open>What one pass of the loop leaves, from a client \<open>c0\<close> without a connection.\<close>

definition attempt_result ::
  "client_host \<Rightarrow> nat \<Rightarrow> nat \<Rightarrow> client \<Rightarrow> bool option \<times> client \<Rightarrow> bool" where
  "attempt_result E maxAttempts attempt c0 rc \<longleftrightarrow>
     (case rc of (r, c) \<Rightarrow>
        descriptors_ok c \<and> socket_calls c = Suc (socket_calls c0) \<and> explicitId c = explicitId c0 \<and>
        (case r of
           Some True \<Rightarrow> running c \<and> socket_live c \<and> currentState c = C_CONNECTED \<and> cid c = cid c0
         | Some False \<Rightarrow>
             \<not> running c \<and> csocket c = INVALID_SOCK \<and> cid c = cid c0 \<and>
             currentState c \<in> {C_FAULT, C_DISCONNECTED} \<and> currentStateMessage c \<notin> {[], claim_message}
         | None \<Rightarrow>
             \<not> running c \<and> csocket c = INVALID_SOCK \<and> \<not> explicitId c \<and> attempt + 1 < maxAttempts \<and>
             cid c = generateAutoAircraftId (ch_base E) (word_of_nat (attempt + 1))))"

text \<open>Giving up: the state is set, the socket closed.\<close>

lemma attempt_failed:
  assumes "descriptors_ok c" "socket_live c" "\<not> running c" "explicitId c = explicitId c0" "cid c = cid c0"
    "socket_calls c = Suc (socket_calls c0)" "s \<in> {C_FAULT, C_DISCONNECTED}" "m \<notin> {[], claim_message}"
  shows "attempt_result E M a c0 (Some False, closeSocketIfOpen (setState s m c))"
    "attempt_result E M a c0 (Some False, setState s m (closeSocketIfOpen c))"
proof -
  have sc: "same_connection c (setState s m c)" by simp
  have l: "csocket c \<noteq> INVALID_SOCK \<Longrightarrow> socket_live c" using assms(2) by simp
  have l': "csocket (setState s m c) \<noteq> INVALID_SOCK \<Longrightarrow> socket_live (setState s m c)"
    using assms(2) socket_live_same [OF sc] by simp
  note d = descriptors_close [OF assms(1) l]
  have "descriptors_ok (setState s m c)" using assms(1) descriptors_same [OF sc] by simp
  note d' = descriptors_close [OF this l']
  show "attempt_result E M a c0 (Some False, closeSocketIfOpen (setState s m c))"
    using d' assms by (simp add: attempt_result_def setState_def)
  have "same_connection (closeSocketIfOpen c) (setState s m (closeSocketIfOpen c))" by simp
  from descriptors_same [OF this] d assms
  show "attempt_result E M a c0 (Some False, setState s m (closeSocketIfOpen c))"
    by (simp add: attempt_result_def setState_def)
qed

lemma handshake_answer_result:
  assumes "descriptors_ok c" "socket_live c" "\<not> running c" "explicitId c = explicitId c0" "cid c = cid c0"
    "socket_calls c = Suc (socket_calls c0)"
  shows "attempt_result E M a c0 (handshake_answer E M a response c)"
proof -
  have l: "csocket c \<noteq> INVALID_SOCK \<Longrightarrow> socket_live c" using assms(2) by simp
  note d = descriptors_close [OF assms(1) l]
  consider (ack) "packet_type response = HANDSHAKE_ACK"
    | (retry) "packet_type response = HANDSHAKE_FAIL" "\<not> explicitId c" "a + 1 < M"
    | (reject) "packet_type response \<noteq> HANDSHAKE_ACK"
        "\<not> (packet_type response = HANDSHAKE_FAIL \<and> \<not> explicitId c \<and> a + 1 < M)"
    by blast
  then show ?thesis
  proof cases
    case ack
    have "descriptors_ok ((setState C_CONNECTED m c)\<lparr>running := True\<rparr>) \<and>
        socket_live ((setState C_CONNECTED m c)\<lparr>running := True\<rparr>)" for m
      using assms(1,2) by (simp add: descriptors_ok_def socket_live_def setState_def)
    with ack assms show ?thesis
      by (simp add: handshake_answer_def attempt_result_def setState_def)
  next
    case retry
    have "descriptors_ok (printLine l ((closeSocketIfOpen c)\<lparr>cid := i\<rparr>))" for l i
      using d(1) by (simp add: descriptors_ok_def socket_live_def printLine_def)
    with retry d assms show ?thesis
      by (simp add: handshake_answer_def attempt_result_def Let_def printLine_def)
  next
    case reject
    have m: "''[FAULT] Handshake rejected by server. Aircraft ID may already be in use.'' \<notin> {[], claim_message}"
      "''[FAULT] Unexpected handshake response from server.'' \<notin> {[], claim_message}"
      by (simp_all add: claim_message_def)
    have s: "C_DISCONNECTED \<in> {C_FAULT, C_DISCONNECTED}" by simp
    from attempt_failed(2) [OF assms s m(1), of E M a] attempt_failed(2) [OF assms s m(2), of E M a] reject
    show ?thesis by (auto simp: handshake_answer_def Let_def)
  qed
qed


text \<open>The connection an attempt works on: open, and otherwise as \<open>c0\<close> was.\<close>

definition attempt_started :: "client \<Rightarrow> client \<Rightarrow> bool" where
  "attempt_started c0 c \<longleftrightarrow>
     descriptors_ok c \<and> socket_live c \<and> \<not> running c \<and> explicitId c = explicitId c0 \<and>
     cid c = cid c0 \<and> socket_calls c = Suc (socket_calls c0)"

lemma attempt_started_same: "attempt_started c0 c \<Longrightarrow> same_connection c c' \<Longrightarrow> attempt_started c0 c'"
  using descriptors_same [of c c'] socket_live_same [of c c']
  by (simp add: attempt_started_def same_connection_def)

lemma attempt_started_failed:
  assumes "attempt_started c0 c" "m \<notin> {[], claim_message}"
  shows "attempt_result E M a c0 (Some False, closeSocketIfOpen (setState C_FAULT m c))"
  using assms unfolding attempt_started_def by (intro attempt_failed(1)) auto

lemma handshake_exchange_result:
  assumes "attempt_started c0 c"
  shows "attempt_result E M a c0 (handshake_exchange E M a c)"
proof -
  let ?hs = "makeHeader HANDSHAKE_REQUEST (cid c) (nextSequence c) 0 0"
  let ?c1 = "c\<lparr>nextSequence := nextSequence c + 1\<rparr>"
  obtain ok c2 where s: "sendPacketLocked ?hs [] ?c1 = (ok, c2)" by (cases "sendPacketLocked ?hs [] ?c1")
  have "same_connection ?c1 c2" using same_connection_sendPacket [OF s] .
  then have st2: "attempt_started c0 c2"
    using assms attempt_started_same same_connection_trans same_connection_small(7) by blast
  show ?thesis
  proof (cases ok)
    case False
    then show ?thesis
      using attempt_started_failed [OF st2] s by (simp add: handshake_exchange_def Let_def claim_message_def)
  next
    case True
    let ?c2 = "client_logPacket E ''TX'' ?hs c2"
    obtain r c3 where r: "client_recvAll header_size ?c2 = (r, c3)" by (cases "client_recvAll header_size ?c2")
    have st3: "attempt_started c0 c3"
      using st2 attempt_started_same same_connection_small(4) same_connection_recvAll [OF r] by blast
    show ?thesis
    proof (cases r)
      case None
      then show ?thesis
        using attempt_started_failed [OF st3] s r True
        by (simp add: handshake_exchange_def Let_def claim_message_def)
    next
      case (Some bs)
      have "attempt_started c0 (client_logPacket E ''RX'' (header_of_bytes bs) c3)"
        using st3 attempt_started_same same_connection_small(4) by blast
      then have "attempt_result E M a c0 (handshake_answer E M a (header_of_bytes bs)
          (client_logPacket E ''RX'' (header_of_bytes bs) c3))"
        unfolding attempt_started_def by (intro handshake_answer_result) auto
      with s r True Some show ?thesis by (simp add: handshake_exchange_def Let_def)
    qed
  qed
qed

text \<open>A client that has no connection.\<close>

definition unconnected :: "client \<Rightarrow> bool" where
  "unconnected c \<longleftrightarrow> descriptors_ok c \<and> csocket c = INVALID_SOCK \<and> \<not> running c"

lemma connect_attempt_result:
  assumes "unconnected c"
  shows "attempt_result E M a c (connect_attempt E M a c)"
proof -
  let ?c = "c\<lparr>nextSequence := 1\<rparr>"
  let ?c1 = "open_socket E ?c"
  have d: "descriptors_ok ?c" "csocket ?c = INVALID_SOCK"
    using assms descriptors_same [OF same_connection_small(7)] by (simp_all add: unconnected_def)
  note o = descriptors_open [OF d, of E]
  have f: "running ?c1 = running c" "explicitId ?c1 = explicitId c" "cid ?c1 = cid c"
    "socket_calls ?c1 = Suc (socket_calls c)"
    by (simp_all add: open_socket_def Let_def)
  show ?thesis
  proof (cases "csocket ?c1 = INVALID_SOCK")
    case True
    have "descriptors_ok (setState C_FAULT m ?c1)" for m
      using o(1) descriptors_same same_connection_small(1) by blast
    with True f assms show ?thesis
      by (simp add: connect_attempt_def Let_def attempt_result_def setState_def unconnected_def claim_message_def)
  next
    case False
    let ?c2 = "setState C_HANDSHAKE_PENDING ''[PENDING] Connecting to ground control...'' ?c1"
    have "attempt_started c ?c1"
      using o(1) o(2) [OF False] f assms by (simp add: attempt_started_def unconnected_def)
    then have st: "attempt_started c ?c2" using attempt_started_same same_connection_small(1) by blast
    from handshake_exchange_result [OF this, of E M a]
      attempt_started_failed [OF st, of "''[FAULT] Unable to connect to ground control.''" E M a] False
    show ?thesis by (simp add: connect_attempt_def Let_def claim_message_def)
  qed
qed

definition ended_clean :: "bool \<Rightarrow> client \<Rightarrow> bool" where
  "ended_clean ok c \<longleftrightarrow>
     (if ok then running c \<and> socket_live c \<and> currentState c = C_CONNECTED
      else \<not> running c \<and> csocket c = INVALID_SOCK \<and>
        currentState c \<in> {C_FAULT, C_DISCONNECTED} \<and> currentStateMessage c \<notin> {[], claim_message})"

lemma connect_loop_result:
  assumes "unconnected c" "a < M" "connect_loop E M a c = (ok, c')"
  shows "descriptors_ok c' \<and> explicitId c' = explicitId c \<and>
    socket_calls c < socket_calls c' \<and> socket_calls c' \<le> socket_calls c + (M - a) \<and>
    (cid c' = cid c \<or> \<not> explicitId c \<and>
       (\<exists>k. a < k \<and> k < M \<and> cid c' = generateAutoAircraftId (ch_base E) (word_of_nat k))) \<and> ended_clean ok c'"
  using assms
proof (induction "M - a" arbitrary: a c rule: less_induct)
  case less
  obtain r c1 where r: "connect_attempt E M a c = (r, c1)" by (cases "connect_attempt E M a c")
  have res: "attempt_result E M a c (r, c1)" using connect_attempt_result [OF less.prems(1), of E M a] r by simp
  show ?case
  proof (cases r)
    case (Some b)
    with less.prems r have "ok = b" "c' = c1" by (simp_all add: connect_loop.simps [of E M a])
    with res Some less.prems(2) show ?thesis by (cases b) (simp_all add: attempt_result_def ended_clean_def)
  next
    case None
    with less.prems r have rec: "connect_loop E M (a + 1) c1 = (ok, c')"
      by (simp add: connect_loop.simps [of E M a])
    have a1: "a + 1 < M" and u1: "unconnected c1" and c1: "explicitId c1 = explicitId c" "\<not> explicitId c"
      "socket_calls c1 = Suc (socket_calls c)"
      "cid c1 = generateAutoAircraftId (ch_base E) (word_of_nat (a + 1))"
      using res None by (auto simp: attempt_result_def unconnected_def)
    have "M - (a + 1) < M - a" using a1 by simp
    note IH = less.hyps [OF this u1 a1 rec]
    have "\<exists>k. a < k \<and> k < M \<and> cid c' = generateAutoAircraftId (ch_base E) (word_of_nat k)"
    proof (cases "cid c' = cid c1")
      case True
      with c1(4) a1 show ?thesis by (intro exI [of _ "a + 1"]) simp
    next
      case False
      with IH obtain k where "a + 1 < k" "k < M" "cid c' = generateAutoAircraftId (ch_base E) (word_of_nat k)"
        by blast
      then show ?thesis by (intro exI [of _ k]) simp
    qed
    moreover have "socket_calls c < socket_calls c'" "socket_calls c' \<le> socket_calls c + (M - a)"
      using IH a1 c1(3) by linarith+
    ultimately show ?thesis using IH c1(1,2) by simp
  qed
qed

lemma connect_ends:
  assumes "unconnected c" "connectSession E c = (ok, c')"
  shows "descriptors_ok c' \<and>
    socket_calls c < socket_calls c' \<and>
    socket_calls c' \<le> socket_calls c + (if explicitId c then 1 else 8) \<and>
    (cid c' = cid c \<or> \<not> explicitId c \<and>
       (\<exists>k. 0 < k \<and> k < 8 \<and> cid c' = generateAutoAircraftId (ch_base E) (word_of_nat k))) \<and>
    ended_clean ok c'"
proof -
  have l: "connect_loop E (if explicitId c then 1 else kMaxAutoIdAttempts) 0 c = (ok, c')"
    using assms(2) by (simp add: connectSession_def)
  have pos: "0 < (if explicitId c then 1 else kMaxAutoIdAttempts)" by (simp add: kMaxAutoIdAttempts_def)
  from connect_loop_result [OF assms(1) pos l] show ?thesis
    by (auto simp: kMaxAutoIdAttempts_def split: if_splits)
qed

text \<open>
  C16. Connecting always comes to an end in one of two clean states, whatever the network, the server
  and the clock do: after one attempt for an explicit id and at most eight otherwise, the client
  is either connected and running on an open socket, or not running without a socket and with a
  reason on display, which is never the one of the code behind the loop; the descriptors opened
  for attempts that failed were closed, each once; an explicit id is never changed, and another
  id only to one of the seven retry ids.
\<close>

theorem connect_ends_clean:
  assumes "unconnected c" "connectSession E c = (ok, c')"
  shows "descriptors_ok c' \<and>
    socket_calls c < socket_calls c' \<and>
    socket_calls c' \<le> socket_calls c + (if explicitId c then 1 else 8) \<and>
    (cid c' = cid c \<or> \<not> explicitId c \<and>
       (\<exists>k. 0 < k \<and> k < 8 \<and> cid c' = generateAutoAircraftId (ch_base E) (word_of_nat k))) \<and>
    (if ok then running c' \<and> socket_live c' \<and> currentState c' = C_CONNECTED
     else \<not> running c' \<and> csocket c' = INVALID_SOCK \<and> opened c' = closed c' \<and>
       currentState c' \<in> {C_FAULT, C_DISCONNECTED} \<and> currentStateMessage c' \<notin> {[], claim_message})"
proof -
  have "opened c' = closed c'" if "csocket c' = INVALID_SOCK" "descriptors_ok c'"
    using that by (simp add: descriptors_ok_def socket_live_def)
  with connect_ends [OF assms] show ?thesis by (auto simp: ended_clean_def split: if_splits)
qed

subsection \<open>A connection that is accepted\<close>

lemma connect_accepted:
  assumes "ch_socket E (socket_calls c) \<noteq> INVALID_SOCK" "ch_resolve E (Suc (socket_calls c)) = Some outcomes"
    "list_ex id outcomes" "tx (ch_traffic E (socket_calls c)) = Accepts k # es" "header_size \<le> k"
    "sock_readable (ch_traffic E (socket_calls c)) = header_bytes ack @ rest" "wf_header ack"
    "packet_type ack = HANDSHAKE_ACK"
  shows "\<exists>c'. connectSession E c = (True, c') \<and> sock_readable (cnet c' (csocket c')) = rest \<and>
    csocket c' = ch_socket E (socket_calls c) \<and> saved c' = saved c \<and> cid c' = cid c \<and>
    outb (cnet c' (csocket c')) = handshake_packet (cid c) 1 \<and> tx (cnet c' (csocket c')) = es \<and>
    fileTransferActive c' = fileTransferActive c"
proof -
  let ?h = "ch_socket E (socket_calls c)"
  define c1 where "c1 = setState C_HANDSHAKE_PENDING ''[PENDING] Connecting to ground control...''
    (open_socket E (c\<lparr>nextSequence := 1\<rparr>))"
  define c2 where "c2 = c1\<lparr>nextSequence := nextSequence c1 + 1\<rparr>"
  define hs where "hs = makeHeader HANDSHAKE_REQUEST (cid c1) (nextSequence c1) 0 0"
  have hs: "length (header_bytes hs) = header_size" "payload_size hs = 0"
    by (simp_all add: hs_def length_header_bytes wf_type_def)
  have c2: "csocket c2 = ?h" "cnet c2 ?h = fresh_socket (ch_traffic E (socket_calls c))"
    "saved c2 = saved c" "cid c2 = cid c" "fileTransferActive c2 = fileTransferActive c"
    using assms(1) by (simp_all add: c2_def c1_def setState_def open_socket_def Let_def)
  have live: "socket_live c2" using assms(1) by (simp add: socket_live_def c2 fresh_socket_def)
  obtain ok n where n: "net_sendAll (cnet c2) ?h (header_bytes hs) = (ok, n)"
    by (cases "net_sendAll (cnet c2) ?h (header_bytes hs)")
  have "tx (cnet c2 ?h) = Accepts k # es" using assms(4) by (simp add: c2 fresh_socket_def)
  moreover have "length (header_bytes hs) \<le> k" "header_bytes hs \<noteq> []" "length (header_bytes hs) \<le> max_chunk"
    using hs(1) assms(5) by (auto simp: header_size_def max_chunk_def)
  ultimately have ok: "ok" and tx: "tx (n ?h) = es"
    using net_sendAll_whole [of "cnet c2" ?h k es "header_bytes hs"] n by auto
  define c3 where "c3 = client_logPacket E ''TX'' hs (c2\<lparr>cnet := n\<rparr>)"
  have snd: "sendPacketLocked hs [] c2 = (True, c2\<lparr>cnet := n\<rparr>)"
    using n ok hs(2) live by (simp add: sendPacketLocked_def client_sendAll_def c2)
  have rd: "sock_readable (n ?h) = header_bytes ack @ rest"
    using net_sendAll_readable [OF n] assms(6) by (simp add: c2 fresh_socket_def sock_readable_def)
  have "cid c1 = cid c" "nextSequence c1 = 1"
    using assms(1) by (simp_all add: c1_def setState_def open_socket_def Let_def)
  then have out: "outb (n ?h) = handshake_packet (cid c) 1"
    using net_sendAll_True [of "cnet c2" ?h "header_bytes hs" n] n ok c2(2)
    by (simp add: hs_def handshake_packet_def packet_bytes_def fresh_socket_def)
  have cl: "closes (n ?h) = 0" using net_closes(2) [OF n, of ?h] by (simp add: c2 fresh_socket_def)
  have c3: "csocket c3 = ?h" "cnet c3 = n" "saved c3 = saved c" "cid c3 = cid c"
    "fileTransferActive c3 = fileTransferActive c"
    by (simp_all add: c3_def client_logPacket_def clock_tick_def c2)
  have ack: "length (header_bytes ack) = header_size" using length_header_bytes [OF assms(7)] .
  obtain r m where m: "net_recvAll n ?h header_size = (r, m)" by (cases "net_recvAll n ?h header_size")
  have r: "r = Some (header_bytes ack)" using net_recvAll_value [of n ?h header_size] m rd ack by simp
  have rest: "sock_readable (m ?h) = rest" using net_recvAll_Some [of n ?h header_size _ m] m r rd ack by simp
  have rcv: "client_recvAll header_size c3 = (Some (header_bytes ack), c3\<lparr>cnet := m\<rparr>)"
    using m r cl assms(1) by (simp add: client_recvAll_def socket_live_def c3)
  have "connect_attempt E M 0 c = (Some True, (setState C_CONNECTED ''[CONNECTED] Handshake verified. Channel secure.''
      (client_logPacket E ''RX'' ack (c3\<lparr>cnet := m\<rparr>)))\<lparr>running := True\<rparr>)" for M
  proof -
    have "csocket (open_socket E (c\<lparr>nextSequence := 1\<rparr>)) \<noteq> INVALID_SOCK" "resolveAndConnect E c1"
      using assms(1-3) by (simp_all add: c1_def setState_def open_socket_def Let_def resolveAndConnect_def)
    then show ?thesis
      using snd rcv header_of_header_bytes [OF assms(7)] assms(8)
      by (simp add: connect_attempt_def handshake_exchange_def handshake_answer_def Let_def
          c1_def [symmetric] c2_def [symmetric] hs_def [symmetric] c3_def [symmetric])
  qed
  then show ?thesis
    using c3 rest out tx net_recvAll_outb [OF m, of ?h] net_recvAll_tx [OF m, of ?h]
    by (simp add: connectSession_def connect_loop.simps [of E _ 0] kMaxAutoIdAttempts_def setState_def
        client_logPacket_def clock_tick_def)
qed

definition example_client_host :: "byte list \<Rightarrow> client_host" where
  "example_client_host bs =
     \<lparr> ch_clock = (\<lambda>i. 1700000000000 + i), ch_socket = (\<lambda>i. 3),
       ch_traffic = (\<lambda>i. \<lparr> rx = [RecvBytes (header_bytes (makeHeader HANDSHAKE_ACK ''AC-001'' 1 0 0) @ bs)],
                      tx = Accepts 64 # replicate 3 (Accepts 64), outb = [], shut_all = False, shut_wr = False, closes = 0 \<rparr>),
       ch_resolve = (\<lambda>i. Some [False, True]), ch_select = (\<lambda>i hs tv. (1, hs)), ch_malloc = (\<lambda>n. True),
       ch_draws = (\<lambda>i. \<lparr> draw_lat = 5, draw_lon = 5, draw_alt = 5, draw_speed = 3 \<rparr>), ch_base = 0 \<rparr>"

definition example_client :: client where
  "example_client =
     new_client \<lparr> opt_host = ''localhost'', opt_port = 5000, opt_aircraftId = ''AC-001'',
                   opt_aircraftIdExplicit = False \<rparr>
       (new_logger ''aircraft'' ''logs'' 0 1)
       (\<lambda>h. \<lparr> rx = [], tx = [], outb = [], shut_all = False, shut_wr = False, closes = 0 \<rparr>)"

lemma example_unconnected: "unconnected example_client"
  by (simp add: unconnected_def example_client_def new_client_def descriptors_ok_def socket_live_def)

lemma example_connects:
  "\<exists>c'. connectSession (example_client_host bs) example_client = (True, c') \<and>
     sock_readable (cnet c' (csocket c')) = bs \<and> csocket c' = 3 \<and> saved c' = [] \<and> cid c' = ''AC-001'' \<and>
     outb (cnet c' (csocket c')) = handshake_packet ''AC-001'' 1"
proof -
  have "sock_readable (ch_traffic (example_client_host bs) i) =
      header_bytes (makeHeader HANDSHAKE_ACK ''AC-001'' 1 0 0) @ bs" for i
    by (simp add: example_client_host_def sock_readable_def header_bytes_def)
  note rd = this
  have t: "tx (ch_traffic (example_client_host bs) i) = Accepts 64 # replicate 3 (Accepts 64)" for i
    by (simp add: example_client_host_def)
  have h: "ch_socket (example_client_host bs) i \<noteq> INVALID_SOCK"
    "ch_resolve (example_client_host bs) i = Some [False, True]" for i
    by (simp_all add: example_client_host_def INVALID_SOCK_def)
  have wf: "wf_header (makeHeader HANDSHAKE_ACK ''AC-001'' 1 0 0)" by (simp add: wf_type_def)
  have le: "header_size \<le> 64" by (simp add: header_size_def)
  have "ch_socket (example_client_host bs) i = 3" for i by (simp add: example_client_host_def)
  moreover have "saved example_client = []" "cid example_client = ''AC-001''"
    by (simp_all add: example_client_def new_client_def)
  ultimately show ?thesis using connect_accepted [OF h(1) h(2) _ t le rd wf, of example_client] by auto
qed

theorem connect_ends_clean_witness:
  "\<exists>c'. connectSession (example_client_host []) example_client = (True, c') \<and> running c' \<and> socket_live c' \<and>
     opened c' = closed c' + 1"
proof -
  obtain c' where c: "connectSession (example_client_host []) example_client = (True, c')"
    using example_connects [of "[]"] by blast
  from connect_ends_clean [OF example_unconnected c] show ?thesis
    by (simp add: c descriptors_ok_def)
qed

end
