(* ===== verification/Client_Threads.thy ===== *)
theory Client_Threads
  imports Aircraft_Client
begin

text \<open>
  The threads of the client: \<open>telemetryLoop\<close>, \<open>receiverLoop\<close> and \<open>receiveLargeFile\<close> of
  \<open>client/aircraft_client.cpp\<close>, and the main thread's menu loop of \<open>client/client_app.cpp\<close> with
  the operations it calls while the other two run. A thread is the list of the instructions it
  has still to execute; an instruction is one access to what the threads share (an atomic flag,
  a critical section, the plain members \<open>socket\<close> and \<open>nextSequence\<close>) or one system call, and
  a branch or a loop puts the instructions of its outcome in front of the list.
  \<open>recvAll\<close> (only the receiver reads) and \<open>sendPacketLocked\<close> (a critical section) count as one
  step each, and so does connecting, during which no other thread of the client runs.
\<close>

subsection \<open>Instructions\<close>

datatype thread = Main | Telemetry_Thread | Receiver_Thread

text \<open>Instructions without a branch.\<close>

datatype op =
    Set_State ClientState string
  | Store_Running bool
  | Store_Transfer bool
  | Store_Alive bool
  | Store_Sequence u32
  | Print_Line string
  | Show_Status ClientState
  | Log_Packet string PacketHeader
  | Log_Fault string string u32
  | Log_Info string
  | Shutdown
  | Shutdown_Send
  | Close
  | Forget

text \<open>What a sequence number is taken for.\<close>

datatype purpose = For_Telemetry TelemetryPayload | For_Map | For_Disconnect

datatype call =
    Print_Status
  | Fault_Here string
  | Take_Sequence purpose
  | Send_Packet purpose u32
  | Disconnect_Session
  | Disconnect_Exchange
  | Close_If_Open

datatype tel_point = Tel_While | Tel_Transfer | Tel_Tick

datatype rcv_point =
    Recv_While | Recv_Wait | Recv_Header | Recv_Broken | Recv_Payload PacketHeader

datatype file_point =
    File_Alloc PacketHeader
  | File_While PacketHeader "byte list"
  | File_Recv PacketHeader "byte list"
  | File_Broken PacketHeader
  | File_Check PacketHeader "byte list"
  | File_Save PacketHeader "byte list"

datatype menu_point =
    Menu_While | Menu_Show | Menu_Poll | Menu_Connect | Spawn
  | Session_While | Session_Show | Session_Poll | Request_Returned bool | Join thread | Session_Ended

datatype instr =
    Do op
  | Call call
  | Tel tel_point
  | Rcv rcv_point
  | File file_point
  | Menu menu_point

subsection \<open>Instructions without a branch\<close>

fun perform :: "client_host \<Rightarrow> op \<Rightarrow> client \<Rightarrow> client" where
  "perform E (Set_State s m) c = setState s m c"
| "perform E (Store_Running b) c = c\<lparr>running := b\<rparr>"
| "perform E (Store_Transfer b) c = c\<lparr>fileTransferActive := b\<rparr>"
| "perform E (Store_Alive b) c = c\<lparr>receiverAlive := b\<rparr>"
| "perform E (Store_Sequence n) c = c\<lparr>nextSequence := n\<rparr>"
| "perform E (Print_Line l) c = printLine l c"
| "perform E (Show_Status s) c = printStatus s c"
| "perform E (Log_Packet d hdr) c = client_logPacket E d hdr c"
| "perform E (Log_Fault cause st n) c = client_logFault E cause st n c"
| "perform E (Log_Info l) c = client_logInfo E l c"
| "perform E Shutdown c = c\<lparr>cnet := shutdownSocket (cnet c) (csocket c)\<rparr>"
| "perform E Shutdown_Send c = c\<lparr>cnet := shutdownSocketSend (cnet c) (csocket c)\<rparr>"
| "perform E Close c = do_close c"
| "perform E Forget c = c\<lparr>csocket := INVALID_SOCK\<rparr>"

definition lost_message :: string where
  "lost_message = ''[FAULT] Connection lost. Returning to main menu.''"

subsection \<open>Sending\<close>

definition telemetry_line :: "u32 \<Rightarrow> TelemetryPayload \<Rightarrow> string" where
  "telemetry_line n p =
     ''[TX] SEQ='' @ pad0 4 (dec (unat n)) @ '' | LAT='' @ fmt_fixed 4 (latitude p) @ '' LON='' @ fmt_fixed 4 (longitude p)
       @ '' ALT='' @ fmt_fixed 0 (altitude p) @ ''ft'' @ '' SPD='' @ fmt_fixed 1 (speed p) @ ''kts''
       @ '' HDG='' @ fmt_fixed 0 (heading p) @ ''deg''"

fun packet_for :: "purpose \<Rightarrow> string \<Rightarrow> u32 \<Rightarrow> PacketHeader \<times> byte list" where
  "packet_for (For_Telemetry p) i n =
     (let bs = telemetry_bytes p; len = word_of_nat telemetry_size
      in (makeHeader TELEMETRY_PACKET i n len (computeChecksum bs len), bs))"
| "packet_for For_Map i n = (makeHeader LARGE_FILE i n 0 0, [])"
| "packet_for For_Disconnect i n = (makeHeader DISCONNECT i n 0 0, [])"

text \<open>What follows a send, by its success: in the telemetry loop, in a map request, in a disconnect.\<close>

fun after_send :: "purpose \<Rightarrow> PacketHeader \<Rightarrow> bool \<Rightarrow> instr list" where
  "after_send (For_Telemetry p) hdr True =
     [Do (Log_Packet ''TX'' hdr), Do (Set_State C_TELEMETRY []),
      Do (Print_Line (telemetry_line (sequence_number hdr) p)), Tel Tel_While]"
| "after_send (For_Telemetry p) hdr False =
     [Do (Set_State C_FAULT lost_message),
      Do (Log_Fault ''TelemetrySendFailure'' (client_stateToString C_TELEMETRY) (sequence_number hdr)),
      Do (Store_Running False), Do Shutdown]"
| "after_send For_Map hdr True =
     [Do (Log_Packet ''TX'' hdr), Do (Print_Line ''[TX] Weather map request sent.''), Menu (Request_Returned True)]"
| "after_send For_Map hdr False =
     [Do (Set_State C_FAULT ''[FAULT] Unable to request weather map.''), Do (Store_Running False),
      Menu (Request_Returned False)]"
| "after_send For_Disconnect hdr True = [Do (Log_Packet ''TX'' hdr)]"
| "after_send For_Disconnect hdr False = []"

fun client_call :: "client_host \<Rightarrow> call \<Rightarrow> client \<Rightarrow> instr list \<times> client" where
  "client_call E Print_Status c = ([Do (Show_Status (currentState c))], c)"
| "client_call E (Fault_Here cause) c = ([Do (Log_Fault cause (client_stateToString (currentState c)) 0)], c)"
| "client_call E (Take_Sequence p) c =
     ([Do (Store_Sequence (nextSequence c + 1)), Call (Send_Packet p (nextSequence c))], c)"
| "client_call E (Send_Packet p n) c =
     (case packet_for p (cid c) n of (hdr, payload) \<Rightarrow>
        (case sendPacketLocked hdr payload c of (ok, c1) \<Rightarrow> (after_send p hdr ok, c1)))"
| "client_call E Disconnect_Session c =
     ((if csocket c = INVALID_SOCK then [] else [Call Disconnect_Exchange]), c)"
| "client_call E Disconnect_Exchange c =
     (if running c
      then ([Call (Take_Sequence For_Disconnect),
             Do (Set_State C_DISCONNECTED ''[INFO] Disconnected from ground control.''),
             Do (Store_Transfer False), Do Shutdown_Send], c\<lparr>running := False\<rparr>)
      else ([Do Close, Do Forget, Do (Store_Transfer False)], c))"
| "client_call E Close_If_Open c =
     ((if csocket c \<noteq> INVALID_SOCK then [Do Close, Do Forget] else []), c)"

subsection \<open>The telemetry thread\<close>

fun telemetryLoop :: "client_host \<Rightarrow> tel_point \<Rightarrow> client \<Rightarrow> instr list \<times> client" where
  "telemetryLoop E Tel_While c = ((if running c then [Tel Tel_Transfer] else []), c)"
| "telemetryLoop E Tel_Transfer c =
     ((if fileTransferActive c then [Tel Tel_While] else [Tel Tel_Tick]), c)"
| "telemetryLoop E Tel_Tick c =
     (let f = tick (ch_draws E (ticks c)) (flightSim c)
      in ([Call (Take_Sequence (For_Telemetry (telemetryPayload f)))], c\<lparr>flightSim := f, ticks := Suc (ticks c)\<rparr>))"

subsection \<open>The receiver thread\<close>

definition receiver_ends :: "instr list" where
  "receiver_ends = [Do (Store_Alive False)]"

fun receiverLoop :: "client_host \<Rightarrow> rcv_point \<Rightarrow> client \<Rightarrow> instr list \<times> client" where
  "receiverLoop E Recv_While c = ((if running c then [Rcv Recv_Wait] else receiver_ends), c)"
| "receiverLoop E Recv_Wait c =
     ((if waitForReadable (ch_select E (polls c)) (csocket c) 250 then [Rcv Recv_Header] else [Rcv Recv_While]),
      c\<lparr>polls := Suc (polls c), polled_dead := (polled_dead c \<or> \<not> socket_live c)\<rparr>)"
| "receiverLoop E Recv_Header c =
     (case client_recvAll header_size c of
        (None, c1) \<Rightarrow> ([Rcv Recv_Broken], c1)
      | (Some bs, c1) \<Rightarrow>
          (let header = header_of_bytes bs
           in if packet_type header = LARGE_FILE
              then ([Do (Store_Transfer True),
                     Do (Set_State C_LARGE_FILE_TRANSFER ''[RX] Receiving weather map...''),
                     File (File_Alloc header), Rcv Recv_While], c1)
              else if packet_type header = DISCONNECT
              then ([Do (Log_Packet ''RX'' header),
                     Do (Set_State C_DISCONNECTED ''[INFO] Server disconnected the session.''),
                     Do (Store_Running False), Rcv Recv_While], c1)
              else ([Rcv (Recv_Payload header)], c1)))"
| "receiverLoop E Recv_Broken c =
     ((if \<not> running c then receiver_ends
       else [Do (Set_State C_FAULT lost_message), Call (Fault_Here ''ReceiveFailure''),
             Do (Store_Running False)] @ receiver_ends), c)"
| "receiverLoop E (Recv_Payload header) c =
     (case (if 0 < payload_size header then client_recvAll (unat (payload_size header)) c else (Some [], c)) of
        (None, c1) \<Rightarrow>
          ([Do (Set_State C_FAULT lost_message), Call (Fault_Here ''UnexpectedPayloadReceiveFailure''),
            Do (Store_Running False), Rcv Recv_While], c1)
      | (Some bs, c1) \<Rightarrow> ([Do (Log_Packet ''RX'' header), Rcv Recv_While], c1))"

definition transfer_fault :: "string \<Rightarrow> string \<Rightarrow> PacketHeader \<Rightarrow> instr list" where
  "transfer_fault message cause header =
     [Do (Set_State C_FAULT message),
      Do (Log_Fault cause (client_stateToString C_LARGE_FILE_TRANSFER) (sequence_number header)),
      Do (Store_Running False), Do (Store_Transfer False), Do Shutdown]"

definition saved_line :: "string \<Rightarrow> u32 \<Rightarrow> string" where
  "saved_line path n =
     ''[RX] Weather map saved: '' @ path @ '' ('' @ fmt_fixed1 (double_div (of_nat (unat n)) 1048576) @ '' MB)''"

fun receiveLargeFile :: "client_host \<Rightarrow> file_point \<Rightarrow> client \<Rightarrow> instr list \<times> client" where
  "receiveLargeFile E (File_Alloc header) c =
     ((if ch_malloc E (payload_size header) then [File (File_While header [])]
       else [Do (Set_State C_FAULT ''[FAULT] Unable to allocate buffer for weather map.''),
             Do (Store_Running False)]), c)"
| "receiveLargeFile E (File_While header data) c =
     ((if length data < unat (payload_size header) \<and> running c
       then [File (File_Recv header data)] else [File (File_Check header data)]), c)"
| "receiveLargeFile E (File_Recv header data) c =
     (case client_recv (min 4096 (unat (payload_size header) - length data)) c of
        (None, c1) \<Rightarrow> ([File (File_Broken header)], c1)
      | (Some bs, c1) \<Rightarrow>
          (if bs = [] then ([File (File_Broken header)], c1)
           else ([Do (Print_Line (''[RX] Receiving weather map... '' @ dec (length (data @ bs)) @ ''/''
                    @ dec (unat (payload_size header)) @ '' bytes'')),
                  File (File_While header (data @ bs))], c1)))"
| "receiveLargeFile E (File_Broken header) c =
     ((if \<not> running c then [Do (Store_Transfer False)]
       else transfer_fault lost_message ''LargeFileReceiveFailure'' header), c)"
| "receiveLargeFile E (File_Check header data) c =
     ((if \<not> running c then [Do (Store_Transfer False)]
       else if computeChecksum data (payload_size header) \<noteq> checksum header
       then transfer_fault ''[FAULT] Weather map checksum mismatch.'' ''ChecksumMismatch'' header
       else [File (File_Save header data)]), c)"
| "receiveLargeFile E (File_Save header data) c =
     (let path = receivedWeatherMapPathFor (client_now E c) (cid c) (sequence_number header)
      in ([Do (Log_Packet ''RX'' header), Do (Log_Info (''Weather map saved: '' @ path)),
           Do (Set_State C_CONNECTED (''[CONNECTED] Weather map saved: '' @ path)),
           Do (Print_Line (saved_line path (payload_size header))), Do (Store_Transfer False)],
          (clock_tick c)\<lparr>saved := saved c @ [(path, data)]\<rparr>))"

subsection \<open>The main thread\<close>

record app =
  cl :: client
  inputLines :: "string list"
  printedDisconnectedMenu :: bool
  printedConnectedMenu :: bool
  prog :: "thread \<Rightarrow> instr list"

definition tryPopInput :: "app \<Rightarrow> string option \<times> app" where
  "tryPopInput a =
     (case inputLines a of
        [] \<Rightarrow> (None, a)
      | line # rest \<Rightarrow> (Some line, a\<lparr>inputLines := rest\<rparr>))"

definition normalizeChoice :: "string \<Rightarrow> string" where
  "normalizeChoice value =
     map (\<lambda>ch. if CHR ''a'' \<le> ch \<and> ch \<le> CHR ''z'' then char_of ((of_char ch :: nat) - 32) else ch) value"

text \<open>The end of a session: disconnect, wait for the threads, back to the menu.\<close>

definition session_over :: "instr list" where
  "session_over =
     [Call Disconnect_Session, Menu (Join Telemetry_Thread), Menu (Join Receiver_Thread), Menu Session_Ended]"

text \<open>\<open>resetToDisconnected\<close>, and the destructor of the client, which runs when \<open>run\<close> has returned.\<close>

definition resetToDisconnected :: "instr list" where
  [simp]: "resetToDisconnected = [Do (Set_State C_DISCONNECTED [])]"

definition destroy_client :: "instr list" where
  [simp]: "destroy_client = [Do (Store_Running False), Call Close_If_Open]"

fun menuLoop :: "client_host \<Rightarrow> menu_point \<Rightarrow> app \<Rightarrow> instr list \<times> app" where
  "menuLoop E Menu_While a =
     ((if running (cl a) then [Menu Menu_While] else [Call Close_If_Open, Menu Menu_Show]), a)"
| "menuLoop E Menu_Show a =
     (let a1 = a\<lparr>printedConnectedMenu := False\<rparr>
      in if printedDisconnectedMenu a1 then ([Menu Menu_Poll], a1)
         else ([Call Print_Status, Do (Print_Line ''[1] Connect to Ground Control  [Q] Quit''), Menu Menu_Poll],
               a1\<lparr>printedDisconnectedMenu := True\<rparr>))"
| "menuLoop E Menu_Poll a =
     (case tryPopInput a of
        (None, a1) \<Rightarrow> ([Menu Menu_While], a1)
      | (Some line, a1) \<Rightarrow>
          (let choice = normalizeChoice line
           in if choice = ''Q'' then (destroy_client, a1)
              else if choice = ''1'' then ([Menu Menu_Connect], a1\<lparr>printedDisconnectedMenu := False\<rparr>)
              else ([Menu Menu_While], a1)))"
| "menuLoop E Menu_Connect a =
     (case connectSession E (cl a) of
        (False, c) \<Rightarrow> ([Menu Menu_While], a\<lparr>cl := c\<rparr>)
      | (True, c) \<Rightarrow> ([Menu Spawn, Menu Session_While], a\<lparr>cl := c, printedConnectedMenu := False\<rparr>))"
| "menuLoop E Spawn a =
     ([], a\<lparr>prog := (prog a)(Telemetry_Thread := [Tel Tel_While],
                             Receiver_Thread := [Do (Store_Alive True), Rcv Recv_While])\<rparr>)"
| "menuLoop E Session_While a =
     ((if running (cl a) then [Menu Session_Show] else session_over), a)"
| "menuLoop E Session_Show a =
     (if printedConnectedMenu a then ([Menu Session_Poll], a)
      else ([Call Print_Status, Do (Print_Line ''[W] Request Weather Map  [D] Disconnect''), Menu Session_Poll],
            a\<lparr>printedConnectedMenu := True\<rparr>))"
| "menuLoop E Session_Poll a =
     (case tryPopInput a of
        (None, a1) \<Rightarrow> ([Menu Session_While], a1)
      | (Some line, a1) \<Rightarrow>
          (let command = normalizeChoice line
           in if command = ''W'' then ([Call (Take_Sequence For_Map)], a1)
              else if command = ''D'' then ([Call Disconnect_Session, Menu Session_While], a1)
              else ([Menu Session_While], a1)))"
| "menuLoop E (Request_Returned ok) a =
     (if ok then ([Menu Session_While], a\<lparr>printedConnectedMenu := False\<rparr>) else (session_over, a))"
| "menuLoop E (Join t) a = ([], a)"
| "menuLoop E Session_Ended a =
     ((if currentState (cl a) = C_FAULT then [Call Print_Status] else [])
        @ resetToDisconnected @ [Menu Menu_While],
      a\<lparr>printedDisconnectedMenu := False\<rparr>)"

subsection \<open>Interleaving\<close>

definition lift_client :: "(client \<Rightarrow> instr list \<times> client) \<Rightarrow> app \<Rightarrow> instr list \<times> app" where
  "lift_client f a = (case f (cl a) of (is, c) \<Rightarrow> (is, a\<lparr>cl := c\<rparr>))"

fun exec :: "client_host \<Rightarrow> instr \<Rightarrow> app \<Rightarrow> instr list \<times> app" where
  "exec E (Do oper) a = ([], a\<lparr>cl := perform E oper (cl a)\<rparr>)"
| "exec E (Call k) a = lift_client (client_call E k) a"
| "exec E (Tel p) a = lift_client (telemetryLoop E p) a"
| "exec E (Rcv p) a = lift_client (receiverLoop E p) a"
| "exec E (File p) a = lift_client (receiveLargeFile E p) a"
| "exec E (Menu p) a = menuLoop E p a"

definition ready :: "thread \<Rightarrow> app \<Rightarrow> bool" where
  "ready t a \<longleftrightarrow>
     (case prog a t of
        [] \<Rightarrow> False
      | i # is \<Rightarrow> (case i of Menu (Join t') \<Rightarrow> prog a t' = [] | _ \<Rightarrow> True))"

definition app_step :: "client_host \<Rightarrow> thread \<Rightarrow> app \<Rightarrow> app" where
  "app_step E t a =
     (case prog a t of
        [] \<Rightarrow> a
      | i # is \<Rightarrow> (case exec E i a of (js, a') \<Rightarrow> a'\<lparr>prog := (prog a')(t := js @ is)\<rparr>))"

text \<open>The banner \<open>run\<close> prints, and the state it starts from.\<close>

definition banner :: "ClientOptions \<Rightarrow> string list" where
  "banner options =
     [''===================================='', ''  AIRCRAFT CLIENT - '' @ opt_aircraftId options,
      ''====================================''] @
     (if opt_aircraftIdExplicit options then [] else [''  Auto-assigned aircraft ID''])"

definition start_app :: "ClientOptions \<Rightarrow> Logger \<Rightarrow> net \<Rightarrow> app" where
  "start_app options lg n =
     \<lparr> cl = (new_client options lg n)\<lparr>console := banner options\<rparr>, inputLines = [],
       printedDisconnectedMenu = False, printedConnectedMenu = False,
       prog = (\<lambda>t. if t = Main then [Menu Menu_While] else []) \<rparr>"

text \<open>Any thread that can takes a step; the input thread may deliver a line at any time.\<close>

inductive client_step :: "client_host \<Rightarrow> app \<Rightarrow> app \<Rightarrow> bool" for E where
  thread: "ready t a \<Longrightarrow> client_step E a (app_step E t a)"
| typed: "client_step E a (a\<lparr>inputLines := inputLines a @ [line]\<rparr>)"

inductive client_reachable :: "client_host \<Rightarrow> app \<Rightarrow> app \<Rightarrow> bool" for E and init where
  init: "client_reachable E init init"
| step: "client_reachable E init a \<Longrightarrow> client_step E a a' \<Longrightarrow> client_reachable E init a'"

end
