(* ===== verification/Client_Safety.thy ===== *)
theory Client_Safety
  imports Client_Threads
begin

text \<open>
  What holds at every point of every interleaving of the client's threads: the shape of what each
  thread has still to do, how long the workers can go on once the running flag is cleared, the
  account of the descriptors, and that a connection is only made when both workers are gone.
\<close>

subsection \<open>What the workers leave alone\<close>

definition worker_op :: "op \<Rightarrow> bool" where
  "worker_op oper \<longleftrightarrow> oper \<noteq> Close \<and> oper \<noteq> Forget \<and> oper \<noteq> Store_Running True"

text \<open>The socket, its account and, but for clearing it, the running flag.\<close>

definition keeps :: "client \<Rightarrow> client \<Rightarrow> bool" where
  "keeps c c' \<longleftrightarrow>
     csocket c' = csocket c \<and> opened c' = opened c \<and> closed c' = closed c \<and>
     (\<forall>h. closes (cnet c' h) = closes (cnet c h)) \<and> (running c' \<longrightarrow> running c)"

lemma keeps_refl [simp]: "keeps c c"
  by (simp add: keeps_def)

lemma keeps_same: "same_connection c c' \<Longrightarrow> keeps c c'"
  by (simp add: keeps_def same_connection_def)

lemma keeps_live: "keeps c c' \<Longrightarrow> socket_live c' = socket_live c"
  by (simp add: keeps_def socket_live_def)

lemma keeps_descriptors: "keeps c c' \<Longrightarrow> descriptors_ok c' = descriptors_ok c"
  using keeps_live [of c c'] by (simp add: keeps_def descriptors_ok_def)

lemma keeps_perform: "worker_op oper \<Longrightarrow> keeps c (perform E oper c)"
proof (cases oper)
  case Shutdown
  then show ?thesis by (simp add: keeps_def shutdownSocket_def)
next
  case Shutdown_Send
  then show ?thesis by (simp add: keeps_def shutdownSocketSend_def)
qed (auto simp: worker_op_def keeps_def intro!: keeps_same [unfolded keeps_def])

subsection \<open>What a worker has still to do\<close>

inductive tel_form :: "instr list \<Rightarrow> bool" where
  tel_nil: "tel_form []"
| tel_op: "worker_op oper \<Longrightarrow> tel_form is \<Longrightarrow> tel_form (Do oper # is)"
| tel_point: "tel_form [Tel p]"
| tel_take: "tel_form [Call (Take_Sequence (For_Telemetry p))]"
| tel_send: "tel_form [Call (Send_Packet (For_Telemetry p) n)]"

inductive rcv_form :: "instr list \<Rightarrow> bool" where
  rcv_nil: "rcv_form []"
| rcv_op: "worker_op oper \<Longrightarrow> rcv_form is \<Longrightarrow> rcv_form (Do oper # is)"
| rcv_fault: "rcv_form is \<Longrightarrow> rcv_form (Call (Fault_Here cause) # is)"
| rcv_point: "rcv_form [Rcv p]"
| rcv_file: "rcv_form [File f, Rcv Recv_While]"

inductive_simps tel_form_Do [simp]: "tel_form (Do oper # is)"
inductive_simps rcv_form_Do [simp]: "rcv_form (Do oper # is)"
inductive_simps rcv_form_Fault [simp]: "rcv_form (Call (Fault_Here cause) # is)"

declare tel_nil [simp] tel_point [simp] tel_take [simp] tel_send [simp]
declare rcv_nil [simp] rcv_point [simp] rcv_file [simp]

lemma worker_op_simps [simp]:
  "worker_op (Set_State st m)" "worker_op (Store_Running False)" "worker_op (Store_Transfer b)"
  "worker_op (Store_Alive b)" "worker_op (Store_Sequence n)" "worker_op (Print_Line l)"
  "worker_op (Log_Packet d hdr)" "worker_op (Log_Fault c l n)" "worker_op (Log_Info l)" "worker_op Shutdown"
  by (simp_all add: worker_op_def)

text \<open>
  How many steps an instruction can lead to once the flag is cleared: clearing it makes every
  loop condition false.
\<close>

fun cost :: "instr \<Rightarrow> nat" where
  "cost (Do oper) = 1"
| "cost (Call k) = (case k of Fault_Here cause \<Rightarrow> 2 | Send_Packet p n \<Rightarrow> 5 | Take_Sequence p \<Rightarrow> 7 | _ \<Rightarrow> 0)"
| "cost (Tel p) = (case p of Tel_While \<Rightarrow> 1 | Tel_Tick \<Rightarrow> 8 | Tel_Transfer \<Rightarrow> 9)"
| "cost (Rcv p) = (case p of Recv_While \<Rightarrow> 2 | Recv_Broken \<Rightarrow> 6 | Recv_Payload h \<Rightarrow> 7
                            | Recv_Header \<Rightarrow> 14 | Recv_Wait \<Rightarrow> 15)"
| "cost (File f) = (case f of File_Save h d \<Rightarrow> 6 | File_Broken h \<Rightarrow> 6 | File_Check h d \<Rightarrow> 7
                             | File_While h d \<Rightarrow> 8 | File_Alloc h \<Rightarrow> 9 | File_Recv h d \<Rightarrow> 10)"
| "cost (Menu m) = 0"

definition work :: "instr list \<Rightarrow> nat" where
  "work is = sum_list (map cost is)"

lemma work_simps [simp]:
  "work [] = 0" "work (i # is) = cost i + work is" "work (is @ js) = work is + work js"
  by (simp_all add: work_def)

lemma lift_clientD: "lift_client f a = (js, a') \<Longrightarrow> \<exists>c. f (cl a) = (js, c) \<and> a' = a\<lparr>cl := c\<rparr>"
  by (auto simp: lift_client_def split: prod.splits)

text \<open>One step of a worker: it stays in shape, and keeps what it must.\<close>

definition worker_step :: "(instr list \<Rightarrow> bool) \<Rightarrow> nat \<Rightarrow> app \<Rightarrow> instr \<Rightarrow> instr list \<Rightarrow> instr list \<Rightarrow> app \<Rightarrow> bool" where
  "worker_step form bound a i is js a' \<longleftrightarrow>
     form (js @ is) \<and> keeps (cl a) (cl a') \<and> a' = a\<lparr>cl := cl a'\<rparr> \<and>
     (work (i # is) \<le> bound \<longrightarrow> work (js @ is) \<le> bound) \<and>
     (\<not> running (cl a) \<longrightarrow> work (js @ is) < work (i # is))"

lemma worker_stepI:
  assumes "lift_client f a = (js, a')"
    and "\<And>js c. f (cl a) = (js, c) \<Longrightarrow> form (js @ is) \<and> keeps (cl a) c \<and>
      (work (i # is) \<le> bound \<longrightarrow> work (js @ is) \<le> bound) \<and>
      (\<not> running (cl a) \<longrightarrow> work (js @ is) < work (i # is))"
  shows "worker_step form bound a i is js a'"
  using assms(2) lift_clientD [OF assms(1)] by (force simp: worker_step_def)

lemma worker_do:
  assumes "worker_op oper" "form is" "exec E (Do oper) a = (js, a')"
  shows "worker_step form bound a (Do oper) is js a'"
  using assms keeps_perform [OF assms(1), of "cl a" E] by (auto simp: worker_step_def)

lemma tel_send_exec:
  assumes "client_call E (Send_Packet (For_Telemetry p) n) c = (js, c')"
  shows "tel_form js \<and> keeps c c' \<and> work js = 4"
proof -
  obtain hdr pl where h: "packet_for (For_Telemetry p) (cid c) n = (hdr, pl)"
    by (cases "packet_for (For_Telemetry p) (cid c) n")
  obtain ok c1 where s: "sendPacketLocked hdr pl c = (ok, c1)" by (cases "sendPacketLocked hdr pl c")
  have "js = after_send (For_Telemetry p) hdr ok" "c' = c1"
    using h s assms by (simp_all del: packet_for.simps)
  then show ?thesis using keeps_same [OF same_connection_sendPacket [OF s]] by (cases ok) simp_all
qed

lemma tel_exec:
  assumes "tel_form (i # is)" "exec E i a = (js, a')"
  shows "worker_step tel_form 9 a i is js a'"
  using assms(1)
proof (cases rule: tel_form.cases)
  case (tel_op oper)
  then show ?thesis using worker_do [of oper tel_form "is" E a js a' 9] assms(2) by simp
next
  case (tel_point p)
  then have "lift_client (telemetryLoop E p) a = (js, a')" using assms(2) by simp
  then show ?thesis
    by (rule worker_stepI) (use tel_point in \<open>cases p; auto simp: Let_def keeps_def\<close>)
next
  case (tel_take p)
  then have "lift_client (client_call E (Take_Sequence (For_Telemetry p))) a = (js, a')" using assms(2) by simp
  then show ?thesis by (rule worker_stepI) (use tel_take in auto)
next
  case (tel_send p n)
  then have "lift_client (client_call E (Send_Packet (For_Telemetry p) n)) a = (js, a')" using assms(2) by simp
  then show ?thesis by (rule worker_stepI) (use tel_send tel_send_exec in fastforce)
qed

lemma rcv_point_exec:
  assumes "receiverLoop E p c = (js, c')"
  shows "rcv_form js \<and> keeps c c' \<and> work js \<le> 15 \<and> (\<not> running c \<longrightarrow> work js < cost (Rcv p))"
proof (cases p)
  case Recv_Header
  obtain r c1 where r: "client_recvAll header_size c = (r, c1)" by (cases "client_recvAll header_size c")
  have k: "keeps c c1" using keeps_same [OF same_connection_recvAll [OF r]] .
  with Recv_Header r assms show ?thesis by (cases r) (auto simp: Let_def split: if_splits)
next
  case (Recv_Payload hdr)
  obtain r c1 where r: "(if 0 < payload_size hdr then client_recvAll (unat (payload_size hdr)) c else (Some [], c)) = (r, c1)"
    by (cases "if 0 < payload_size hdr then client_recvAll (unat (payload_size hdr)) c else (Some [], c)")
  have k: "keeps c c1"
    using r keeps_same [OF same_connection_recvAll] by (auto split: if_splits)
  show ?thesis
  proof (cases r)
    case None
    with Recv_Payload r k assms show ?thesis by auto
  next
    case (Some bs)
    with Recv_Payload r k assms show ?thesis by auto
  qed
qed (use assms in \<open>auto simp: keeps_def receiver_ends_def\<close>)

lemma file_exec:
  assumes "receiveLargeFile E f c = (js, c')"
  shows "rcv_form (js @ [Rcv Recv_While]) \<and> keeps c c' \<and> work js \<le> 13 \<and>
    (\<not> running c \<longrightarrow> work js < cost (File f))"
proof (cases f)
  case (File_Recv hdr data)
  let ?k = "min 4096 (unat (payload_size hdr) - length data)"
  obtain r c1 where r: "client_recv ?k c = (r, c1)" by (cases "client_recv ?k c")
  have k: "keeps c c1" using keeps_same [OF same_connection_recv [OF r]] .
  with File_Recv r assms show ?thesis by (cases r) (auto split: if_splits)
qed (use assms in \<open>auto simp: transfer_fault_def Let_def keeps_def clock_tick_def\<close>)

lemma rcv_exec:
  assumes "rcv_form (i # is)" "exec E i a = (js, a')"
  shows "worker_step rcv_form 15 a i is js a'"
  using assms(1)
proof (cases rule: rcv_form.cases)
  case (rcv_op oper)
  then show ?thesis using worker_do [of oper rcv_form "is" E a js a' 15] assms(2) by simp
next
  case (rcv_fault cause)
  then have "lift_client (client_call E (Fault_Here cause)) a = (js, a')" using assms(2) by simp
  then show ?thesis by (rule worker_stepI) (use rcv_fault in auto)
next
  case (rcv_point p)
  then have "lift_client (receiverLoop E p) a = (js, a')" using assms(2) by simp
  then show ?thesis by (rule worker_stepI) (use rcv_point rcv_point_exec in force)
next
  case (rcv_file f)
  then have "lift_client (receiveLargeFile E f) a = (js, a')" using assms(2) by simp
  then show ?thesis by (rule worker_stepI) (use rcv_file file_exec in force)
qed

subsection \<open>The contract of a worker\<close>

lemma app_step_eq:
  "prog a t = i # is \<Longrightarrow> exec E i a = (js, a') \<Longrightarrow> app_step E t a = a'\<lparr>prog := (prog a')(t := js @ is)\<rparr>"
  by (simp add: app_step_def)

text \<open>
  What the rest of the program relies on of a thread it has started: it is always at a point of the
  form, each of its steps keeps what it must, its work is bounded and shrinks once the flag is
  cleared, and it executes no instruction of the main thread, so it never waits for a join.
\<close>

locale worker_thread =
  fixes E :: client_host and me :: thread and form :: "instr list \<Rightarrow> bool" and bound :: nat
  assumes not_main: "me \<noteq> Main"
    and step_ok: "form (i # is) \<Longrightarrow> exec E i a = (js, a') \<Longrightarrow> worker_step form bound a i is js a'"
    and no_menu: "\<not> form (Menu m # is)"
begin

lemma never_waits: "form (prog a me) \<Longrightarrow> prog a me = [] \<or> ready me a"
  using no_menu by (auto simp: ready_def split: list.splits instr.splits)

lemma own_step:
  assumes "ready me a" "form (prog a me)" "work (prog a me) \<le> bound"
  obtains c p where "app_step E me a = a\<lparr>cl := c, prog := (prog a)(me := p)\<rparr>" "keeps (cl a) c" "form p"
    "work p \<le> bound" "\<not> running (cl a) \<Longrightarrow> work p < work (prog a me)" "prog a me \<noteq> []"
proof -
  obtain i "is" where p: "prog a me = i # is" using assms(1) by (auto simp: ready_def split: list.splits)
  obtain js a' where e: "exec E i a = (js, a')" by (cases "exec E i a")
  have w: "worker_step form bound a i is js a'" using step_ok [OF _ e] assms(2) p by simp
  define c where "c = cl a'"
  have a': "a' = a\<lparr>cl := c\<rparr>" using w by (simp add: worker_step_def c_def)
  have "app_step E me a = a\<lparr>cl := c, prog := (prog a)(me := js @ is)\<rparr>"
    using app_step_eq [OF p e] a' by simp
  with w p assms(3) show ?thesis by (intro that) (auto simp: worker_step_def c_def)
qed

end

interpretation telemetry_worker: worker_thread E Telemetry_Thread tel_form 9
  by unfold_locales (auto intro: tel_exec elim: tel_form.cases)

interpretation receiver_worker: worker_thread E Receiver_Thread rcv_form 15
  by unfold_locales (auto intro: rcv_exec elim: rcv_form.cases)

subsection \<open>What the main thread has still to do\<close>

text \<open>What each list of the main thread takes for granted.\<close>

record facts =
  quiet :: bool
  none :: bool
  live :: bool
  tel_done :: bool
  rcv_done :: bool

definition facts_of :: "app \<Rightarrow> facts" where
  "facts_of a =
     \<lparr> quiet = (\<not> running (cl a)), none = (csocket (cl a) = INVALID_SOCK), live = socket_live (cl a),
       tel_done = (prog a Telemetry_Thread = []), rcv_done = (prog a Receiver_Thread = []) \<rparr>"

definition at_menu :: "facts \<Rightarrow> bool" where
  "at_menu f \<longleftrightarrow> quiet f \<and> none f \<and> tel_done f \<and> rcv_done f"

definition passive_op :: "op \<Rightarrow> bool" where
  "passive_op oper \<longleftrightarrow> oper \<noteq> Close \<and> oper \<noteq> Forget \<and> (\<forall>b. oper \<noteq> Store_Running b)"

definition joins :: "instr list" where
  "joins = [Menu (Join Telemetry_Thread), Menu (Join Receiver_Thread), Menu Session_Ended]"

text \<open>Where a disconnect goes on: in the session's loop, or, once the flag is cleared, to the joins.\<close>

definition disconnect_tail :: "facts \<Rightarrow> instr list \<Rightarrow> bool" where
  "disconnect_tail f is \<longleftrightarrow> is = [Menu Session_While] \<or> is = joins \<and> quiet f"

text \<open>In a session the socket is open until a disconnect, with the flag cleared, has closed it.\<close>

definition in_session :: "facts \<Rightarrow> bool" where
  "in_session f \<longleftrightarrow> live f \<or> none f \<and> quiet f"

definition menu_points :: "menu_point set" where
  "menu_points = {Menu_While, Menu_Show, Menu_Poll, Menu_Connect}"

definition session_points :: "menu_point set" where
  "session_points = {Session_While, Session_Show, Session_Poll, Request_Returned True}"

inductive main_at :: "facts \<Rightarrow> instr list \<Rightarrow> bool" where
  m_quit: "at_menu f \<Longrightarrow> main_at f []"
| m_menu: "at_menu f \<Longrightarrow> m \<in> menu_points \<Longrightarrow> main_at f [Menu m]"
| m_passive: "passive_op oper \<Longrightarrow> main_at f is \<Longrightarrow> main_at f (Do oper # is)"
| m_stop: "main_at (f\<lparr>quiet := True\<rparr>) is \<Longrightarrow> main_at f (Do (Store_Running False) # is)"
| m_status: "main_at f is \<Longrightarrow> main_at f (Call Print_Status # is)"
| m_close_none: "none f \<Longrightarrow> main_at f is \<Longrightarrow> main_at f (Call Close_If_Open # is)"
| m_spawn: "live f \<Longrightarrow> \<not> quiet f \<Longrightarrow> tel_done f \<Longrightarrow> rcv_done f \<Longrightarrow> main_at f [Menu Spawn, Menu Session_While]"
| m_session: "in_session f \<Longrightarrow> m \<in> session_points \<Longrightarrow> main_at f [Menu m]"
| m_refused: "in_session f \<Longrightarrow> quiet f \<Longrightarrow> main_at f [Menu (Request_Returned False)]"
| m_take_map: "in_session f \<Longrightarrow> main_at f [Call (Take_Sequence For_Map)]"
| m_send_map: "in_session f \<Longrightarrow> main_at f [Call (Send_Packet For_Map n)]"
| m_disconnect: "in_session f \<Longrightarrow> disconnect_tail f is \<Longrightarrow> main_at f (Call Disconnect_Session # is)"
| m_exchange: "live f \<Longrightarrow> disconnect_tail f is \<Longrightarrow> main_at f (Call Disconnect_Exchange # is)"
| m_take_disc: "main_at f is \<Longrightarrow> main_at f (Call (Take_Sequence For_Disconnect) # is)"
| m_send_disc: "main_at f is \<Longrightarrow> main_at f (Call (Send_Packet For_Disconnect n) # is)"
| m_close: "live f \<Longrightarrow> quiet f \<Longrightarrow> main_at (f\<lparr>none := True, live := False\<rparr>) is \<Longrightarrow> main_at f (Do Close # Do Forget # is)"
| m_forget: "\<not> live f \<Longrightarrow> quiet f \<Longrightarrow> main_at (f\<lparr>none := True, live := False\<rparr>) is \<Longrightarrow> main_at f (Do Forget # is)"
| m_join_tel: "none f \<Longrightarrow> quiet f \<Longrightarrow> main_at f joins"
| m_join_rcv: "none f \<Longrightarrow> quiet f \<Longrightarrow> tel_done f \<Longrightarrow> main_at f [Menu (Join Receiver_Thread), Menu Session_Ended]"
| m_ended: "at_menu f \<Longrightarrow> main_at f [Menu Session_Ended]"

text \<open>Workers can only make more of it true, and nothing when both are done.\<close>

definition facts_le :: "facts \<Rightarrow> facts \<Rightarrow> bool" where
  "facts_le f g \<longleftrightarrow>
     (quiet f \<longrightarrow> quiet g) \<and> (tel_done f \<and> rcv_done f \<longrightarrow> quiet g = quiet f) \<and> none g = none f \<and> live g = live f \<and>
     (tel_done f \<longrightarrow> tel_done g) \<and> (rcv_done f \<longrightarrow> rcv_done g)"

lemma facts_leD:
  assumes "facts_le f g"
  shows "none g = none f" "live g = live f" "quiet f \<Longrightarrow> quiet g" "tel_done f \<Longrightarrow> tel_done g"
    "at_menu f \<Longrightarrow> at_menu g" "disconnect_tail f is \<Longrightarrow> disconnect_tail g is"
    "tel_done f \<Longrightarrow> rcv_done f \<Longrightarrow> rcv_done g \<and> quiet g = quiet f" "in_session f \<Longrightarrow> in_session g"
  using assms unfolding facts_le_def at_menu_def disconnect_tail_def in_session_def by blast+

lemma main_at_mono: "main_at f is \<Longrightarrow> facts_le f g \<Longrightarrow> main_at g is"
proof (induction arbitrary: g rule: main_at.induct)
  case (m_stop f "is")
  have "facts_le (f\<lparr>quiet := True\<rparr>) (g\<lparr>quiet := True\<rparr>)" using m_stop.prems by (simp add: facts_le_def)
  then show ?case by (intro main_at.m_stop m_stop.IH)
next
  case (m_close f "is")
  have "facts_le (f\<lparr>none := True, live := False\<rparr>) (g\<lparr>none := True, live := False\<rparr>)"
    using m_close.prems by (simp add: facts_le_def)
  then show ?case using m_close by (intro main_at.m_close m_close.IH) (simp_all add: facts_le_def)
next
  case (m_forget f "is")
  have "facts_le (f\<lparr>none := True, live := False\<rparr>) (g\<lparr>none := True, live := False\<rparr>)"
    using m_forget.prems by (simp add: facts_le_def)
  then show ?case using m_forget by (intro main_at.m_forget m_forget.IH) (simp_all add: facts_le_def)
next
  case (m_spawn f)
  then show ?case using facts_leD [OF m_spawn.prems] by (intro main_at.m_spawn) simp_all
qed (use facts_leD in \<open>blast intro: main_at.intros\<close>)+

text \<open>One step of the main thread.\<close>

definition workers_ok :: "app \<Rightarrow> bool" where
  "workers_ok a \<longleftrightarrow>
     tel_form (prog a Telemetry_Thread) \<and> work (prog a Telemetry_Thread) \<le> 9 \<and>
     rcv_form (prog a Receiver_Thread) \<and> work (prog a Receiver_Thread) \<le> 15"

definition main_step :: "app \<Rightarrow> instr list \<Rightarrow> app \<Rightarrow> bool" where
  "main_step a is a' \<longleftrightarrow>
     main_at (facts_of a') is \<and> descriptors_ok (cl a') \<and> workers_ok a' \<and>
     (prog a' = prog a \<or> running (cl a))"

lemma main_step_keeps:
  assumes "keeps (cl a) c" "descriptors_ok (cl a)" "workers_ok a"
    and "main_at ((facts_of a)\<lparr>quiet := \<not> running c\<rparr>) is"
  shows "main_step a is (a\<lparr>cl := c\<rparr>)"
proof -
  have "facts_of (a\<lparr>cl := c\<rparr>) = (facts_of a)\<lparr>quiet := \<not> running c\<rparr>"
    using assms(1) keeps_live [OF assms(1)] by (simp add: facts_of_def keeps_def)
  with assms keeps_descriptors [OF assms(1)] show ?thesis by (simp add: main_step_def workers_ok_def)
qed

lemma main_step_same:
  assumes "same_connection (cl a) c" "descriptors_ok (cl a)" "workers_ok a" "main_at (facts_of a) is"
  shows "main_step a is (a\<lparr>cl := c\<rparr>)"
proof -
  have "running c = running (cl a)" using assms(1) by (simp add: same_connection_def)
  then have "(facts_of a)\<lparr>quiet := \<not> running c\<rparr> = facts_of a" by (simp add: facts_of_def)
  with main_step_keeps [OF keeps_same [OF assms(1)] assms(2,3)] assms(4) show ?thesis by simp
qed


lemma passive_same: "passive_op oper \<Longrightarrow> same_connection c (perform E oper c)"
proof (cases oper)
  case (Store_Sequence n)
  then show ?thesis by (simp add: same_connection_def)
next
  case Shutdown
  then show ?thesis by (simp add: same_connection_def shutdownSocket_def)
next
  case Shutdown_Send
  then show ?thesis by (simp add: same_connection_def shutdownSocketSend_def)
qed (auto simp: passive_op_def)

lemma passive_op_simps [simp]:
  "passive_op (Set_State st m)" "passive_op (Store_Transfer b)" "passive_op (Store_Sequence n)"
  "passive_op (Print_Line l)" "passive_op (Show_Status st)" "passive_op (Log_Packet d hdr)"
  "passive_op (Log_Fault c l n)" "passive_op Shutdown_Send"
  by (simp_all add: passive_op_def)

lemma facts_of_frame [simp]:
  "facts_of (a\<lparr>inputLines := ls\<rparr>) = facts_of a" "facts_of (a\<lparr>printedDisconnectedMenu := b\<rparr>) = facts_of a"
  "facts_of (a\<lparr>printedConnectedMenu := b\<rparr>) = facts_of a"
  "facts_of (a\<lparr>prog := (prog a)(Main := is)\<rparr>) = facts_of a"
  by (simp_all add: facts_of_def)

lemma workers_ok_frame [simp]:
  "workers_ok (a\<lparr>inputLines := ls\<rparr>) = workers_ok a" "workers_ok (a\<lparr>printedDisconnectedMenu := b\<rparr>) = workers_ok a"
  "workers_ok (a\<lparr>printedConnectedMenu := b\<rparr>) = workers_ok a"
  "workers_ok (a\<lparr>prog := (prog a)(Main := is)\<rparr>) = workers_ok a" "workers_ok (a\<lparr>cl := c\<rparr>) = workers_ok a"
  by (simp_all add: workers_ok_def)

lemma session_over_joins: "session_over = Call Disconnect_Session # joins"
  by (simp add: session_over_def joins_def)

lemma after_disconnect:
  assumes "disconnect_tail f is" "in_session f"
  shows "none f \<Longrightarrow> main_at f is" "live f \<Longrightarrow> is = [Menu Session_While] \<Longrightarrow> main_at f is"
  using assms by (auto simp: disconnect_tail_def session_points_def intro: main_at.intros)

lemma menu_exec:
  assumes "at_menu (facts_of a)" "m \<in> menu_points" "menuLoop E m a = (js, a')"
    and "descriptors_ok (cl a)" "workers_ok a"
  shows "main_step a js a'"
proof -
  have q: "\<not> running (cl a)" "csocket (cl a) = INVALID_SOCK" "prog a Telemetry_Thread = []"
    "prog a Receiver_Thread = []"
    using assms(1) by (simp_all add: at_menu_def facts_of_def)
  have quitted: "main_at (facts_of a) [Do (Store_Running False), Call Close_If_Open]"
    using assms(1) by (intro main_at.intros) (simp_all add: at_menu_def)
  consider "m = Menu_While" | "m = Menu_Show" | "m = Menu_Poll" | "m = Menu_Connect"
    using assms(2) by (auto simp: menu_points_def)
  then show ?thesis
  proof cases
    case 1
    with assms q have "js = [Call Close_If_Open, Menu Menu_Show]" "a' = a" by simp_all
    moreover have "main_at (facts_of a) [Call Close_If_Open, Menu Menu_Show]"
      using assms(1) by (intro main_at.intros) (simp_all add: at_menu_def menu_points_def)
    ultimately show ?thesis using assms by (simp add: main_step_def)
  next
    case 2
    have "main_at (facts_of a) [Menu Menu_Poll]" using assms(1) by (intro m_menu) (simp_all add: menu_points_def)
    with 2 assms show ?thesis
      by (auto simp: main_step_def Let_def split: if_splits intro!: m_status m_passive)
  next
    case 3
    have "main_at (facts_of a) [Menu Menu_While]" "main_at (facts_of a) [Menu Menu_Connect]"
      using assms(1) by (auto intro!: m_menu simp: menu_points_def)
    with 3 assms quitted show ?thesis
      by (auto simp: main_step_def tryPopInput_def Let_def split: list.splits if_splits)
  next
    case 4
    obtain ok c where c: "connectSession E (cl a) = (ok, c)" by (cases "connectSession E (cl a)")
    have "unconnected (cl a)" using q assms(4) by (simp add: unconnected_def)
    from connect_ends [OF this c] have r: "descriptors_ok c"
      "ok \<Longrightarrow> socket_live c \<and> running c" "\<not> ok \<Longrightarrow> \<not> running c \<and> csocket c = INVALID_SOCK"
      by (auto simp: ended_clean_def)
    show ?thesis
    proof (cases ok)
      case True
      have "main_at (facts_of (a\<lparr>cl := c, printedConnectedMenu := False\<rparr>)) [Menu Spawn, Menu Session_While]"
        using r(2) [OF True] q by (intro m_spawn) (simp_all add: facts_of_def)
      with 4 c True assms r(1) show ?thesis by (auto simp: main_step_def)
    next
      case False
      have "main_at (facts_of (a\<lparr>cl := c\<rparr>)) [Menu Menu_While]"
        using r(3) [OF False] q by (intro m_menu) (simp_all add: facts_of_def at_menu_def menu_points_def)
      with 4 c False assms r(1) show ?thesis by (auto simp: main_step_def)
    qed
  qed
qed

lemma session_exec:
  assumes "in_session (facts_of a)" "m \<in> session_points \<or> m = Request_Returned False \<and> quiet (facts_of a)"
    and "menuLoop E m a = (js, a')" "descriptors_ok (cl a)" "workers_ok a"
  shows "main_step a js a'"
proof -
  let ?f = "facts_of a"
  have loop: "main_at ?f [Menu m]" if "m \<in> session_points" for m
    using assms(1) that by (rule m_session)
  have points: "Session_While \<in> session_points" "Session_Show \<in> session_points" "Session_Poll \<in> session_points"
    by (simp_all add: session_points_def)
  have over: "main_at ?f session_over" if "quiet ?f"
    unfolding session_over_joins using assms(1) that by (intro m_disconnect) (auto simp: disconnect_tail_def)
  have disc: "main_at ?f [Call Disconnect_Session, Menu Session_While]"
    using assms(1) by (intro m_disconnect) (auto simp: disconnect_tail_def)
  note take = m_take_map [OF assms(1)]
  consider "m = Session_While" | "m = Session_Show" | "m = Session_Poll" | b where "m = Request_Returned b"
    "b \<or> quiet ?f"
    using assms(2) by (auto simp: session_points_def)
  then show ?thesis
  proof cases
    case 1
    have "quiet ?f" if "\<not> running (cl a)" using that by (simp add: facts_of_def)
    with 1 assms(3-5) over loop points show ?thesis by (auto simp: main_step_def split: if_splits)
  next
    case 2
    with assms(3-5) loop [OF points(3)] show ?thesis
      by (auto simp: main_step_def split: if_splits intro!: m_status m_passive)
  next
    case 3
    with assms(3-5) loop [OF points(1)] disc take show ?thesis
      by (auto simp: main_step_def tryPopInput_def Let_def split: list.splits if_splits)
  next
    case 4
    with assms(3-5) loop [OF points(1)] over show ?thesis by (auto simp: main_step_def split: if_splits)
  qed
qed


lemma main_call_keeps:
  assumes "lift_client (client_call E k) a = (js, a')" "descriptors_ok (cl a)" "workers_ok a"
    and "\<And>js c. client_call E k (cl a) = (js, c) \<Longrightarrow> same_connection (cl a) c \<and> main_at (facts_of a) (js @ is)"
  shows "main_step a (js @ is) a'"
proof -
  obtain c where c: "client_call E k (cl a) = (js, c)" "a' = a\<lparr>cl := c\<rparr>" using lift_clientD [OF assms(1)] by auto
  with assms(4) [OF c(1)] show ?thesis using main_step_same [OF _ assms(2,3)] by simp
qed

lemma send_call_same:
  "client_call E (Send_Packet p n) c = (js, c') \<Longrightarrow>
     same_connection c c' \<and> (\<exists>hdr ok. js = after_send p hdr ok)"
  by (auto simp del: packet_for.simps split: prod.splits dest: same_connection_sendPacket)

lemma main_exec:
  assumes at: "main_at (facts_of a) (i # is)" and ex: "exec E i a = (js, a')" and rd: "prog a Main = i # is" "ready Main a"
    and ok: "descriptors_ok (cl a)" "workers_ok a"
  shows "main_step a (js @ is) a'"
  using at
proof (cases rule: main_at.cases)
  case (m_menu m)
  with menu_exec [OF m_menu(3,4) _ ok] ex show ?thesis by simp
next
  case (m_passive oper)
  with main_step_same [OF passive_same ok] ex show ?thesis by auto
next
  case m_stop
  have "keeps (cl a) ((cl a)\<lparr>running := False\<rparr>)" by (simp add: keeps_def)
  from main_step_keeps [OF this ok] m_stop ex show ?thesis by auto
next
  case m_status
  with ex show ?thesis by (intro main_call_keeps [OF _ ok]) (auto intro!: m_passive)
next
  case m_close_none
  with ex show ?thesis by (intro main_call_keeps [OF _ ok]) (auto simp: facts_of_def)
next
  case m_spawn
  let ?a = "a\<lparr>prog := (prog a)(Telemetry_Thread := [Tel Tel_While],
      Receiver_Thread := [Do (Store_Alive True), Rcv Recv_While])\<rparr>"
  have "main_at (facts_of ?a) [Menu Session_While]"
    using m_spawn by (intro m_session) (simp_all add: facts_of_def session_points_def in_session_def)
  with m_spawn ex ok show ?thesis by (auto simp: main_step_def workers_ok_def facts_of_def)
next
  case (m_session m)
  then have "menuLoop E m a = (js, a')" using ex by simp
  from session_exec [OF m_session(3) _ this ok] m_session show ?thesis by simp
next
  case m_refused
  then have "menuLoop E (Request_Returned False) a = (js, a')" using ex by simp
  from session_exec [OF m_refused(3) _ this ok] m_refused show ?thesis by simp
next
  case m_take_map
  with ex show ?thesis by (intro main_call_keeps [OF _ ok]) (auto intro!: m_passive m_send_map)
next
  case (m_send_map n)
  have "main_at (facts_of a) (after_send For_Map hdr b)" for hdr b
    using m_send_map
    by (cases b) (auto intro!: m_passive m_stop m_session m_refused simp: session_points_def in_session_def)
  with m_send_map ex show ?thesis
    by (intro main_call_keeps [OF _ ok]) (auto dest!: send_call_same)
next
  case m_disconnect
  have n: "none (facts_of a) \<longleftrightarrow> csocket (cl a) = INVALID_SOCK" by (simp add: facts_of_def)
  have "main_at (facts_of a) is" if "csocket (cl a) = INVALID_SOCK"
    using after_disconnect(1) [OF m_disconnect(3,2)] that n by simp
  moreover have "main_at (facts_of a) (Call Disconnect_Exchange # is)" if "csocket (cl a) \<noteq> INVALID_SOCK"
    using m_disconnect that n by (intro m_exchange) (simp_all add: in_session_def)
  ultimately show ?thesis using m_disconnect(1) ex by (intro main_call_keeps [OF _ ok]) auto
next
  case m_exchange
  show ?thesis
  proof (cases "running (cl a)")
    case True
    let ?c = "(cl a)\<lparr>running := False\<rparr>"
    have k: "keeps (cl a) ?c" by (simp add: keeps_def)
    have t: "is = [Menu Session_While]"
      using m_exchange True by (auto simp: disconnect_tail_def facts_of_def)
    have "main_at ((facts_of a)\<lparr>quiet := \<not> running ?c\<rparr>)
        ([Call (Take_Sequence For_Disconnect), Do (Set_State C_DISCONNECTED ''[INFO] Disconnected from ground control.''),
          Do (Store_Transfer False), Do Shutdown_Send] @ is)"
      using m_exchange t by (auto intro!: m_take_disc m_passive m_session simp: session_points_def in_session_def)
    from main_step_keeps [OF k ok this] m_exchange ex True show ?thesis by (auto simp: lift_client_def)
  next
    case False
    have "main_at ((facts_of a)\<lparr>none := True, live := False\<rparr>) is"
      using m_exchange False
      by (auto simp: disconnect_tail_def session_points_def in_session_def facts_of_def intro!: m_session m_join_tel)
    then have "main_at ((facts_of a)\<lparr>none := True, live := False\<rparr>) (Do (Store_Transfer False) # is)"
      by (intro m_passive) simp_all
    from m_close [OF m_exchange(2) _ this] False
    have "main_at (facts_of a) ([Do Close, Do Forget, Do (Store_Transfer False)] @ is)" by (simp add: facts_of_def)
    with m_exchange ex False ok show ?thesis by (auto simp: lift_client_def main_step_def)
  qed
next
  case m_take_disc
  with ex show ?thesis by (intro main_call_keeps [OF _ ok]) (auto intro!: m_passive m_send_disc)
next
  case (m_send_disc n)
  have "main_at (facts_of a) (after_send For_Disconnect hdr b @ is)" for hdr b
    using m_send_disc by (cases b) (auto intro!: m_passive)
  with m_send_disc ex show ?thesis
    by (intro main_call_keeps [OF _ ok]) (auto dest!: send_call_same)
next
  case (m_close js0)
  let ?c = "do_close (cl a)"
  have l: "socket_live (cl a)" using m_close by (simp add: facts_of_def)
  have f: "facts_of (a\<lparr>cl := ?c\<rparr>) = (facts_of a)\<lparr>live := False\<rparr>"
    using l by (auto simp: facts_of_def socket_live_def do_close_def closeSocket_def)
  have "main_at ((facts_of a)\<lparr>live := False\<rparr>) (Do Forget # js0)"
    using m_close by (intro m_forget) simp_all
  moreover have "descriptors_ok ?c"
    using ok(1) l do_close_closes [of "cl a"]
    by (auto simp: descriptors_ok_def socket_live_def do_close_def closeSocket_def)
  ultimately show ?thesis using m_close ex ok f by (auto simp: main_step_def)
next
  case m_forget
  let ?c = "(cl a)\<lparr>csocket := INVALID_SOCK\<rparr>"
  have f: "facts_of (a\<lparr>cl := ?c\<rparr>) = (facts_of a)\<lparr>none := True, live := False\<rparr>"
    by (simp add: facts_of_def socket_live_def)
  have "descriptors_ok ?c"
    using ok(1) m_forget by (simp add: descriptors_ok_def socket_live_def facts_of_def)
  with m_forget ex ok f show ?thesis by (auto simp: main_step_def)
next
  case m_join_tel
  then have i: "i = Menu (Join Telemetry_Thread)" "is = [Menu (Join Receiver_Thread), Menu Session_Ended]"
    by (simp_all add: joins_def)
  then have "prog a Telemetry_Thread = []" using rd by (simp add: ready_def)
  then have "main_at (facts_of a) is" using m_join_tel unfolding i by (intro m_join_rcv) (simp_all add: facts_of_def)
  with i ex ok show ?thesis by (auto simp: main_step_def)
next
  case m_join_rcv
  then have "prog a Receiver_Thread = []" using rd by (simp add: ready_def)
  then have "main_at (facts_of a) is" using m_join_rcv
    by (auto intro!: m_ended simp: at_menu_def facts_of_def)
  with m_join_rcv ex ok show ?thesis by (auto simp: main_step_def)
next
  case m_ended
  have "main_at (facts_of a) [Menu Menu_While]" using m_ended by (intro m_menu) (simp_all add: menu_points_def)
  with m_ended ex ok show ?thesis by (auto simp: main_step_def intro!: m_status m_passive)
qed


subsection \<open>Every reachable state\<close>

definition app_inv :: "app \<Rightarrow> bool" where
  "app_inv a \<longleftrightarrow> main_at (facts_of a) (prog a Main) \<and> descriptors_ok (cl a) \<and> workers_ok a"

text \<open>One step of a worker, seen from the main thread.\<close>

lemma worker_app_inv:
  assumes "app_inv a" "t \<noteq> Main" "prog a t \<noteq> []" "keeps (cl a) c" "workers_ok (a\<lparr>prog := (prog a)(t := p)\<rparr>)"
  shows "app_inv (a\<lparr>cl := c, prog := (prog a)(t := p)\<rparr>)"
proof -
  let ?a = "a\<lparr>cl := c, prog := (prog a)(t := p)\<rparr>"
  have le: "facts_le (facts_of a) (facts_of ?a)"
    using assms(2-4) keeps_live [OF assms(4)] by (cases t) (auto simp: facts_le_def facts_of_def keeps_def)
  have "main_at (facts_of ?a) (prog ?a Main)"
    using assms(1,2) main_at_mono [OF _ le] by (simp add: app_inv_def)
  moreover have "descriptors_ok c" using keeps_descriptors [OF assms(4)] assms(1) by (simp add: app_inv_def)
  moreover have "workers_ok ?a" using assms(5) by (simp add: workers_ok_def)
  ultimately show ?thesis by (simp add: app_inv_def)
qed

lemma app_inv_step:
  assumes "app_inv a" "ready t a"
  shows "app_inv (app_step E t a)"
proof -
  obtain i "is" where p: "prog a t = i # is" using assms(2) by (auto simp: ready_def split: list.splits)
  obtain js a' where e: "exec E i a = (js, a')" by (cases "exec E i a")
  have inv: "main_at (facts_of a) (prog a Main)" "descriptors_ok (cl a)" "workers_ok a"
    using assms(1) by (simp_all add: app_inv_def)
  show ?thesis
  proof (cases t)
    case Main
    with p assms(2) inv have "main_step a (js @ is) a'" by (intro main_exec [OF _ e]) simp_all
    then show ?thesis using app_step_eq [OF p e] Main by (simp add: app_inv_def main_step_def)
  next
    case Telemetry_Thread
    with assms(2) inv(3) have "ready Telemetry_Thread a" "tel_form (prog a Telemetry_Thread)"
      "work (prog a Telemetry_Thread) \<le> 9" by (simp_all add: workers_ok_def)
    then obtain c q where "app_step E Telemetry_Thread a = a\<lparr>cl := c, prog := (prog a)(Telemetry_Thread := q)\<rparr>"
      "keeps (cl a) c" "tel_form q" "work q \<le> 9"
      by (rule telemetry_worker.own_step [where E = E])
    with inv(3) Telemetry_Thread p show ?thesis
      by (auto intro!: worker_app_inv [OF assms(1)] simp: workers_ok_def)
  next
    case Receiver_Thread
    with assms(2) inv(3) have "ready Receiver_Thread a" "rcv_form (prog a Receiver_Thread)"
      "work (prog a Receiver_Thread) \<le> 15" by (simp_all add: workers_ok_def)
    then obtain c q where "app_step E Receiver_Thread a = a\<lparr>cl := c, prog := (prog a)(Receiver_Thread := q)\<rparr>"
      "keeps (cl a) c" "rcv_form q" "work q \<le> 15"
      by (rule receiver_worker.own_step [where E = E])
    with inv(3) Receiver_Thread p show ?thesis
      by (auto intro!: worker_app_inv [OF assms(1)] simp: workers_ok_def)
  qed
qed

lemma app_inv_client_step: "client_step E a a' \<Longrightarrow> app_inv a \<Longrightarrow> app_inv a'"
proof (induction rule: client_step.induct)
  case (thread t a)
  then show ?case by (simp add: app_inv_step)
qed (simp add: app_inv_def)

lemma app_inv_start:
  assumes "\<And>h. closes (n h) \<le> 1"
  shows "app_inv (start_app options lg n)"
proof -
  have "main_at (facts_of (start_app options lg n)) [Menu Menu_While]"
    by (intro m_menu)
       (simp_all add: facts_of_def at_menu_def start_app_def new_client_def menu_points_def)
  then show ?thesis
    using assms
    by (simp add: app_inv_def start_app_def new_client_def descriptors_ok_def socket_live_def workers_ok_def)
qed

lemma app_inv_reachable: "client_reachable E a0 a \<Longrightarrow> app_inv a0 \<Longrightarrow> app_inv a"
  by (induction rule: client_reachable.induct) (auto intro: app_inv_client_step)

inductive_cases main_at_menuE: "main_at f [Menu m]"
inductive_cases main_at_nilE: "main_at f []"

lemma main_at_menu_point: "main_at f [Menu m] \<Longrightarrow> m \<in> menu_points \<Longrightarrow> at_menu f"
  by (erule main_at_menuE) (auto simp: menu_points_def session_points_def joins_def)

lemma main_at_Nil: "main_at f [] \<Longrightarrow> at_menu f"
  by (erule main_at_nilE) (auto simp: joins_def disconnect_tail_def)

text \<open>
  C9. No descriptor is leaked, closed twice, or carried from one session into the next: whatever the
  user types, the server and the network do, and however the three threads interleave, each
  socket is closed at most once, the sockets opened and not closed are exactly the current open
  one, and whenever the main thread is about to poll the menu or to connect (or has quit), both
  worker threads are gone, the running flag is cleared, and every socket ever opened has been
  closed.
\<close>

theorem descriptors_balanced:
  assumes "client_reachable E (start_app options lg n) a" "\<And>h. closes (n h) = 0"
  shows "(\<forall>h. closes (cnet (cl a) h) \<le> 1) \<and>
    opened (cl a) = closed (cl a) + (if socket_live (cl a) then 1 else 0) \<and>
    (prog a Main \<in> {[Menu Menu_Poll], [Menu Menu_Connect], []} \<longrightarrow>
       prog a Telemetry_Thread = [] \<and> prog a Receiver_Thread = [] \<and> \<not> running (cl a) \<and>
       csocket (cl a) = INVALID_SOCK \<and> opened (cl a) = closed (cl a))"
proof -
  have "app_inv (start_app options lg n)" using assms(2) by (intro app_inv_start) simp
  with assms(1) have inv: "app_inv a" by (rule app_inv_reachable)
  have "at_menu (facts_of a)" if "prog a Main \<in> {[Menu Menu_Poll], [Menu Menu_Connect], []}"
    using inv that main_at_menu_point [of "facts_of a"] main_at_Nil [of "facts_of a"]
    by (auto simp: app_inv_def menu_points_def)
  with inv show ?thesis
    by (auto simp: app_inv_def descriptors_ok_def at_menu_def facts_of_def socket_live_def)
qed


subsection \<open>The workers end\<close>

text \<open>
  An interleaving in which every step is taken while the running flag is cleared, with the threads
  that took the steps.
\<close>

inductive winding :: "client_host \<Rightarrow> app \<Rightarrow> thread list \<Rightarrow> app \<Rightarrow> bool" for E a0 where
  wind_init: "winding E a0 [] a0"
| wind_thread: "winding E a0 ts a \<Longrightarrow> \<not> running (cl a) \<Longrightarrow> ready t a \<Longrightarrow> winding E a0 (t # ts) (app_step E t a)"
| wind_typed: "winding E a0 ts a \<Longrightarrow> winding E a0 ts (a\<lparr>inputLines := inputLines a @ [line]\<rparr>)"

lemma worker_work:
  assumes "app_inv a" "\<not> running (cl a)" "ready t a" "w \<noteq> Main"
  shows "work (prog (app_step E t a) w) + (if t = w then 1 else 0) \<le> work (prog a w)"
proof (cases t)
  case Main
  obtain i "is" where p: "prog a t = i # is" using assms(3) by (auto simp: ready_def split: list.splits)
  obtain js a' where e: "exec E i a = (js, a')" by (cases "exec E i a")
  from assms(1) Main p assms(3) have "main_step a (js @ is) a'"
    by (intro main_exec [OF _ e]) (simp_all add: app_inv_def)
  then have "prog a' = prog a" using assms(2) by (simp add: main_step_def)
  then show ?thesis using app_step_eq [OF p e] Main assms(4) by simp
next
  case Telemetry_Thread
  have "tel_form (prog a Telemetry_Thread)" "work (prog a Telemetry_Thread) \<le> 9"
    using assms(1) by (simp_all add: app_inv_def workers_ok_def)
  with assms(2,3) Telemetry_Thread show ?thesis
    by (auto elim!: telemetry_worker.own_step [where E = E and a = a])
next
  case Receiver_Thread
  have "rcv_form (prog a Receiver_Thread)" "work (prog a Receiver_Thread) \<le> 15"
    using assms(1) by (simp_all add: app_inv_def workers_ok_def)
  with assms(2,3) Receiver_Thread show ?thesis
    by (auto elim!: receiver_worker.own_step [where E = E and a = a])
qed

lemma winding_work:
  "winding E a0 ts a \<Longrightarrow> app_inv a0 \<Longrightarrow> w \<noteq> Main \<Longrightarrow>
     app_inv a \<and> work (prog a w) + count_list ts w \<le> work (prog a0 w)"
proof (induction rule: winding.induct)
  case (wind_thread ts a t)
  then show ?case using worker_work [of a t w E] app_inv_step [of a t E] by (auto split: if_splits)
next
  case (wind_typed ts a line)
  then show ?case by (simp add: app_inv_def)
qed simp

text \<open>
  C12. Once the running flag is cleared, both worker threads end: whatever state they are in and
  however they interleave with the rest of the program, the telemetry thread takes at most 9
  more steps and the receiver at most 15, neither ever waits for another thread, and one that has
  taken as many steps as it can has nothing left to do, so that the joins of the main thread
  return once the workers' system calls do (steps are counted, not the time a call takes).
\<close>

theorem workers_wind_down:
  assumes "client_reachable E (start_app options lg n) a" "\<And>h. closes (n h) = 0" "winding E a ts a'"
  shows "count_list ts Telemetry_Thread \<le> 9 \<and> count_list ts Receiver_Thread \<le> 15 \<and>
    (prog a' Telemetry_Thread = [] \<or> ready Telemetry_Thread a') \<and>
    (prog a' Receiver_Thread = [] \<or> ready Receiver_Thread a')"
proof -
  have "app_inv (start_app options lg n)" using assms(2) by (intro app_inv_start) simp
  with assms(1) have inv: "app_inv a" by (rule app_inv_reachable)
  then have ok: "workers_ok a" by (simp add: app_inv_def)
  from winding_work [OF assms(3) inv, of Telemetry_Thread] winding_work [OF assms(3) inv, of Receiver_Thread]
  have b: "work (prog a' Telemetry_Thread) + count_list ts Telemetry_Thread \<le> 9"
    "work (prog a' Receiver_Thread) + count_list ts Receiver_Thread \<le> 15" and ok': "workers_ok a'"
    using ok by (auto simp: workers_ok_def app_inv_def)
  from telemetry_worker.never_waits [of a'] receiver_worker.never_waits [of a'] ok' b show ?thesis
    by (simp add: workers_ok_def)
qed

end
