(* ===== verification/Std_Map.thy ===== *)
theory Std_Map
  imports Prelude
begin

text \<open>
  The ordered containers of the program: \<open>std::map\<close> as an association list sorted by key, which
  keeps the iteration order the code's range-for loops see, behind the locale \<open>ordered_map\<close>
  with the laws its clients use. The session map of the ground server is keyed by socket
  handle, the dashboard's by aircraft id.
\<close>

subsection \<open>The interface\<close>

locale ordered_map =
  fixes mlookup :: "'m \<Rightarrow> 'k::linorder \<Rightarrow> 'v option"
    and massign :: "'k \<Rightarrow> 'v \<Rightarrow> 'm \<Rightarrow> 'm"
    and merase :: "'k \<Rightarrow> 'm \<Rightarrow> 'm"
    and mkeys :: "'m \<Rightarrow> 'k list"
    and minv :: "'m \<Rightarrow> bool"
  assumes lookup_assign: "minv m \<Longrightarrow> mlookup (massign k v m) k' = (if k' = k then Some v else mlookup m k')"
    and lookup_erase: "minv m \<Longrightarrow> mlookup (merase k m) k' = (if k' = k then None else mlookup m k')"
    and keys_lookup: "minv m \<Longrightarrow> set (mkeys m) = {k. mlookup m k \<noteq> None}"
    and keys_sorted: "minv m \<Longrightarrow> sorted_wrt (<) (mkeys m)"
    and inv_assign: "minv m \<Longrightarrow> minv (massign k v m)"
    and inv_erase: "minv m \<Longrightarrow> minv (merase k m)"
begin

lemma keys_assign: "minv m \<Longrightarrow> set (mkeys (massign k v m)) = insert k (set (mkeys m))"
  by (auto simp: keys_lookup inv_assign lookup_assign)

lemma keys_erase: "minv m \<Longrightarrow> set (mkeys (merase k m)) = set (mkeys m) - {k}"
  by (auto simp: keys_lookup inv_erase lookup_erase)

lemma keys_distinct: "minv m \<Longrightarrow> distinct (mkeys m)"
  by (metis keys_sorted strict_sorted_iff)

text \<open>A sorted key list is determined by its set, so rewriting a present key keeps the order.\<close>

lemma keys_assign_present:
  assumes "minv m" "mlookup m k \<noteq> None"
  shows "mkeys (massign k v m) = mkeys m"
proof (rule strict_sorted_equal)
  show "sorted_wrt (<) (mkeys (massign k v m))" "sorted_wrt (<) (mkeys m)"
    using assms by (simp_all add: keys_sorted inv_assign)
  show "set (mkeys (massign k v m)) = set (mkeys m)"
    using assms by (auto simp: keys_assign keys_lookup)
qed

text \<open>A property of every entry survives an assignment of an entry that has it, and an erasure.\<close>

lemma all_assign:
  assumes "minv m" "\<And>k' v'. mlookup m k' = Some v' \<Longrightarrow> P k' v'" "P k v"
    and "mlookup (massign k v m) k' = Some v'"
  shows "P k' v'"
  using assms by (auto simp: lookup_assign split: if_splits)

lemma all_erase:
  assumes "minv m" "\<And>k' v'. mlookup m k' = Some v' \<Longrightarrow> P k' v'"
    and "mlookup (merase k m) k' = Some v'"
  shows "P k' v'"
  using assms by (auto simp: lookup_erase split: if_splits)

end

subsection \<open>The sorted association list\<close>

text \<open>\<open>find\<close>, \<open>operator[] =\<close>, \<open>emplace\<close> (which leaves an existing entry alone) and \<open>erase\<close>.\<close>

type_synonym ('k, 'v) omap = "('k \<times> 'v) list"

definition map_find :: "('k::linorder, 'v) omap \<Rightarrow> 'k \<Rightarrow> 'v option" where
  "map_find m k = map_of m k"

fun map_assign :: "'k::linorder \<Rightarrow> 'v \<Rightarrow> ('k, 'v) omap \<Rightarrow> ('k, 'v) omap" where
  "map_assign k v [] = [(k, v)]"
| "map_assign k v ((k', v') # m) =
     (if k < k' then (k, v) # (k', v') # m
      else if k = k' then (k, v) # m
      else (k', v') # map_assign k v m)"

definition map_emplace :: "'k::linorder \<Rightarrow> 'v \<Rightarrow> ('k, 'v) omap \<Rightarrow> ('k, 'v) omap" where
  "map_emplace k v m = (case map_find m k of Some _ \<Rightarrow> m | None \<Rightarrow> map_assign k v m)"

fun map_erase :: "'k::linorder \<Rightarrow> ('k, 'v) omap \<Rightarrow> ('k, 'v) omap" where
  "map_erase k [] = []"
| "map_erase k ((k', v') # m) = (if k = k' then m else (k', v') # map_erase k m)"

definition map_keys :: "('k::linorder, 'v) omap \<Rightarrow> 'k list" where
  "map_keys m = map fst m"

definition map_ok :: "('k::linorder, 'v) omap \<Rightarrow> bool" where
  "map_ok m \<longleftrightarrow> sorted_wrt (<) (map fst m)"

lemma map_ok_Nil [simp]: "map_ok []"
  by (simp add: map_ok_def)

lemma map_ok_Cons [simp]:
  "map_ok ((k, v) # m) \<longleftrightarrow> (\<forall>k'\<in>fst ` set m. k < k') \<and> map_ok m"
  by (auto simp: map_ok_def)

lemma map_of_assign [simp]: "map_of (map_assign k v m) = (map_of m)(k \<mapsto> v)"
  by (induction k v m rule: map_assign.induct) auto

lemma fst_set_assign [simp]: "fst ` set (map_assign k v m) = insert k (fst ` set m)"
  by (induction k v m rule: map_assign.induct) auto

lemma map_ok_assign: "map_ok m \<Longrightarrow> map_ok (map_assign k v m)"
  by (induction k v m rule: map_assign.induct) auto

lemma set_erase: "map_ok m \<Longrightarrow> set (map_erase k m) = {p \<in> set m. fst p \<noteq> k}"
  by (induction k m rule: map_erase.induct) force+

lemma map_ok_erase: "map_ok m \<Longrightarrow> map_ok (map_erase k m)"
  by (induction k m rule: map_erase.induct) (auto simp: set_erase)

lemma map_of_erase: "map_ok m \<Longrightarrow> map_of (map_erase k m) = (map_of m)(k := None)"
proof (induction k m rule: map_erase.induct)
  case (2 k k' v' m)
  then have "map_of m k' = None"
    by (force simp: map_of_eq_None_iff)
  with 2 show ?case by (auto simp: fun_eq_iff)
qed simp

interpretation std_map: ordered_map map_find map_assign map_erase map_keys map_ok
proof
  fix m :: "('k::linorder, 'v) omap" and k k' v
  assume ok: "map_ok m"
  show "map_find (map_assign k v m) k' = (if k' = k then Some v else map_find m k')"
    by (simp add: map_find_def)
  show "map_find (map_erase k m) k' = (if k' = k then None else map_find m k')"
    using ok by (simp add: map_find_def map_of_erase)
  show "set (map_keys m) = {k. map_find m k \<noteq> None}"
    by (simp add: map_keys_def map_find_def map_of_eq_None_iff set_eq_iff)
  show "sorted_wrt (<) (map_keys m)"
    using ok by (simp add: map_ok_def map_keys_def)
qed (simp_all add: map_ok_assign map_ok_erase)

lemma map_find_emplace:
  "map_ok m \<Longrightarrow> map_find (map_emplace k v m) k'
     = (if k' = k \<and> map_find m k = None then Some v else map_find m k')"
  by (auto simp: map_emplace_def std_map.lookup_assign split: option.splits)

lemma map_ok_emplace: "map_ok m \<Longrightarrow> map_ok (map_emplace k v m)"
  by (simp add: map_emplace_def map_ok_assign split: option.splits)

lemma map_find_set: "map_ok m \<Longrightarrow> map_find m k = Some v \<longleftrightarrow> (k, v) \<in> set m"
  by (simp add: map_find_def map_ok_def strict_sorted_iff)

lemma map_ok_distinct: "map_ok m \<Longrightarrow> distinct (map fst m)"
  by (simp add: map_ok_def strict_sorted_iff)

lemma map_all_find:
  "map_ok m \<Longrightarrow> (\<forall>(k, v) \<in> set m. P k v) \<longleftrightarrow> (\<forall>k v. map_find m k = Some v \<longrightarrow> P k v)"
  by (auto simp: map_find_set)

end
