(* ===== verification/Dashboard.thy ===== *)
theory Dashboard
  imports Std_Map Session_Logic
begin

text \<open>
  \<open>server/dashboard_state.cpp\<close> and \<open>server/server_dashboard_sync.cpp\<close>, and the state changes of
  \<open>renderDashboard\<close> in \<open>server/imgui_dashboard.cpp\<close>: the aircraft shown to the operator, the
  selection, the last twenty log entries and the two pending operator requests.
\<close>

subsection \<open>State\<close>

record AircraftDashboardState =
  dash_id :: string
  dash_state :: State
  dash_connected :: bool
  dash_telemetryValid :: bool
  dash_telemetry :: TelemetryPayload
  dash_alert :: string

definition default_aircraft :: AircraftDashboardState where
  "default_aircraft =
     \<lparr> dash_id = ''N/A'', dash_state = DISCONNECTED, dash_connected = False,
       dash_telemetryValid = False, dash_telemetry = zero_telemetry, dash_alert = [] \<rparr>"

record DashboardState =
  aircraft :: "(string, AircraftDashboardState) omap"
  selectedAircraftId :: string
  recentLogEntries :: "string list"
  weatherRequestAircraftId :: string
  disconnectRequestAircraftId :: string

definition new_dashboard :: DashboardState where
  "new_dashboard =
     \<lparr> aircraft = [], selectedAircraftId = [], recentLogEntries = [],
       weatherRequestAircraftId = [], disconnectRequestAircraftId = [] \<rparr>"

fun dashboardShortStateLabel :: "State \<Rightarrow> string" where
  "dashboardShortStateLabel DISCONNECTED = ''DISCONNECTED''"
| "dashboardShortStateLabel HANDSHAKE_PENDING = ''HANDSHAKE_PENDING''"
| "dashboardShortStateLabel CONNECTED = ''CONNECTED''"
| "dashboardShortStateLabel TELEMETRY = ''TELEMETRY''"
| "dashboardShortStateLabel LARGE_FILE_TRANSFER = ''LARGE_FILE_TRANSFER''"
| "dashboardShortStateLabel FAULT = ''FAULT''"

subsection \<open>Selection\<close>

text \<open>
  A pointer to an aircraft entry is its key. \<open>std::map::begin()->first\<close> is the first key of the
  sorted list.
\<close>

definition selectedAircraft :: "DashboardState \<Rightarrow> string option \<times> DashboardState" where
  "selectedAircraft st =
     (let st1 = (if selectedAircraftId st = [] \<and> aircraft st \<noteq> []
                 then st\<lparr>selectedAircraftId := fst (hd (aircraft st))\<rparr> else st)
      in case map_find (aircraft st1) (selectedAircraftId st1) of
           Some _ \<Rightarrow> (Some (selectedAircraftId st1), st1)
         | None \<Rightarrow>
             if aircraft st1 \<noteq> []
             then (Some (fst (hd (aircraft st1))),
                   st1\<lparr>selectedAircraftId := fst (hd (aircraft st1))\<rparr>)
             else (None, st1\<lparr>selectedAircraftId := []\<rparr>))"

text \<open>An iterator of the map is a position of the list; \<open>end()\<close> is its length.\<close>

fun map_position :: "('k \<times> 'v) list \<Rightarrow> 'k \<Rightarrow> nat" where
  "map_position [] k = 0"
| "map_position ((k', v) # m) k = (if k' = k then 0 else Suc (map_position m k))"

definition selectRelativeAircraft :: "DashboardState \<Rightarrow> int \<Rightarrow> DashboardState" where
  "selectRelativeAircraft st direction =
     (if aircraft st = [] then st\<lparr>selectedAircraftId := []\<rparr>
      else
        let endpos = length (aircraft st);
            selected = map_position (aircraft st) (selectedAircraftId st)
        in if selected = endpos then st\<lparr>selectedAircraftId := fst (hd (aircraft st))\<rparr>
           else
             let target =
                   (if 0 < direction
                    then (let s = selected + 1 in if s = endpos then 0 else s)
                    else (let s = (if selected = 0 then endpos else selected) in s - 1))
             in st\<lparr>selectedAircraftId := fst (aircraft st ! target)\<rparr>)"

subsection \<open>Synchronisation with the sessions\<close>

definition appendDashboardLogEntry :: "DashboardState \<Rightarrow> string \<Rightarrow> DashboardState" where
  "appendDashboardLogEntry d entry =
     (let es = entry # recentLogEntries d
      in d\<lparr>recentLogEntries := (if 20 < length es then butlast es else es)\<rparr>)"

text \<open>\<open>dashboard.aircraft[id]\<close> creates a default entry where there is none.\<close>

definition syncDashboardAircraft :: "DashboardState \<Rightarrow> ClientSession \<Rightarrow> string \<Rightarrow> DashboardState" where
  "syncDashboardAircraft d session alertMessage =
     (if session_id session = [] then d
      else
        let old = (case map_find (aircraft d) (session_id session) of
                     Some a \<Rightarrow> a | None \<Rightarrow> default_aircraft);
            new = old\<lparr>dash_id := session_id session,
                      dash_state := session_state session,
                      dash_connected := (session_state session = CONNECTED
                                         \<or> session_state session = TELEMETRY),
                      dash_telemetry := latestTelemetry session,
                      dash_telemetryValid := telemetryValid session,
                      dash_alert := alertMessage\<rparr>;
            d1 = d\<lparr>aircraft := map_assign (session_id session) new (aircraft d)\<rparr>
        in if selectedAircraftId d1 = [] then d1\<lparr>selectedAircraftId := session_id session\<rparr> else d1)"

subsection \<open>The operator's frame\<close>

text \<open>
  What the operator did in one frame. A widget inside a disabled block reports no click, and
  \<open>ui_select\<close> says which rows of the aircraft list report one.
\<close>

record ui_input =
  ui_previous :: bool
  ui_next :: bool
  ui_select :: "string \<Rightarrow> bool"
  ui_weather :: bool
  ui_disconnect :: bool

definition entry_of :: "DashboardState \<Rightarrow> string option \<Rightarrow> AircraftDashboardState option" where
  "entry_of st sel = (case sel of None \<Rightarrow> None | Some k \<Rightarrow> map_find (aircraft st) k)"

fun select_rows :: "ui_input \<Rightarrow> string list \<Rightarrow> string option \<times> DashboardState \<Rightarrow> string option \<times> DashboardState" where
  "select_rows ui [] (sel, st) = (sel, st)"
| "select_rows ui (k # ks) (sel, st) =
     (if ui_select ui k then select_rows ui ks (Some k, st\<lparr>selectedAircraftId := k\<rparr>)
      else select_rows ui ks (sel, st))"

text \<open>The previous/next buttons, and the two request buttons.\<close>

definition step_selection ::
  "bool \<Rightarrow> int \<Rightarrow> string option \<times> DashboardState \<Rightarrow> string option \<times> DashboardState" where
  "step_selection pressed direction p =
     (if pressed then selectedAircraft (selectRelativeAircraft (snd p) direction) else p)"

definition request_buttons ::
  "bool \<Rightarrow> ui_input \<Rightarrow> string option \<times> DashboardState \<Rightarrow> DashboardState" where
  "request_buttons canControl ui p =
     (case p of (sel, st) \<Rightarrow>
        (case entry_of st sel of
           None \<Rightarrow> st
         | Some a \<Rightarrow>
             (let st1 = (if canControl \<and> ui_weather ui
                         then st\<lparr>weatherRequestAircraftId := dash_id a\<rparr> else st)
              in if canControl \<and> ui_disconnect ui
                 then st1\<lparr>disconnectRequestAircraftId := dash_id a\<rparr> else st1)))"

definition renderDashboard :: "ui_input \<Rightarrow> DashboardState \<Rightarrow> DashboardState" where
  "renderDashboard ui st0 =
     (let p1 = selectedAircraft st0;
          canControl = (case entry_of (snd p1) (fst p1) of
                          None \<Rightarrow> False | Some a \<Rightarrow> isVerifiedSessionState (dash_state a));
          enabled = (aircraft (snd p1) \<noteq> []);
          p2 = step_selection (enabled \<and> ui_previous ui) (- 1) p1;
          p3 = step_selection (enabled \<and> ui_next ui) 1 p2;
          p4 = select_rows ui (map fst (aircraft (snd p3))) p3
      in request_buttons canControl ui p4)"

subsection \<open>Lemmas\<close>

text \<open>
  The dashboard is well-formed: its map is sorted, each entry carries its own non-empty key and a
  \<open>connected\<close> flag that agrees with its state, and the log is bounded.
\<close>

definition dash_entry_ok :: "string \<Rightarrow> AircraftDashboardState \<Rightarrow> bool" where
  "dash_entry_ok k a \<longleftrightarrow> k \<noteq> [] \<and> dash_id a = k \<and> (dash_connected a \<longleftrightarrow> isVerifiedSessionState (dash_state a))"

definition dashboard_ok :: "DashboardState \<Rightarrow> bool" where
  "dashboard_ok d \<longleftrightarrow>
     map_ok (aircraft d) \<and> (\<forall>(k, a) \<in> set (aircraft d). dash_entry_ok k a) \<and>
     length (recentLogEntries d) \<le> 20"

lemma dashboard_ok_new [simp]: "dashboard_ok new_dashboard"
  by (simp add: dashboard_ok_def new_dashboard_def)

lemma append_entry_frame [frame, simp]:
  "aircraft (appendDashboardLogEntry d e) = aircraft d"
  "selectedAircraftId (appendDashboardLogEntry d e) = selectedAircraftId d"
  "weatherRequestAircraftId (appendDashboardLogEntry d e) = weatherRequestAircraftId d"
  "disconnectRequestAircraftId (appendDashboardLogEntry d e) = disconnectRequestAircraftId d"
  by (simp_all add: appendDashboardLogEntry_def Let_def)

lemma append_entry_take:
  assumes "length (recentLogEntries d) \<le> 20"
  shows "recentLogEntries (appendDashboardLogEntry d e) = take 20 (e # recentLogEntries d)"
proof (cases "length (recentLogEntries d) = 20")
  case True
  then show ?thesis by (simp add: appendDashboardLogEntry_def butlast_conv_take take_Cons')
next
  case False
  with assms show ?thesis by (simp add: appendDashboardLogEntry_def)
qed

lemma append_entry_ok: "dashboard_ok d \<Longrightarrow> dashboard_ok (appendDashboardLogEntry d e)"
  by (simp add: dashboard_ok_def append_entry_take)

lemma sync_frame [frame, simp]:
  "recentLogEntries (syncDashboardAircraft d session a) = recentLogEntries d"
  "weatherRequestAircraftId (syncDashboardAircraft d session a) = weatherRequestAircraftId d"
  "disconnectRequestAircraftId (syncDashboardAircraft d session a) = disconnectRequestAircraftId d"
  by (simp_all add: syncDashboardAircraft_def Let_def)

lemma sync_selected [simp]:
  "selectedAircraftId d \<noteq> [] \<Longrightarrow> selectedAircraftId (syncDashboardAircraft d session a) = selectedAircraftId d"
  by (simp add: syncDashboardAircraft_def Let_def)

lemma sync_entry:
  assumes "map_ok (aircraft d)"
  shows "map_find (aircraft (syncDashboardAircraft d session msg)) k =
     (if session_id session \<noteq> [] \<and> k = session_id session
      then Some \<lparr> dash_id = k, dash_state = session_state session,
                  dash_connected = isVerifiedSessionState (session_state session),
                  dash_telemetryValid = telemetryValid session,
                  dash_telemetry = latestTelemetry session, dash_alert = msg \<rparr>
      else map_find (aircraft d) k)"
  using assms
  by (simp add: syncDashboardAircraft_def Let_def std_map.lookup_assign isVerifiedSessionState_def)

lemma sync_ok:
  assumes "dashboard_ok d"
  shows "dashboard_ok (syncDashboardAircraft d session msg)"
proof -
  have ok: "map_ok (aircraft d)" using assms by (simp add: dashboard_ok_def)
  have ok': "map_ok (aircraft (syncDashboardAircraft d session msg))"
    using ok by (simp add: syncDashboardAircraft_def Let_def map_ok_assign)
  moreover have "\<forall>k a. map_find (aircraft d) k = Some a \<longrightarrow> dash_entry_ok k a"
    using assms ok map_all_find [OF ok, of dash_entry_ok] by (simp add: dashboard_ok_def)
  then have "\<forall>k a. map_find (aircraft (syncDashboardAircraft d session msg)) k = Some a
               \<longrightarrow> dash_entry_ok k a"
    by (auto simp: sync_entry [OF ok] dash_entry_ok_def)
  ultimately show ?thesis
    using assms map_all_find [OF ok', of dash_entry_ok] by (simp add: dashboard_ok_def)
qed

lemma map_position_less: "k \<in> fst ` set m \<Longrightarrow> map_position m k < length m \<and> fst (m ! map_position m k) = k"
  by (induction m k rule: map_position.induct) auto

lemma map_position_end: "map_position m k = length m \<longleftrightarrow> k \<notin> fst ` set m"
  by (induction m k rule: map_position.induct) auto

lemma map_position_nth:
  "distinct (map fst m) \<Longrightarrow> i < length m \<Longrightarrow> map_position m (fst (m ! i)) = i"
proof (induction m arbitrary: i)
  case (Cons p m)
  then have "fst p \<noteq> fst (m ! j)" if "j < length m" for j
    using that Cons.prems(1) nth_mem [OF that] by (auto dest: imageI [of "m ! j" "set m" fst])
  with Cons show ?case by (cases p; cases i) auto
qed simp

lemma position_end_less: "map_position m k \<noteq> length m \<Longrightarrow> map_position m k < length m"
  by (induction m k rule: map_position.induct) auto

text \<open>Moving forwards and backwards, by position.\<close>

lemma selectRelative_pos:
  assumes "distinct (map fst (aircraft st))" "i < length (aircraft st)"
    "selectedAircraftId st = fst (aircraft st ! i)"
  shows "selectedAircraftId (selectRelativeAircraft st 1) =
           fst (aircraft st ! (Suc i mod length (aircraft st)))"
    and "selectedAircraftId (selectRelativeAircraft st (- 1)) =
           fst (aircraft st ! ((i + length (aircraft st) - 1) mod length (aircraft st)))"
proof -
  let ?n = "length (aircraft st)"
  have pos: "map_position (aircraft st) (selectedAircraftId st) = i"
    using assms by (simp add: map_position_nth)
  have ne: "aircraft st \<noteq> []" "i \<noteq> ?n" using assms by auto
  have s: "(if Suc i = ?n then 0 else Suc i) = Suc i mod ?n" using assms(2) by auto
  have p: "(if i = 0 then ?n else i) - 1 = (i + ?n - 1) mod ?n"
    using assms(2) by (auto simp: mod_if)
  show "selectedAircraftId (selectRelativeAircraft st 1) = fst (aircraft st ! (Suc i mod ?n))"
    using ne pos s by (simp add: selectRelativeAircraft_def Let_def)
  show "selectedAircraftId (selectRelativeAircraft st (- 1)) = fst (aircraft st ! ((i + ?n - 1) mod ?n))"
    using ne pos p by (simp add: selectRelativeAircraft_def Let_def)
qed

lemma selectRelative_frame [frame, simp]:
  "aircraft (selectRelativeAircraft st d) = aircraft st"
  "recentLogEntries (selectRelativeAircraft st d) = recentLogEntries st"
  "weatherRequestAircraftId (selectRelativeAircraft st d) = weatherRequestAircraftId st"
  "disconnectRequestAircraftId (selectRelativeAircraft st d) = disconnectRequestAircraftId st"
  by (simp_all add: selectRelativeAircraft_def Let_def)

lemma selectedAircraft_frame [frame, simp]:
  "aircraft (snd (selectedAircraft st)) = aircraft st"
  "recentLogEntries (snd (selectedAircraft st)) = recentLogEntries st"
  by (simp_all add: selectedAircraft_def Let_def split: option.splits)

lemma select_rows_frame [frame]:
  "aircraft (snd (select_rows ui ks p)) = aircraft (snd p)"
  "recentLogEntries (snd (select_rows ui ks p)) = recentLogEntries (snd p)"
  by (induction ui ks p rule: select_rows.induct) simp_all

text \<open>A frame changes the selection and the requests, never the aircraft or the log.\<close>

lemma step_selection_frame [frame, simp]:
  "aircraft (snd (step_selection b d p)) = aircraft (snd p)"
  "recentLogEntries (snd (step_selection b d p)) = recentLogEntries (snd p)"
  by (simp_all add: step_selection_def)

lemma request_buttons_frame [frame, simp]:
  "aircraft (request_buttons c ui p) = aircraft (snd p)"
  "recentLogEntries (request_buttons c ui p) = recentLogEntries (snd p)"
  by (simp_all add: request_buttons_def Let_def split: prod.split option.split)

lemma renderDashboard_frame [frame, simp]:
  "aircraft (renderDashboard ui st) = aircraft st"
  "recentLogEntries (renderDashboard ui st) = recentLogEntries st"
  by (simp_all add: renderDashboard_def Let_def select_rows_frame)

text \<open>A click on one aircraft's row selects it, and a click on the weather button then requests its map.\<close>

definition click_row :: "string \<Rightarrow> ui_input" where
  "click_row k = \<lparr>ui_previous = False, ui_next = False, ui_select = (\<lambda>j. j = k), ui_weather = False, ui_disconnect = False\<rparr>"

definition click_weather :: ui_input where
  "click_weather = \<lparr>ui_previous = False, ui_next = False, ui_select = (\<lambda>j. False), ui_weather = True, ui_disconnect = False\<rparr>"

lemma select_rows_one:
  "select_rows (click_row k) ks (sel, st) =
     (if k \<in> set ks then (Some k, st\<lparr>selectedAircraftId := k\<rparr>) else (sel, st))"
  by (induction ks arbitrary: sel st) (auto simp: click_row_def)

lemma select_rows_none: "select_rows click_weather ks p = p"
  by (induction ks arbitrary: p) (auto simp: click_weather_def)

lemma click_row_selects:
  assumes "map_find (aircraft st) k = Some a"
  shows "selectedAircraftId (renderDashboard (click_row k) st) = k"
proof -
  have "k \<in> fst ` set (aircraft st)"
    using assms unfolding map_find_def by (metis image_eqI fst_conv map_of_SomeD)
  moreover obtain sel d where d: "selectedAircraft st = (sel, d)" "aircraft d = aircraft st"
    using selectedAircraft_frame(1) [of st] by (cases "selectedAircraft st") auto
  moreover have "\<not> ui_weather (click_row k)" "\<not> ui_disconnect (click_row k)" "\<not> ui_previous (click_row k)"
    "\<not> ui_next (click_row k)"
    by (simp_all add: click_row_def)
  ultimately show ?thesis
    by (simp add: renderDashboard_def Let_def step_selection_def select_rows_one request_buttons_def split: option.split)
qed

lemma click_weather_requests:
  assumes "map_find (aircraft st) (selectedAircraftId st) = Some a" "selectedAircraftId st \<noteq> []"
    and "isVerifiedSessionState (dash_state a)"
  shows "weatherRequestAircraftId (renderDashboard click_weather st) = dash_id a"
proof -
  have "selectedAircraft st = (Some (selectedAircraftId st), st)"
    using assms by (simp add: selectedAircraft_def)
  moreover have "ui_weather click_weather" "\<not> ui_disconnect click_weather" "\<not> ui_previous click_weather"
    "\<not> ui_next click_weather"
    by (simp_all add: click_weather_def)
  ultimately show ?thesis
    using assms
    by (simp add: renderDashboard_def Let_def step_selection_def select_rows_none request_buttons_def entry_of_def)
qed

subsection \<open>Properties\<close>

lemma selectRelative_repeat:
  assumes "distinct (map fst (aircraft st))" "i < length (aircraft st)"
    "selectedAircraftId st = fst (aircraft st ! i)"
  shows "selectedAircraftId (((\<lambda>st. selectRelativeAircraft st 1) ^^ k) st) =
           fst (aircraft st ! ((i + k) mod length (aircraft st))) \<and>
         aircraft (((\<lambda>st. selectRelativeAircraft st 1) ^^ k) st) = aircraft st"
proof (induction k)
  case 0
  then show ?case using assms by simp
next
  case (Suc k)
  let ?st = "((\<lambda>st. selectRelativeAircraft st 1) ^^ k) st"
  let ?n = "length (aircraft st)"
  have "(i + k) mod ?n < ?n" using assms(2) by (intro mod_less_divisor) auto
  then have "selectedAircraftId (selectRelativeAircraft ?st 1) = fst (aircraft st ! (Suc ((i + k) mod ?n) mod ?n))"
    using Suc selectRelative_pos(1) [of ?st "(i + k) mod ?n"] assms(1) by simp
  then show ?case using Suc by (simp add: mod_Suc_eq)
qed

text \<open>
  The flight buttons walk the aircraft in a circle: with aircraft \<open>i\<close> of \<open>n\<close> selected, \<open>k\<close>
  presses of Next select aircraft \<open>i + k\<close> modulo \<open>n\<close> (so \<open>n\<close> presses visit each aircraft and come
  back), and Previous undoes Next.
\<close>

theorem selection_cycles:
  assumes "dashboard_ok st" "i < length (aircraft st)" "selectedAircraftId st = fst (aircraft st ! i)"
  shows "selectedAircraftId (((\<lambda>st. selectRelativeAircraft st 1) ^^ k) st) =
           fst (aircraft st ! ((i + k) mod length (aircraft st))) \<and>
         selectedAircraftId (selectRelativeAircraft (selectRelativeAircraft st 1) (- 1)) =
           selectedAircraftId st"
proof -
  let ?n = "length (aircraft st)"
  have d: "distinct (map fst (aircraft st))"
    using assms(1) by (simp add: dashboard_ok_def map_ok_distinct)
  let ?j = "Suc i mod ?n"
  have j: "?j < ?n" using assms(2) by (intro mod_less_divisor) auto
  have "selectedAircraftId (selectRelativeAircraft (selectRelativeAircraft st 1) (- 1)) =
      fst (aircraft st ! ((?j + ?n - 1) mod ?n))"
    using selectRelative_pos(2) [of "selectRelativeAircraft st 1" ?j] selectRelative_pos(1) [OF d assms(2,3)]
      d j by simp
  moreover have "(?j + ?n - 1) mod ?n = i"
    using assms(2) by (cases "Suc i = ?n") auto
  ultimately show ?thesis using selectRelative_repeat [OF d assms(2,3), of k] assms(3) by simp
qed

definition example_dashboard :: DashboardState where
  "example_dashboard = new_dashboard\<lparr>aircraft :=
     [(''AC-001'', default_aircraft\<lparr>dash_id := ''AC-001''\<rparr>), (''AC-002'', default_aircraft\<lparr>dash_id := ''AC-002''\<rparr>),
      (''AC-007'', default_aircraft\<lparr>dash_id := ''AC-007''\<rparr>)], selectedAircraftId := ''AC-007''\<rparr>"

theorem selection_cycles_witness:
  "selectedAircraftId (((\<lambda>st. selectRelativeAircraft st 1) ^^ 2) example_dashboard) = ''AC-002''"
proof -
  have ok: "dashboard_ok example_dashboard"
    by (simp add: dashboard_ok_def example_dashboard_def new_dashboard_def dash_entry_ok_def
        default_aircraft_def isVerifiedSessionState_def list_less_def less_char_def)
  have "2 < length (aircraft example_dashboard)"
    "selectedAircraftId example_dashboard = fst (aircraft example_dashboard ! 2)"
    by (simp_all add: example_dashboard_def)
  from selection_cycles [OF ok this, of 2] show ?thesis by (simp add: example_dashboard_def)
qed

end
