(* ===== verification/Weather_Map.thy ===== *)
theory Weather_Map
  imports Std_Float Packet
begin

text \<open>
  \<open>server/weather_map.{h,cpp}\<close>: the seed of an aircraft, the synthetic storm image drawn from
  the seed and the last telemetry, and the BMP file that carries it. Signed arithmetic that
  leaves \<open>int\<close>, and conversions of out-of-range floats, are undefined in C++: the result is
  \<open>None\<close> there. The width and height are 1024 pixels of three bytes.
\<close>

definition checked :: "int \<Rightarrow> int option" where
  "checked i = (if INT_MIN \<le> i \<and> i \<le> INT_MAX then Some i else None)"

definition clamp :: "int \<Rightarrow> int \<Rightarrow> int \<Rightarrow> int" where
  "clamp v lo hi = (if v < lo then lo else if hi < v then hi else v)"

definition clampChannel :: "int \<Rightarrow> byte" where
  "clampChannel v = word_of_int (clamp v 0 255)"

definition formatSequence :: "u32 \<Rightarrow> string" where
  "formatSequence n = ''seq'' @ pad0 4 (dec (unat n))"

definition fileTimestampUtc :: "nat \<Rightarrow> string" where
  "fileTimestampUtc ms = fmt_file (gmtime (ms div 1000)) @ ''_'' @ pad0 3 (dec (ms mod 1000))"

definition generatedWeatherMapPathFor :: "nat \<Rightarrow> string \<Rightarrow> u32 \<Rightarrow> string" where
  "generatedWeatherMapPathFor ms aircraftId n =
     ''runtime/bitmaps/generated'' @ ''/'' @ fileTimestampUtc ms @ ''_'' @ aircraftId @ ''_''
       @ formatSequence n @ ''_weather_map.bmp''"

subsection \<open>Seeds\<close>

definition seed_step :: "u32 \<Rightarrow> char \<Rightarrow> u32" where
  "seed_step seed ch = (seed XOR ucast (byte_of_char ch)) * 16777619"

definition aircraftSeed :: "string \<Rightarrow> u32" where
  "aircraftSeed aircraftId = foldl seed_step 2166136261 aircraftId"

record WeatherMapContext =
  ctx_id :: string
  ctx_telemetry :: TelemetryPayload
  ctx_valid :: bool

definition map_seed :: "string \<Rightarrow> u32 \<Rightarrow> u32" where
  "map_seed aircraftId n = aircraftSeed aircraftId XOR (n * 2246822519)"

lemma odd_mult_inject:
  assumes "(c::u32) * d = 1"
  shows "a * c = b * c \<longleftrightarrow> a = b"
proof
  assume "a * c = b * c"
  then have "a * (c * d) = b * (c * d)" by (simp add: mult.assoc [symmetric])
  with assms show "a = b" by simp
qed simp

lemma xor_inject: "(a::u32) XOR c = b XOR c \<longleftrightarrow> a = b"
proof
  assume "a XOR c = b XOR c"
  then have "(a XOR c) XOR c = (b XOR c) XOR c" by (simp only:)
  then show "a = b" by (simp only: xor.assoc xor_self_eq xor.right_neutral)
qed simp

lemma fnv_prime_inject: "(a::u32) * 16777619 = b * 16777619 \<longleftrightarrow> a = b"
  by (rule odd_mult_inject [where d = 899433627]) simp

lemma transfer_prime_inject: "(a::u32) * 2246822519 = b * 2246822519 \<longleftrightarrow> a = b"
  by (rule odd_mult_inject [where d = 3066638151]) simp

lemma seed_step_inject_seed: "seed_step a ch = seed_step b ch \<longleftrightarrow> a = b"
  unfolding seed_step_def fnv_prime_inject by (rule xor_inject)

lemma byte_of_char_inject: "byte_of_char a = byte_of_char b \<longleftrightarrow> a = b"
  by (metis char_of_byte_of_char)

lemma seed_step_inject_char: "seed_step a ch = seed_step a ch' \<longleftrightarrow> ch = ch'"
  unfolding seed_step_def fnv_prime_inject xor.commute [of a] xor_inject ucast_byte_eq
  by (rule byte_of_char_inject)

lemma foldl_seed_inject: "foldl seed_step a s = foldl seed_step b s \<longleftrightarrow> a = b"
  by (induction s arbitrary: a b) (simp_all add: seed_step_inject_seed)

subsection \<open>The storm's parameters\<close>

record Storm =
  centerX :: int
  centerY :: int
  radius :: int
  frontOffset :: int
  altitudeBand :: int

text \<open>From the seed alone, before any telemetry came.\<close>

definition seed_storm :: "u32 \<Rightarrow> Storm" where
  "seed_storm seed =
     \<lparr> centerX = uint (seed mod 1024),
       centerY = uint (drop_bit 12 seed mod 1024),
       radius = 160 + uint (seed mod 120),
       frontOffset = uint (drop_bit 20 seed mod 220),
       altitudeBand = 180 + uint (drop_bit 8 seed mod 320) \<rparr>"

text \<open>From the latest telemetry.\<close>

definition telemetry_storm :: "TelemetryPayload \<Rightarrow> Storm option" where
  "telemetry_storm t =
     Option.bind (f32_to_int (f32_mul_pos (f32_div_pos (f32_add (f32_of_bits (longitude t)) (Fin 180)) 360) 1023)) (\<lambda>lon.
     Option.bind (f32_to_int (f32_mul_pos (f32_div_pos (f32_add (f32_of_bits (latitude t)) (Fin 90)) 180) 1023)) (\<lambda>lat.
     Option.bind (checked (1024 - 1 - lat)) (\<lambda>cy.
     Option.bind (f32_to_int (f32_mul_pos (f32_of_bits (speed t)) (1 / 4))) (\<lambda>spd.
     Option.bind (checked (150 + spd)) (\<lambda>rad.
     Option.bind (f32_to_int (f32_of_bits (heading t))) (\<lambda>hdg.
     Option.bind (f32_to_int (f32_div_pos (f32_of_bits (altitude t)) 120)) (\<lambda>alt.
     Some \<lparr> centerX = clamp lon 0 (1024 - 1),
            centerY = clamp cy 0 (1024 - 1),
            radius = clamp rad 150 320,
            frontOffset = hdg smod 220,
            altitudeBand = clamp alt 120 (1024 - 1) \<rparr>)))))))"

subsection \<open>Pixels\<close>

definition stormIntensity :: "Storm \<Rightarrow> int \<Rightarrow> int \<Rightarrow> int" where
  "stormIntensity st x y =
     (let falloff = max 1 ((radius st * radius st) sdiv 255);
          dx = x - centerX st; dy = y - centerY st
      in max 0 (255 - ((dx * dx + dy * dy) sdiv falloff)))"

definition triangle :: "int \<Rightarrow> int \<Rightarrow> int \<Rightarrow> int" where
  "triangle peak half v = max 0 (peak - \<bar>v smod (2 * half) - half\<bar>)"

definition pixel :: "u32 \<Rightarrow> Storm \<Rightarrow> int \<Rightarrow> int \<Rightarrow> byte list option" where
  "pixel seed st x y =
     (let storm = stormIntensity st x y;
          frontBand = triangle 120 120 ((x + y) + frontOffset st);
          altitudeStripe = triangle 90 90 ((y * 2) + altitudeBand st);
          turbulence = triangle 75 75 ((x XOR y) + uint (seed AND 0xFF));
          blueBase = 85 + ((x * 70) sdiv 1024) + uint (drop_bit 16 seed AND 0x1F);
          greenBase = 55 + ((y * 65) sdiv 1024) + uint (drop_bit 8 seed AND 0x1F);
          redBase = 20 + (((x + y) * 30) sdiv (1024 + 1024)) + uint (seed AND 0x1F);
          blue = blueBase + (storm sdiv 2) + (frontBand sdiv 5);
          green = greenBase + (storm sdiv 4) + (altitudeStripe sdiv 3);
          red = redBase + (storm sdiv 7) + (frontBand sdiv 3) + (turbulence sdiv 4)
      in if 205 < storm
         then Option.bind (checked (x + y + sint seed)) (\<lambda>v.
                if v smod 97 = 0
                then Some [clampChannel 220, clampChannel 245, clampChannel 250]
                else Some [clampChannel blue, clampChannel green, clampChannel red])
         else Some [clampChannel blue, clampChannel green, clampChannel red])"

subsection \<open>The file\<close>

definition put_bytes :: "nat \<Rightarrow> byte list \<Rightarrow> byte list \<Rightarrow> byte list" where
  "put_bytes off bs buf = take off buf @ bs @ drop (off + length bs) buf"

definition le16 :: "16 word \<Rightarrow> byte list" where
  "le16 w = [ucast w, ucast (drop_bit 8 w)]"

definition pixelDataSize :: u32 where "pixelDataSize = 1024 * 1024 * 3"
definition fileSize :: u32 where "fileSize = 54 + pixelDataSize"

definition bmp_header :: "byte list" where
  "bmp_header =
     (let h0 = replicate 54 0;
          h1 = put_bytes 0 [byte_of_char (CHR ''B'')] h0;
          h2 = put_bytes 1 [byte_of_char (CHR ''M'')] h1;
          h3 = put_bytes 2 (le32 fileSize) h2;
          h4 = put_bytes 10 (le32 54) h3;
          h5 = put_bytes 14 (le32 40) h4;
          h6 = put_bytes 18 (le32 1024) h5;
          h7 = put_bytes 22 (le32 1024) h6;
          h8 = put_bytes 26 (le16 1) h7;
          h9 = put_bytes 28 (le16 24) h8
      in put_bytes 34 (le32 pixelDataSize) h9)"

definition pixel_row :: "u32 \<Rightarrow> Storm \<Rightarrow> int \<Rightarrow> byte list option" where
  "pixel_row seed st y = map_option concat (those (map (\<lambda>x. pixel seed st (int x) y) [0..<1024]))"

definition pixel_rows :: "u32 \<Rightarrow> Storm \<Rightarrow> byte list option" where
  "pixel_rows seed st =
     map_option concat (those (map (\<lambda>y. pixel_row seed st (int y)) (rev [0..<1024])))"

text \<open>What \<open>generateWeatherMap\<close> writes to its file.\<close>

definition generateWeatherMap :: "WeatherMapContext \<Rightarrow> u32 \<Rightarrow> byte list option" where
  "generateWeatherMap context n =
     (let seed = map_seed (ctx_id context) n
      in Option.bind (if ctx_valid context then telemetry_storm (ctx_telemetry context)
                      else Some (seed_storm seed)) (\<lambda>st.
         map_option (\<lambda>rows. bmp_header @ rows) (pixel_rows seed st)))"

subsection \<open>Sizes and ranges\<close>

lemma length_put_bytes [simp]: "off + length bs \<le> length buf \<Longrightarrow> length (put_bytes off bs buf) = length buf"
  by (simp add: put_bytes_def)

lemma length_le16 [simp]: "length (le16 w) = 2"
  by (simp add: le16_def)

lemma length_bmp_header [simp]: "length bmp_header = 54"
  by (simp add: bmp_header_def Let_def)

lemma those_Some_length: "those xs = Some ys \<Longrightarrow> length ys = length xs"
  by (induction xs arbitrary: ys) (auto split: option.splits)

lemma those_all: "those (map f xs) = Some ys \<Longrightarrow> y \<in> set ys \<Longrightarrow> \<exists>x\<in>set xs. f x = Some y"
  by (induction xs arbitrary: ys) (auto split: option.splits)

lemma those_map_Some: "(\<forall>x\<in>set xs. f x \<noteq> None) \<Longrightarrow> those (map f xs) \<noteq> None"
  by (induction xs) (auto split: option.splits)

lemma length_concat_const: "(\<forall>x\<in>set xs. length x = n) \<Longrightarrow> length (concat xs) = length xs * n"
  by (induction xs) auto

lemma length_pixel: "pixel seed st x y = Some bs \<Longrightarrow> length bs = 3"
  by (auto simp: pixel_def Let_def checked_def split: if_splits)

lemma length_those_concat:
  assumes "map_option concat (those (map f xs)) = Some bs"
    and "\<And>x b. f x = Some b \<Longrightarrow> length b = n"
  shows "length bs = length xs * n"
proof -
  obtain ys where ys: "those (map f xs) = Some ys" "bs = concat ys"
    using assms(1) by auto
  then have "\<forall>y\<in>set ys. length y = n"
    using assms(2) by (auto dest: those_all)
  then have "length (concat ys) = length ys * n" by (rule length_concat_const)
  with ys show ?thesis by (simp add: those_Some_length)
qed

lemma length_pixel_row: "pixel_row seed st y = Some bs \<Longrightarrow> length bs = 3072"
  using length_those_concat [of "\<lambda>x. pixel seed st (int x) y" "[0..<1024]" bs 3]
  by (simp add: pixel_row_def length_pixel)

lemma length_pixel_rows: "pixel_rows seed st = Some bs \<Longrightarrow> length bs = 3145728"
  using length_those_concat [of "\<lambda>y. pixel_row seed st (int y)" "rev [0..<1024]" bs 3072]
  by (simp add: pixel_rows_def length_pixel_row)

lemma length_generated: "generateWeatherMap context n = Some bs \<Longrightarrow> length bs = 3145782"
  by (auto simp: generateWeatherMap_def Let_def length_pixel_rows split: bind_splits)

lemma unat_fileSize: "unat fileSize = 3145782"
  by (simp add: fileSize_def pixelDataSize_def)

lemma bmp_header_fields:
  "take 2 bmp_header = map byte_of_char ''BM''"
  "take 4 (drop 2 bmp_header) = le32 fileSize"
  "take 4 (drop 10 bmp_header) = le32 54"
  "take 4 (drop 18 bmp_header) = le32 1024"
  "take 4 (drop 22 bmp_header) = le32 1024"
  by code_simp+

lemma pixel_defined: "sint seed \<le> INT_MAX - 2046 \<Longrightarrow> 0 \<le> x \<Longrightarrow> x < 1024 \<Longrightarrow> 0 \<le> y \<Longrightarrow> y < 1024 \<Longrightarrow>
    pixel seed st x y \<noteq> None"
  using sint_ge [of seed] by (auto simp: pixel_def Let_def checked_def INT_MIN_def)

lemma pixel_rows_defined:
  assumes "sint seed \<le> INT_MAX - 2046"
  shows "pixel_rows seed st \<noteq> None"
proof -
  have "pixel_row seed st (int y) \<noteq> None" if "y < 1024" for y
    using that pixel_defined [OF assms, of _ "int y" st]
      those_map_Some [of "[0..<1024]" "\<lambda>x. pixel seed st (int x) (int y)"]
    by (auto simp: pixel_row_def)
  then show ?thesis
    using those_map_Some [of "rev [0..<1024]" "\<lambda>y. pixel_row seed st (int y)"]
    by (auto simp: pixel_rows_def)
qed

lemma those_None: "x \<in> set xs \<Longrightarrow> f x = None \<Longrightarrow> those (map f xs) = None"
  by (induction xs) (auto split: option.splits)

lemma pixel_rows_undefined:
  assumes "x < 1024" "y < 1024" "pixel seed st (int x) (int y) = None"
  shows "pixel_rows seed st = None"
proof -
  have "those (map (\<lambda>x. pixel seed st (int x) (int y)) [0..<1024]) = None"
    using assms by (intro those_None [of x]) auto
  then have "pixel_row seed st (int y) = None"
    by (simp add: pixel_row_def)
  then have "those (map (\<lambda>y. pixel_row seed st (int y)) (rev [0..<1024])) = None"
    using assms by (intro those_None [of y]) auto
  then show ?thesis by (simp add: pixel_rows_def)
qed

subsection \<open>Properties\<close>

definition first_context :: WeatherMapContext where
  "first_context = \<lparr> ctx_id = ''AC-001'', ctx_telemetry = zero_telemetry, ctx_valid = False \<rparr>"

lemma first_map_defined: "generateWeatherMap first_context 1 \<noteq> None"
proof -
  have "sint (map_seed (ctx_id first_context) 1) \<le> INT_MAX - 2046" by code_simp
  then have "pixel_rows (map_seed (ctx_id first_context) 1) st \<noteq> None" for st
    by (rule pixel_rows_defined)
  then show ?thesis
    by (simp add: generateWeatherMap_def Let_def first_context_def)
qed

text \<open>
  C37. A generated weather map is a well-formed BMP of the size it announces: whenever
  \<open>generateWeatherMap\<close> is defined, the file starts with BM, its header gives 1024 by 1024 pixels
  and exactly the file's length, which is 3,145,782 bytes (more than one megabyte).
\<close>

theorem generated_map_well_formed:
  assumes "generateWeatherMap context n = Some bs"
  shows "take 2 bs = map byte_of_char ''BM'' \<and>
         unat (un_le32 (take 4 (drop 2 bs))) = length bs \<and>
         un_le32 (take 4 (drop 18 bs)) = 1024 \<and> un_le32 (take 4 (drop 22 bs)) = 1024 \<and>
         length bs = 3145782"
proof -
  obtain rows where bs: "bs = bmp_header @ rows"
    using assms by (auto simp: generateWeatherMap_def Let_def split: bind_splits)
  have "length bs = 3145782" using assms by (rule length_generated)
  then show ?thesis using bmp_header_fields by (simp add: bs unat_fileSize)
qed

theorem generated_map_well_formed_witness:
  "\<exists>bs. generateWeatherMap first_context 1 = Some bs \<and> length bs = 3145782"
proof -
  from first_map_defined obtain bs where "generateWeatherMap first_context 1 = Some bs" by blast
  with generated_map_well_formed [OF this] show ?thesis by blast
qed

text \<open>
  Without telemetry the map is always drawn unless the seed, read as a signed integer, lies
  within 2046 of the largest one.
\<close>

lemma map_defined_without_telemetry:
  assumes "\<not> ctx_valid context" "sint (map_seed (ctx_id context) n) \<le> INT_MAX - 2046"
  shows "\<exists>bs. generateWeatherMap context n = Some bs"
  using assms pixel_rows_defined [of "map_seed (ctx_id context) n"]
  by (auto simp: generateWeatherMap_def Let_def)

text \<open>
  C38. The arithmetic of the map is not safe: for AC-814's transfer 155, before any telemetry, the
  sum of a pixel's coordinates and the signed seed overflows \<open>int\<close>; and after telemetry whose
  longitude is an infinity the conversion to \<open>int\<close> is undefined whatever the aircraft and
  the transfer.
\<close>

theorem map_undefined_cases:
  "generateWeatherMap \<lparr> ctx_id = ''AC-814'', ctx_telemetry = t, ctx_valid = False \<rparr> 155 = None \<and>
   generateWeatherMap \<lparr> ctx_id = i, ctx_telemetry = t\<lparr>longitude := 0x7F800000\<rparr>, ctx_valid = True \<rparr> n = None"
proof
  have "pixel (map_seed ''AC-814'' 155) (seed_storm (map_seed ''AC-814'' 155)) (int 768) (int 1023) = None"
    by code_simp
  then have "pixel_rows (map_seed ''AC-814'' 155) (seed_storm (map_seed ''AC-814'' 155)) = None"
    by (intro pixel_rows_undefined [of 768 1023]) simp_all
  then show "generateWeatherMap \<lparr> ctx_id = ''AC-814'', ctx_telemetry = t, ctx_valid = False \<rparr> 155 = None"
    by (simp add: generateWeatherMap_def)
  have "f32_of_bits 0x7F800000 = Inf False" by code_simp
  then show "generateWeatherMap \<lparr> ctx_id = i, ctx_telemetry = t\<lparr>longitude := 0x7F800000\<rparr>, ctx_valid = True \<rparr> n = None"
    by (simp add: generateWeatherMap_def telemetry_storm_def Let_def)
qed

text \<open>
  Different transfers to one aircraft use different seeds, and so do ids of one length that
  differ in a single position: the seed functions are injective on the 2^32 transfer numbers
  and in each character of the id.
\<close>

theorem map_seed_injective:
  "(map_seed i n = map_seed i n' \<longleftrightarrow> n = n') \<and>
   (map_seed (p @ [c] @ s) n = map_seed (p @ [c'] @ s) n \<longleftrightarrow> c = c')"
proof
  show "map_seed i n = map_seed i n' \<longleftrightarrow> n = n'"
    unfolding map_seed_def xor.commute [of "aircraftSeed i"] xor_inject
    by (rule transfer_prime_inject)
  show "map_seed (p @ [c] @ s) n = map_seed (p @ [c'] @ s) n \<longleftrightarrow> c = c'"
    by (simp add: map_seed_def xor_inject aircraftSeed_def foldl_seed_inject seed_step_inject_char)
qed

end
