(* ===== verification/Ground_Server.thy ===== *)
theory Ground_Server
  imports Logger Dashboard Weather_Map
begin

text \<open>
  The handlers of \<open>server/ground_server.cpp\<close>: one received packet, one handshake, one weather-map
  transfer, one fault. A handler takes the session by value and returns it with the world; the
  server loop writes it back. \<open>world\<close> is everything a handler shares with the rest of the
  program, \<open>host\<close> what the machine decides: clock readings, disk, memory.
\<close>

subsection \<open>The host and the world\<close>

text \<open>
  \<open>steady_at i\<close> and \<open>system_at i\<close> are the i-th readings of the steady clock (nanoseconds) and of
  the UTC clock (milliseconds). \<open>disk path bs\<close> is what the file holds when it is opened after
  \<open>bs\<close> was written to it, \<open>None\<close> if it cannot be opened. \<open>undef_map\<close> is what the map
  generator leaves in the file where C++ does not define its result.
\<close>

record host =
  steady_at :: "nat \<Rightarrow> time"
  system_at :: "nat \<Rightarrow> nat"
  disk :: "string \<Rightarrow> byte list \<Rightarrow> byte list option"
  alloc_ok :: "nat \<Rightarrow> bool"
  read_ok :: "string \<Rightarrow> bool"
  undef_map :: "WeatherMapContext \<Rightarrow> u32 \<Rightarrow> byte list"

record world =
  logger :: Logger
  shared :: DashboardState
  wnet :: net
  steady_reads :: nat
  system_reads :: nat

definition steady_now :: "host \<Rightarrow> world \<Rightarrow> time" where
  "steady_now E w = steady_at E (steady_reads w)"

definition steady_tick :: "world \<Rightarrow> world" where
  "steady_tick w = w\<lparr>steady_reads := Suc (steady_reads w)\<rparr>"

definition system_now :: "host \<Rightarrow> world \<Rightarrow> nat" where
  "system_now E w = system_at E (system_reads w)"

definition system_tick :: "world \<Rightarrow> world" where
  "system_tick w = w\<lparr>system_reads := Suc (system_reads w)\<rparr>"

subsection \<open>Logs and dashboard\<close>

definition timeStampHmsUtc :: "host \<Rightarrow> world \<Rightarrow> string" where
  "timeStampHmsUtc E w = fmt_hms (gmtime (system_now E w div 1000))"

definition appendDashboardLog :: "world \<Rightarrow> string \<Rightarrow> world" where
  "appendDashboardLog w entry = w\<lparr>shared := appendDashboardLogEntry (shared w) entry\<rparr>"

text \<open>The three logger calls, each with the clock reading of its timestamp.\<close>

definition log_packet :: "host \<Rightarrow> string \<Rightarrow> PacketHeader \<Rightarrow> world \<Rightarrow> world" where
  "log_packet E direction header w =
     (system_tick w)\<lparr>logger := logPacket (system_now E w) (logger w) direction header\<rparr>"

definition log_fault :: "host \<Rightarrow> string \<Rightarrow> string \<Rightarrow> u32 \<Rightarrow> world \<Rightarrow> world" where
  "log_fault E cause st n w =
     (system_tick w)\<lparr>logger := logFault (system_now E w) (logger w) cause st n\<rparr>"

definition log_info :: "host \<Rightarrow> string \<Rightarrow> world \<Rightarrow> world" where
  "log_info E message w =
     (system_tick w)\<lparr>logger := logInfo (system_now E w) (logger w) message\<rparr>"

text \<open>\<open>appendDashboardLog(sharedState, compactPacketLog(direction, header))\<close>.\<close>

definition dash_packet :: "host \<Rightarrow> string \<Rightarrow> PacketHeader \<Rightarrow> world \<Rightarrow> world" where
  "dash_packet E direction header w =
     appendDashboardLog (system_tick w) (compactPacketLog (timeStampHmsUtc E w) direction header)"

definition dashboardAlertMessage :: "host \<Rightarrow> ClientSession \<Rightarrow> string \<Rightarrow> world \<Rightarrow> string \<times> world" where
  "dashboardAlertMessage E session explicitAlert w =
     (if explicitAlert \<noteq> [] then (explicitAlert, w)
      else (telemetryAlertMessage session (steady_now E w), steady_tick w))"

definition updateDashboardAircraft :: "host \<Rightarrow> ClientSession \<Rightarrow> string \<Rightarrow> world \<Rightarrow> world" where
  "updateDashboardAircraft E session alertMessage w =
     (if session_id session = [] then w
      else (let (msg, w1) = dashboardAlertMessage E session alertMessage w
            in w1\<lparr>shared := syncDashboardAircraft (shared w1) session msg\<rparr>))"

definition consumeWeatherRequest :: "world \<Rightarrow> string \<times> world" where
  "consumeWeatherRequest w =
     (weatherRequestAircraftId (shared w), w\<lparr>shared := (shared w)\<lparr>weatherRequestAircraftId := []\<rparr>\<rparr>)"

definition consumeDisconnectRequest :: "world \<Rightarrow> string \<times> world" where
  "consumeDisconnectRequest w =
     (disconnectRequestAircraftId (shared w),
      w\<lparr>shared := (shared w)\<lparr>disconnectRequestAircraftId := []\<rparr>\<rparr>)"

definition logIgnoredOperatorRequest :: "host \<Rightarrow> ClientSession \<Rightarrow> string \<Rightarrow> world \<Rightarrow> world" where
  "logIgnoredOperatorRequest E session action w =
     (let message = ignoredOperatorRequestMessage (session_id session) (session_state session) action;
          w1 = log_info E message w
      in appendDashboardLog (system_tick w1)
           (''['' @ timeStampHmsUtc E w1 @ ''] INFO '' @ message))"

subsection \<open>Packets in and out\<close>

definition send_bytes :: "handle \<Rightarrow> byte list \<Rightarrow> world \<Rightarrow> bool \<times> world" where
  "send_bytes h bs w = (let (ok, n) = net_sendAll (wnet w) h bs in (ok, w\<lparr>wnet := n\<rparr>))"

definition recv_bytes :: "handle \<Rightarrow> nat \<Rightarrow> world \<Rightarrow> byte list option \<times> world" where
  "recv_bytes h k w = (let (r, n) = net_recvAll (wnet w) h k in (r, w\<lparr>wnet := n\<rparr>))"

definition sendPacket :: "handle \<Rightarrow> PacketHeader \<Rightarrow> byte list \<Rightarrow> world \<Rightarrow> bool \<times> world" where
  "sendPacket h header payload w =
     (case send_bytes h (header_bytes header) w of
        (False, w1) \<Rightarrow> (False, w1)
      | (True, w1) \<Rightarrow>
          if 0 < payload_size header
          then send_bytes h (take (unat (payload_size header)) payload) w1
          else (True, w1))"

definition receivePacketPayload :: "handle \<Rightarrow> PacketHeader \<Rightarrow> world \<Rightarrow> byte list option \<times> world" where
  "receivePacketPayload h header w =
     (if payload_size header = 0 then (Some [], w)
      else recv_bytes h (unat (payload_size header)) w)"

subsection \<open>Faults\<close>

definition handleFault :: "host \<Rightarrow> string \<Rightarrow> ClientSession \<Rightarrow> world \<Rightarrow> ClientSession \<times> world" where
  "handleFault E cause session w =
     (let currentState = session_state session;
          session1 = (if currentState \<noteq> FAULT then snd (session_transition session FAULT) else session);
          w1 = log_fault E cause (stateToString currentState) (lastClientSequenceNumber session1) w;
          w2 = appendDashboardLog (system_tick w1)
                 (faultDashboardEntry (timeStampHmsUtc E w1) (session_id session1) cause);
          w3 = updateDashboardAircraft E session1 cause w2;
          session2 = snd (session_transition session1 DISCONNECTED);
          w4 = updateDashboardAircraft E session2 [] w3
      in (session2, w4))"

text \<open>A handler that faults reports failure.\<close>

definition fail_with :: "host \<Rightarrow> string \<Rightarrow> ClientSession \<Rightarrow> world \<Rightarrow> bool \<times> ClientSession \<times> world" where
  "fail_with E cause session w = (False, handleFault E cause session w)"

subsection \<open>The weather map\<close>

definition weatherMapContextFor :: "ClientSession \<Rightarrow> WeatherMapContext" where
  "weatherMapContextFor session =
     \<lparr> ctx_id = session_id session, ctx_telemetry = latestTelemetry session,
       ctx_valid = telemetryValid session \<rparr>"

definition written_map :: "host \<Rightarrow> WeatherMapContext \<Rightarrow> u32 \<Rightarrow> byte list" where
  "written_map E context n =
     (case generateWeatherMap context n of Some bs \<Rightarrow> bs | None \<Rightarrow> undef_map E context n)"

definition kChunkSize :: nat where "kChunkSize = 4096"

text \<open>
  The chunk loop. Its 32-bit offset wraps only for files within 4096 bytes of 4 GiB, which are
  left out: the offset is a natural number here.
\<close>

function send_chunks :: "handle \<Rightarrow> byte list \<Rightarrow> nat \<Rightarrow> nat \<Rightarrow> world \<Rightarrow> bool \<times> world" where
  "send_chunks h data len offset w =
     (if offset < len
      then (case send_bytes h (take (min kChunkSize (len - offset)) (drop offset data)) w of
              (False, w1) \<Rightarrow> (False, w1)
            | (True, w1) \<Rightarrow> send_chunks h data len (offset + kChunkSize) w1)
      else (True, w))"
  by pat_completeness auto
termination
  by (relation "measure (\<lambda>(h, data, len, offset, w). len - offset)") (auto simp: kChunkSize_def)

declare send_chunks.simps [simp del]

definition filename_of :: "string \<Rightarrow> string" where
  "filename_of path = rev (takeWhile (\<lambda>c. c \<noteq> CHR ''/'') (rev path))"

text \<open>
  \<open>sendWeatherMap\<close> in its four stages: the state changes that open the transfer, the file made
  and read back (an \<open>Inl\<close> is the cause of the fault), the header and chunks put on the socket
  (\<open>Some\<close> is the cause of the fault), and the epilogue of a transfer that went out.
\<close>

definition transfer_start :: "ClientSession \<Rightarrow> bool \<times> ClientSession" where
  "transfer_start session =
     session_transition (if session_state session = TELEMETRY
                         then snd (session_transition session CONNECTED) else session)
       LARGE_FILE_TRANSFER"

definition load_map ::
  "host \<Rightarrow> ClientSession \<Rightarrow> u32 \<Rightarrow> world \<Rightarrow> (string + string \<times> byte list) \<times> world" where
  "load_map E session n w =
     (let path = generatedWeatherMapPathFor (system_now E w) (session_id session) n;
          w1 = system_tick w
      in case disk E path (written_map E (weatherMapContextFor session) n) of
           None \<Rightarrow> (Inl ''WeatherMapMissing'', w1)
         | Some bytes \<Rightarrow>
             (let len = unat (word_of_nat (length bytes) :: u32)
              in if \<not> alloc_ok E len \<or> \<not> read_ok E path then (Inl ''WeatherMapReadFailure'', w1)
                 else (Inr (path, take len bytes), w1)))"

definition map_header :: "ClientSession \<Rightarrow> u32 \<Rightarrow> byte list \<Rightarrow> PacketHeader" where
  "map_header session n data =
     (let len = word_of_nat (length data)
      in makeHeader LARGE_FILE (session_id session) n len (computeChecksum data len))"

definition transmit_map :: "handle \<Rightarrow> PacketHeader \<Rightarrow> byte list \<Rightarrow> world \<Rightarrow> string option \<times> world" where
  "transmit_map h header data w =
     (case send_bytes h (header_bytes header) w of
        (False, w1) \<Rightarrow> (Some ''FileHeaderSendFailure'', w1)
      | (True, w1) \<Rightarrow>
          (case send_chunks h data (length data) 0 w1 of
             (False, w2) \<Rightarrow> (Some ''FileChunkSendFailure'', w2)
           | (True, w2) \<Rightarrow> (None, w2)))"

definition transfer_done ::
  "host \<Rightarrow> ClientSession \<Rightarrow> string \<Rightarrow> PacketHeader \<Rightarrow> world \<Rightarrow> ClientSession \<times> world" where
  "transfer_done E session path header w =
     (let w1 = log_packet E ''TX'' header w;
          w2 = log_info E (''Generated weather map: '' @ path) w1;
          w3 = dash_packet E ''TX'' header w2;
          w4 = appendDashboardLog (system_tick w3)
                 (''['' @ timeStampHmsUtc E w3 @ ''] MAP '' @ session_id session @ '' ''
                    @ filename_of path);
          session1 = touch session (steady_now E w4);
          w5 = steady_tick w4;
          session2 = snd (session_transition session1 CONNECTED);
          w6 = updateDashboardAircraft E session2 [] w5
      in (session2, w6))"

definition sendWeatherMap :: "host \<Rightarrow> ClientSession \<Rightarrow> world \<Rightarrow> bool \<times> ClientSession \<times> world" where
  "sendWeatherMap E session w =
     (case transfer_start session of
        (False, session1) \<Rightarrow> fail_with E ''IllegalFileTransferTransition'' session1 w
      | (True, session1) \<Rightarrow>
     (let w1 = updateDashboardAircraft E session1 [] w;
          transferSequence = serverSequence session1
      in case load_map E session1 transferSequence w1 of
           (Inl cause, w2) \<Rightarrow> fail_with E cause session1 w2
         | (Inr (path, data), w2) \<Rightarrow>
     (let header = map_header session1 transferSequence data;
          session2 = snd (consumeServerSequence session1)
      in case transmit_map (socketHandle session2) header data w2 of
           (Some cause, w3) \<Rightarrow> fail_with E cause session2 w3
         | (None, w3) \<Rightarrow> (True, transfer_done E session2 path header w3))))"

subsection \<open>Sessions\<close>

type_synonym SessionMap = "(handle, ClientSession) omap"

definition activeSessionSummaries :: "SessionMap \<Rightarrow> ActiveSessionSummary list" where
  "activeSessionSummaries sessions =
     map (\<lambda>(h, s). \<lparr> sum_socket = h, sum_id = session_id s, sum_state = session_state s \<rparr>) sessions"

fun findSessionByAircraftId :: "SessionMap \<Rightarrow> string \<Rightarrow> handle option" where
  "findSessionByAircraftId [] i = None"
| "findSessionByAircraftId ((h, s) # m) i =
     (if session_id s = i then Some h else findSessionByAircraftId m i)"

definition processHandshake ::
  "host \<Rightarrow> SessionMap \<Rightarrow> PacketHeader \<Rightarrow> ClientSession \<Rightarrow> world \<Rightarrow> bool \<times> ClientSession \<times> world" where
  "processHandshake E sessions header session w =
     (let aircraftId = extractAircraftId (aircraft_id header);
          validRequest = isValidHandshakeRequest header aircraftId
            (aircraftIdInUse (activeSessionSummaries sessions) (socketHandle session) aircraftId)
      in if \<not> validRequest
         then (let failHeader = makeHeader HANDSHAKE_FAIL aircraftId (sequence_number header) 0 0;
                   w1 = snd (sendPacket (socketHandle session) failHeader [] w);
                   w2 = log_packet E ''TX'' failHeader w1;
                   w3 = dash_packet E ''TX'' failHeader w2
               in (False, session, w3))
         else
           (let session1 = setAircraftId session aircraftId;
                session2 = markPacketReceived session1 (sequence_number header) (steady_now E w);
                w1 = steady_tick w;
                ackHeader = makeHeader HANDSHAKE_ACK aircraftId (sequence_number header) 0 0
            in case sendPacket (socketHandle session2) ackHeader [] w1 of
                 (False, w2) \<Rightarrow> fail_with E ''HandshakeAckSendFailure'' session2 w2
               | (True, w2) \<Rightarrow>
             (let w3 = log_packet E ''TX'' ackHeader w2;
                  w4 = dash_packet E ''TX'' ackHeader w3;
                  session3 = touch session2 (steady_now E w4);
                  w5 = steady_tick w4;
                  session4 = snd (session_transition session3 CONNECTED);
                  w6 = updateDashboardAircraft E session4 [] w5
              in (True, session4, w6))))"

text \<open>The \<open>TELEMETRY\<close> case of the packet switch.\<close>

definition process_telemetry ::
  "host \<Rightarrow> PacketHeader \<Rightarrow> byte list \<Rightarrow> ClientSession \<Rightarrow> world \<Rightarrow> bool \<times> ClientSession \<times> world" where
  "process_telemetry E header payload session w =
     (if unat (payload_size header) \<noteq> telemetry_size
      then fail_with E ''TelemetrySizeMismatch'' session w
      else
        (let session1 = (if session_state session = CONNECTED
                         then snd (session_transition session TELEMETRY) else session)
         in if session_state session1 \<noteq> TELEMETRY
            then fail_with E ''IllegalTelemetryState'' session1 w
            else
              (let session2 = updateTelemetry session1 (telemetry_of_bytes payload) (steady_now E w);
                   w1 = steady_tick w;
                   w2 = updateDashboardAircraft E session2 [] w1
               in (True, session2, w2))))"

text \<open>The \<open>DISCONNECT\<close> case.\<close>

definition process_disconnect :: "host \<Rightarrow> ClientSession \<Rightarrow> world \<Rightarrow> bool \<times> ClientSession \<times> world" where
  "process_disconnect E session w =
     (let session1 = (if session_state session = TELEMETRY
                      then snd (session_transition session CONNECTED) else session);
          session2 = snd (session_transition session1 DISCONNECTED);
          w1 = updateDashboardAircraft E session2 [] w
      in (False, session2, w1))"

text \<open>The checksum test and the switch on the packet's type.\<close>

definition process_packet ::
  "host \<Rightarrow> PacketHeader \<Rightarrow> byte list \<Rightarrow> ClientSession \<Rightarrow> world \<Rightarrow> bool \<times> ClientSession \<times> world" where
  "process_packet E header payload session w =
     (if computeChecksum payload (payload_size header) \<noteq> checksum header
      then fail_with E ''ChecksumMismatch'' session w
      else (case packet_type header of
              TELEMETRY_PACKET \<Rightarrow> process_telemetry E header payload session w
            | LARGE_FILE \<Rightarrow>
                if payload_size header \<noteq> 0
                then fail_with E ''LargeFileRequestPayloadUnexpected'' session w
                else sendWeatherMap E session w
            | DISCONNECT \<Rightarrow> process_disconnect E session w
            | _ \<Rightarrow> fail_with E ''UnexpectedPacketType'' session w))"

definition processReadableSession ::
  "host \<Rightarrow> SessionMap \<Rightarrow> ClientSession \<Rightarrow> world \<Rightarrow> bool \<times> ClientSession \<times> world" where
  "processReadableSession E sessions session w =
     (case recv_bytes (socketHandle session) header_size w of
        (None, w1) \<Rightarrow>
          fail_with E (if session_state session = HANDSHAKE_PENDING
                       then ''HandshakeReceiveFailure'' else ''ReceiveFailure'') session w1
      | (Some hb, w1) \<Rightarrow>
     (let header = header_of_bytes hb;
          w2 = log_packet E ''RX'' header w1;
          w3 = dash_packet E ''RX'' header w2
      in if session_state session = HANDSHAKE_PENDING
         then processHandshake E sessions header session w3
         else
     (let session1 = markPacketReceived session (sequence_number header) (steady_now E w3);
          w4 = steady_tick w3
      in case receivePacketPayload (socketHandle session1) header w4 of
           (None, w5) \<Rightarrow> fail_with E ''PayloadReceiveFailure'' session1 w5
         | (Some payload, w5) \<Rightarrow> process_packet E header payload session1 w5)))"

end
