(* ===== verification/Handler_Facts.thy ===== *)
theory Handler_Facts
  imports Ground_Server
begin

text \<open>
  Facts about the handlers of the ground server: what each leaves alone (the frame lemmas), what
  it does to the session, to the dashboard and to the bytes on the session's socket.
\<close>

subsection \<open>Frames of the world's operations\<close>

lemma tick_frame [frame, simp]:
  "logger (steady_tick w) = logger w" "shared (steady_tick w) = shared w" "wnet (steady_tick w) = wnet w"
  "logger (system_tick w) = logger w" "shared (system_tick w) = shared w" "wnet (system_tick w) = wnet w"
  by (simp_all add: steady_tick_def system_tick_def)

lemma log_frame [frame, simp]:
  "shared (log_packet E d h w) = shared w" "wnet (log_packet E d h w) = wnet w"
  "shared (log_fault E c st n w) = shared w" "wnet (log_fault E c st n w) = wnet w"
  "shared (log_info E m w) = shared w" "wnet (log_info E m w) = wnet w"
  by (simp_all add: log_packet_def log_fault_def log_info_def)

lemma dash_frame [frame, simp]:
  "wnet (appendDashboardLog w e) = wnet w" "logger (appendDashboardLog w e) = logger w"
  "shared (appendDashboardLog w e) = appendDashboardLogEntry (shared w) e"
  "wnet (dash_packet E d h w) = wnet w" "logger (dash_packet E d h w) = logger w"
  "aircraft (shared (dash_packet E d h w)) = aircraft (shared w)"
  by (simp_all add: appendDashboardLog_def dash_packet_def)

lemma alert_frame [frame, simp]:
  "shared (snd (dashboardAlertMessage E session a w)) = shared w"
  "wnet (snd (dashboardAlertMessage E session a w)) = wnet w"
  "logger (snd (dashboardAlertMessage E session a w)) = logger w"
  by (simp_all add: dashboardAlertMessage_def)

lemma update_frame [frame, simp]:
  "wnet (updateDashboardAircraft E session a w) = wnet w"
  "logger (updateDashboardAircraft E session a w) = logger w"
  by (simp_all add: updateDashboardAircraft_def case_prod_beta Let_def)

lemma consume_frame [frame, simp]:
  "wnet (snd (consumeWeatherRequest w)) = wnet w" "wnet (snd (consumeDisconnectRequest w)) = wnet w"
  "aircraft (shared (snd (consumeWeatherRequest w))) = aircraft (shared w)"
  "aircraft (shared (snd (consumeDisconnectRequest w))) = aircraft (shared w)"
  by (simp_all add: consumeWeatherRequest_def consumeDisconnectRequest_def)

lemma bytes_frame [frame, simp]:
  "shared (snd (send_bytes h bs w)) = shared w" "logger (snd (send_bytes h bs w)) = logger w"
  "shared (snd (recv_bytes h k w)) = shared w" "logger (snd (recv_bytes h k w)) = logger w"
  by (simp_all add: send_bytes_def recv_bytes_def case_prod_beta Let_def)

lemma bytes_frame_eq [frame]:
  "send_bytes h bs w = (ok, w') \<Longrightarrow> shared w' = shared w"
  "recv_bytes h k w = (r, w') \<Longrightarrow> shared w' = shared w"
  "send_bytes h bs w = (ok, w') \<Longrightarrow> logger w' = logger w"
  "recv_bytes h k w = (r, w') \<Longrightarrow> logger w' = logger w"
  using bytes_frame(1,2) [of h bs w] bytes_frame(3,4) [of h k w] by simp_all

lemma bytes_other [frame]:
  "send_bytes h bs w = (ok, w') \<Longrightarrow> h' \<noteq> h \<Longrightarrow> wnet w' h' = wnet w h'"
  "recv_bytes h k w = (r, w') \<Longrightarrow> h' \<noteq> h \<Longrightarrow> wnet w' h' = wnet w h'"
  by (auto simp: send_bytes_def recv_bytes_def net_sendAll_other net_recvAll_other split: prod.splits)

lemma bytes_closes [frame]:
  "send_bytes h bs w = (ok, w') \<Longrightarrow> closes (wnet w' h') = closes (wnet w h')"
  "recv_bytes h k w = (r, w') \<Longrightarrow> closes (wnet w' h') = closes (wnet w h')"
  by (auto simp: send_bytes_def recv_bytes_def net_closes split: prod.splits)

text \<open>
  \<open>confined i h w w'\<close>: going from \<open>w\<close> to \<open>w'\<close> used no socket but \<open>h\<close>, closed none, left the
  operator's requests and, if there is one, the selection alone, kept the dashboard well-formed and
  touched no aircraft entry but \<open>i\<close>. Every handler is confined to its own session.
\<close>

definition requests :: "world \<Rightarrow> string \<times> string" where
  "requests w = (weatherRequestAircraftId (shared w), disconnectRequestAircraftId (shared w))"

lemma requests_frame [frame, simp]:
  "requests (steady_tick w) = requests w" "requests (system_tick w) = requests w"
  "requests (log_packet E d h w) = requests w" "requests (log_fault E c st n w) = requests w"
  "requests (log_info E m w) = requests w" "requests (appendDashboardLog w e) = requests w"
  "requests (updateDashboardAircraft E s a w) = requests w"
  by (simp_all add: requests_def updateDashboardAircraft_def case_prod_beta Let_def)

definition confined :: "string \<Rightarrow> handle \<Rightarrow> world \<Rightarrow> world \<Rightarrow> bool" where
  "confined i h w w' \<longleftrightarrow>
     (\<forall>h'. h' \<noteq> h \<longrightarrow> wnet w' h' = wnet w h') \<and> closes (wnet w' h) = closes (wnet w h) \<and>
     requests w' = requests w \<and>
     (selectedAircraftId (shared w) \<noteq> [] \<longrightarrow> selectedAircraftId (shared w') = selectedAircraftId (shared w)) \<and>
     (dashboard_ok (shared w) \<longrightarrow> dashboard_ok (shared w') \<and>
        (\<forall>k. k \<noteq> i \<longrightarrow> map_find (aircraft (shared w')) k = map_find (aircraft (shared w)) k))"

lemma confined_refl [simp, intro]: "confined i h w w"
  by (simp add: confined_def)

lemma confined_trans: "confined i h w w1 \<Longrightarrow> confined i h w1 w2 \<Longrightarrow> confined i h w w2"
  by (simp add: confined_def)

lemma confined_ok: "confined i h w w' \<Longrightarrow> dashboard_ok (shared w) \<Longrightarrow> dashboard_ok (shared w')"
  by (simp add: confined_def)

lemma confined_logs [simp]:
  "confined i h w (log_packet E d hdr w1) \<longleftrightarrow> confined i h w w1"
  "confined i h w (log_fault E c st n w1) \<longleftrightarrow> confined i h w w1"
  "confined i h w (log_info E m w1) \<longleftrightarrow> confined i h w w1"
  "confined i h w (steady_tick w1) \<longleftrightarrow> confined i h w w1"
  "confined i h w (system_tick w1) \<longleftrightarrow> confined i h w w1"
  by (simp_all add: confined_def)

lemma confined_append [intro]: "confined i h w w1 \<Longrightarrow> confined i h w (appendDashboardLog w1 e)"
  by (simp add: confined_def append_entry_ok)

lemma confined_packet [intro]: "confined i h w w1 \<Longrightarrow> confined i h w (dash_packet E d hdr w1)"
  by (simp add: dash_packet_def confined_append)

lemma confined_update [intro]:
  assumes "confined i h w w1" "session_id s = i"
  shows "confined i h w (updateDashboardAircraft E s a w1)"
  using assms
  by (auto simp: confined_def requests_def updateDashboardAircraft_def case_prod_beta Let_def sync_ok
      sync_entry dashboard_ok_def [of "shared w1"])

lemma confined_send: "confined i h w w1 \<Longrightarrow> send_bytes h bs w1 = (ok, w2) \<Longrightarrow> confined i h w w2"
  using bytes_frame_eq(1) [of h bs w1 ok w2] bytes_other(1) [of h bs w1 ok w2]
    bytes_closes(1) [of h bs w1 ok w2 h] by (simp add: confined_def requests_def)

lemma confined_recv: "confined i h w w1 \<Longrightarrow> recv_bytes h k w1 = (r, w2) \<Longrightarrow> confined i h w w2"
  using bytes_frame_eq(2) [of h k w1 r w2] bytes_other(2) [of h k w1 r w2]
    bytes_closes(2) [of h k w1 r w2 h] by (simp add: confined_def requests_def)

lemma confined_sendPacket:
  assumes "confined i h w w1" "sendPacket h hdr p w1 = (ok, w2)"
  shows "confined i h w w2"
proof (cases "send_bytes h (header_bytes hdr) w1")
  case (Pair b w3)
  from confined_send [OF assms(1) Pair] have c: "confined i h w w3" .
  show ?thesis
    using assms(2) Pair c confined_send [OF c]
    by (auto simp: sendPacket_def split: bool.splits if_splits)
qed

lemma confined_payload:
  "confined i h w w1 \<Longrightarrow> receivePacketPayload h hdr w1 = (r, w2) \<Longrightarrow> confined i h w w2"
  using confined_recv by (auto simp: receivePacketPayload_def split: if_splits)

lemma update_ok: "dashboard_ok (shared w) \<Longrightarrow> dashboard_ok (shared (updateDashboardAircraft E s a w))"
  by (rule confined_ok [OF confined_update [OF confined_refl refl]])

lemma packet_ok: "dashboard_ok (shared w) \<Longrightarrow> dashboard_ok (shared (dash_packet E d hdr w))"
  by (rule confined_ok [OF confined_packet [OF confined_refl]])

text \<open>What the dashboard shows of a session: its state, its telemetry and whether it has any.\<close>

definition shown :: "ClientSession \<Rightarrow> DashboardState \<Rightarrow> bool" where
  "shown s d \<longleftrightarrow> session_id s \<noteq> [] \<longrightarrow>
     (\<exists>a. map_find (aircraft d) (session_id s) = Some a \<and> dash_state a = session_state s \<and>
          dash_telemetry a = latestTelemetry s \<and> dash_telemetryValid a = telemetryValid s)"

lemma shown_update [intro]:
  "dashboard_ok (shared w) \<Longrightarrow> shown s (shared (updateDashboardAircraft E s a w))"
  by (auto simp: shown_def updateDashboardAircraft_def case_prod_beta Let_def sync_entry
      dashboard_ok_def)

lemma sendPacket_frame [frame, simp]:
  "shared (snd (sendPacket h hdr p w)) = shared w" "logger (snd (sendPacket h hdr p w)) = logger w"
  by (auto simp: sendPacket_def split: prod.splits bool.splits)
     (metis bytes_frame snd_conv)+

lemma sendPacket_frame_eq [frame]: "sendPacket h hdr p w = (ok, w') \<Longrightarrow> shared w' = shared w"
  using sendPacket_frame(1) [of h hdr p w] by simp

lemma sendPacket_other [frame]:
  "sendPacket h hdr p w = (ok, w') \<Longrightarrow> h' \<noteq> h \<Longrightarrow> wnet w' h' = wnet w h'"
  by (auto simp: sendPacket_def bytes_other split: prod.splits bool.splits if_splits)

lemma send_chunks_frame [frame]:
  "send_chunks h data len off w = (ok, w') \<Longrightarrow>
     shared w' = shared w \<and> logger w' = logger w \<and> confined i h w w'"
proof (induction h data len off w rule: send_chunks.induct)
  case (1 h data len off w)
  show ?case
  proof (cases "off < len")
    case False
    with "1.prems" show ?thesis by (simp add: send_chunks.simps [of h data len off])
  next
    case True
    obtain b w1 where s: "send_bytes h (take (min kChunkSize (len - off)) (drop off data)) w = (b, w1)"
      by (cases "send_bytes h (take (min kChunkSize (len - off)) (drop off data)) w")
    note fr = bytes_frame_eq(1,3) [OF s] confined_send [OF confined_refl s]
    show ?thesis
    proof (cases b)
      case True
      with \<open>off < len\<close> s "1.prems" have "send_chunks h data len (off + kChunkSize) w1 = (ok, w')"
        by (simp add: send_chunks.simps [of h data len off])
      with "1.IH" [OF \<open>off < len\<close> s [symmetric]] True fr show ?thesis
        by (auto intro: confined_trans)
    next
      case False
      with \<open>off < len\<close> s "1.prems" fr show ?thesis
        by (auto simp: send_chunks.simps [of h data len off])
    qed
  qed
qed

lemma receivePacketPayload_frame [frame]:
  "receivePacketPayload h hdr w = (r, w') \<Longrightarrow> shared w' = shared w"
  "receivePacketPayload h hdr w = (r, w') \<Longrightarrow> h' \<noteq> h \<Longrightarrow> wnet w' h' = wnet w h'"
  by (auto simp: receivePacketPayload_def bytes_frame_eq bytes_other split: if_splits)

subsection \<open>Faults\<close>

lemma handleFault_session [simp]:
  "socketHandle (fst (handleFault E c session w)) = socketHandle session"
  "session_id (fst (handleFault E c session w)) = session_id session"
  "session_state (fst (handleFault E c session w)) =
     (if session_state session = DISCONNECTED \<or> isAllowed (session_state session) FAULT
      then DISCONNECTED else session_state session)"
  by (cases "session_state session"; simp add: handleFault_def Let_def machine_simps)+

lemma handleFault_disconnects [simp]: "session_state (fst (handleFault E c session w)) = DISCONNECTED"
  by (cases "session_state session") (simp_all add: machine_simps)

lemma handleFault_net [frame, simp]: "wnet (snd (handleFault E c session w)) = wnet w"
  by (simp add: handleFault_def Let_def)

lemma handleFault_logger:
  "logger (snd (handleFault E c session w)) =
     logFault (system_now E w) (logger w) c (stateToString (session_state session))
       (lastClientSequenceNumber session)"
  by (simp add: handleFault_def Let_def log_fault_def)

lemma handleFault_confined:
  "confined (session_id session) h w (snd (handleFault E c session w))"
  by (simp add: handleFault_def Let_def confined_update confined_append)

lemma handleFault_shown:
  "dashboard_ok (shared w) \<Longrightarrow>
     shown (fst (handleFault E c session w)) (shared (snd (handleFault E c session w)))"
  unfolding handleFault_def Let_def fst_conv snd_conv
  by (intro shown_update update_ok) (simp add: append_entry_ok)

lemma fail_with_eq [simp]:
  "fail_with E c session w = (ok, session', w') \<longleftrightarrow> \<not> ok \<and> handleFault E c session w = (session', w')"
  by (auto simp: fail_with_def)

lemma handleFault_eqD:
  assumes "handleFault E c session w = (session', w')"
  shows "socketHandle session' = socketHandle session" "session_id session' = session_id session"
    "session_state session' = DISCONNECTED" "wnet w' = wnet w"
    "confined (session_id session) h w w'" "dashboard_ok (shared w) \<Longrightarrow> shown session' (shared w')"
  using handleFault_session [of E c session w] handleFault_disconnects [of E c session w]
    handleFault_net [of E c session w] handleFault_confined [of session h w E c]
    handleFault_shown [of w E c session] assms
  by simp_all

subsection \<open>The transfer\<close>

lemma session_transition_eqD:
  assumes "session_transition session s = (ok, session')"
  shows "socketHandle session' = socketHandle session" "session_id session' = session_id session"
    "nextServerSequence session' = nextServerSequence session"
    "telemetryValid session' = telemetryValid session"
    "latestTelemetry session' = latestTelemetry session"
    "ok \<longleftrightarrow> isAllowed (session_state session) s"
    "session_state session' = (if ok then s else session_state session)"
  using session_transition_frame [of session s] session_transition_state [of session s] assms
  by simp_all

lemma consume_sequence_frame [frame, simp]:
  "socketHandle (snd (consumeServerSequence session)) = socketHandle session"
  "session_id (snd (consumeServerSequence session)) = session_id session"
  "machine (snd (consumeServerSequence session)) = machine session"
  "nextServerSequence (snd (consumeServerSequence session)) = nextServerSequence session + 1"
  by (simp_all add: consumeServerSequence_def)

lemma transfer_start_eqD:
  assumes "transfer_start session = (ok, session')"
  shows "socketHandle session' = socketHandle session" "session_id session' = session_id session"
    "nextServerSequence session' = nextServerSequence session"
    "weatherMapContextFor session' = weatherMapContextFor session"
    "ok \<longleftrightarrow> session_state session \<in> active_states"
    "ok \<Longrightarrow> session_state session' = LARGE_FILE_TRANSFER"
  using session_transition_eqD [OF assms [unfolded transfer_start_def]]
  by (cases "session_state session";
      auto simp: machine_simps active_states_def weatherMapContextFor_def split: if_splits)+

lemma load_map_eqD:
  assumes "load_map E session n w = (r, w')"
  shows "shared w' = shared w" "wnet w' = wnet w" "logger w' = logger w"
    "r = Inr (path, data) \<Longrightarrow> length data < 2 ^ 32 \<and>
       (\<exists>bytes. disk E path (written_map E (weatherMapContextFor session) n) = Some bytes \<and>
                data = take (length data) bytes \<and> (length bytes < 2 ^ 32 \<longrightarrow> data = bytes))"
proof -
  show "shared w' = shared w" "wnet w' = wnet w" "logger w' = logger w"
    using assms by (auto simp: load_map_def Let_def split: option.splits if_splits)
  assume "r = Inr (path, data)"
  with assms obtain bytes where
    b: "disk E path (written_map E (weatherMapContextFor session) n) = Some bytes"
    "data = take (unat (word_of_nat (length bytes) :: u32)) bytes"
    by (auto simp: load_map_def Let_def split: option.splits if_splits)
  have "length data \<le> unat (word_of_nat (length bytes) :: u32)" by (simp add: b)
  also have "\<dots> < 2 ^ 32"
    using unat_u32_less [of "word_of_nat (length bytes)"] by (simp del: unat_of_nat)
  finally have "length data < 2 ^ 32" .
  moreover have "unat (word_of_nat (length bytes) :: u32) = length bytes" if "length bytes < 2 ^ 32"
    using that by (simp add: unat_of_nat)
  ultimately show "length data < 2 ^ 32 \<and>
       (\<exists>bytes. disk E path (written_map E (weatherMapContextFor session) n) = Some bytes \<and>
                data = take (length data) bytes \<and> (length bytes < 2 ^ 32 \<longrightarrow> data = bytes))"
    using b by (intro conjI exI [of _ bytes]) (auto simp: min_def)
qed

lemma transmit_map_eqD:
  assumes "transmit_map h hdr data w = (r, w')"
  shows "shared w' = shared w" "logger w' = logger w" "confined i h w w'"
proof -
  have "shared w' = shared w \<and> logger w' = logger w \<and> confined i h w w'"
  proof (cases "send_bytes h (header_bytes hdr) w")
    case (Pair b w1)
    note fr = bytes_frame_eq(1,3) [OF Pair] confined_send [OF confined_refl Pair, of i]
    show ?thesis
    proof (cases "send_chunks h data (length data) 0 w1")
      case c: (Pair c w2)
      from assms Pair c have "w' = w1 \<or> w' = w2"
        by (simp add: transmit_map_def split: bool.splits)
      with send_chunks_frame [OF c, of i] fr show ?thesis by (auto intro: confined_trans)
    qed
  qed
  then show "shared w' = shared w" "logger w' = logger w" "confined i h w w'" by simp_all
qed

lemma transfer_done_eqD:
  assumes "transfer_done E session path hdr w = (session', w')"
  shows "socketHandle session' = socketHandle session" "session_id session' = session_id session"
    "nextServerSequence session' = nextServerSequence session"
    "session_state session' = (if isAllowed (session_state session) CONNECTED then CONNECTED
                               else session_state session)"
    "wnet w' = wnet w" "confined (session_id session) h w w'"
    "dashboard_ok (shared w) \<Longrightarrow> shown session' (shared w')"
  using assms
  by (auto simp: transfer_done_def Let_def append_entry_ok packet_ok
      intro!: shown_update confined_update confined_append confined_packet)

lemma map_header_fields [simp]:
  "packet_type (map_header session n data) = LARGE_FILE"
  "sequence_number (map_header session n data) = n"
  "payload_size (map_header session n data) = word_of_nat (length data)"
  "wf_header (map_header session n data)"
  by (simp_all add: map_header_def Let_def wf_type_def)

subsection \<open>The contract of the handlers\<close>

text \<open>
  What every handler guarantees about its session: the handle stays, the world changes only in the
  session's own socket and dashboard entry, and the dashboard shows the session as it is
  returned.
\<close>

definition handled :: "ClientSession \<Rightarrow> world \<Rightarrow> ClientSession \<Rightarrow> world \<Rightarrow> bool" where
  "handled session w session' w' \<longleftrightarrow>
     socketHandle session' = socketHandle session \<and>
     confined (session_id session') (socketHandle session) w w' \<and>
     (dashboard_ok (shared w) \<longrightarrow> shown session' (shared w'))"

lemma handled_fail:
  assumes "handleFault E c session1 w1 = (session', w')"
    and "socketHandle session1 = socketHandle session"
    and "confined (session_id session1) (socketHandle session) w w1"
  shows "handled session w session' w' \<and> session_id session' = session_id session1 \<and>
    session_state session' = DISCONNECTED"
proof -
  note f = handleFault_eqD [OF assms(1)]
  have "confined (session_id session1) (socketHandle session) w w'"
    using assms(3) f(5) by (rule confined_trans)
  then show ?thesis
    using f assms(2) confined_ok [OF assms(3)] by (simp add: handled_def)
qed

lemma sendWeatherMap_frame:
  assumes "sendWeatherMap E session w = (ok, session', w')"
  shows "handled session w session' w' \<and> session_id session' = session_id session \<and>
    session_state session' = (if ok then CONNECTED else DISCONNECTED) \<and>
    (ok \<longrightarrow> session_state session \<in> active_states)"
proof (cases "transfer_start session")
  case st: (Pair b s1)
  note s1 = transfer_start_eqD [OF st]
  let ?c = "confined (session_id s1) (socketHandle session) w"
  show ?thesis
  proof (cases b)
    case False
    with assms st have "\<not> ok" "handleFault E ''IllegalFileTransferTransition'' s1 w = (session', w')"
      by (simp_all add: sendWeatherMap_def)
    with handled_fail [of E _ s1 w session' w' session w] s1 show ?thesis by auto
  next
    case True
    let ?w1 = "updateDashboardAircraft E s1 [] w"
    obtain r w2 where ld: "load_map E s1 (serverSequence s1) ?w1 = (r, w2)"
      by (cases "load_map E s1 (serverSequence s1) ?w1")
    have "?c ?w1" by (simp add: confined_update)
    then have c2: "?c w2" using load_map_eqD(1,2) [OF ld] by (simp add: confined_def requests_def)
    show ?thesis
    proof (cases r)
      case (Inl c)
      with assms st ld True have "\<not> ok" "handleFault E c s1 w2 = (session', w')"
        by (simp_all add: sendWeatherMap_def Let_def)
      with handled_fail [of E _ s1 w2 session' w' session w] c2 s1 show ?thesis by auto
    next
      case (Inr pd)
      obtain path data where pd: "pd = (path, data)" by (cases pd)
      let ?s2 = "snd (consumeServerSequence s1)"
      let ?hdr = "map_header s1 (serverSequence s1) data"
      obtain t w3 where tr: "transmit_map (socketHandle ?s2) ?hdr data w2 = (t, w3)"
        by (cases "transmit_map (socketHandle ?s2) ?hdr data w2")
      have c3: "?c w3" using transmit_map_eqD(3) [OF tr, of "session_id s1"] c2 s1
        by (simp add: confined_trans)
      show ?thesis
      proof (cases t)
        case (Some c)
        with assms st ld True Inr pd tr have "\<not> ok" "handleFault E c ?s2 w3 = (session', w')"
          by (simp_all add: sendWeatherMap_def Let_def)
        with handled_fail [of E _ ?s2 w3 session' w' session w] c3 s1 show ?thesis by auto
      next
        case None
        with assms st ld True Inr pd tr
        have ok: "ok" and d: "transfer_done E ?s2 path ?hdr w3 = (session', w')"
          by (simp_all add: sendWeatherMap_def Let_def)
        note dn = transfer_done_eqD [OF d]
        have "confined (session_id s1) (socketHandle session) w w'"
          using c3 dn(6) [of "socketHandle session"] by (auto intro: confined_trans)
        with dn confined_ok [OF c3] ok True s1 show ?thesis
          by (simp add: handled_def machine_simps)
      qed
    qed
  qed
qed

end
