(* ===== verification/Session_Handlers.thy ===== *)
theory Session_Handlers
  imports Handler_Facts
begin

text \<open>
  The contract between the server loop and its handlers, as a locale: a handler takes a session of
  the map by value and returns whether the session lives on, the session and the world. The
  four handlers of the loop (a readable session, an operator's weather request, an operator's
  disconnect request, a timeout) satisfy it, and \<open>dispatch\<close>, which looks the session up, runs the
  handler and writes back or removes, preserves the invariant of the session map for any handler
  that does.
\<close>

subsection \<open>The session map's invariant\<close>

text \<open>
  Between two handlers a session either waits for its handshake and has no id, or has completed it,
  has a well-formed id and is connected or streaming telemetry (with telemetry on record).
\<close>

definition session_ok :: "ClientSession \<Rightarrow> bool" where
  "session_ok s \<longleftrightarrow>
     session_state s = HANDSHAKE_PENDING \<and> session_id s = [] \<or>
     isVerifiedSessionState (session_state s) \<and> validateAircraftId (session_id s) \<and>
       (session_state s = TELEMETRY \<longrightarrow> telemetryValid s)"

definition ids_unique :: "SessionMap \<Rightarrow> bool" where
  "ids_unique m \<longleftrightarrow>
     (\<forall>h1 s1 h2 s2. map_find m h1 = Some s1 \<longrightarrow> map_find m h2 = Some s2 \<longrightarrow> h1 \<noteq> h2 \<longrightarrow>
        session_id s1 \<noteq> [] \<longrightarrow> session_id s1 \<noteq> session_id s2)"

definition sessions_ok :: "SessionMap \<Rightarrow> bool" where
  "sessions_ok m \<longleftrightarrow>
     map_ok m \<and> ids_unique m \<and>
     (\<forall>h s. map_find m h = Some s \<longrightarrow> socketHandle s = h \<and> h \<noteq> INVALID_SOCK \<and> session_ok s)"

lemma sessions_ok_Nil [simp]: "sessions_ok []"
  by (simp add: sessions_ok_def ids_unique_def map_find_def)

lemma sessions_okD:
  assumes "sessions_ok m" "map_find m h = Some s"
  shows "socketHandle s = h" "h \<noteq> INVALID_SOCK" "session_ok s"
  using assms by (auto simp: sessions_ok_def)

lemma session_ok_cases:
  assumes "session_ok s"
  obtains (pending) "session_state s = HANDSHAKE_PENDING" "session_id s = []"
    | (connected) "session_state s = CONNECTED" "validateAircraftId (session_id s)" "session_id s \<noteq> []"
    | (telemetry) "session_state s = TELEMETRY" "validateAircraftId (session_id s)" "session_id s \<noteq> []"
        "telemetryValid s"
  using assms valid_id_shape(2) by (auto simp: session_ok_def isVerifiedSessionState_def)

text \<open>No other session of the map has the id.\<close>

definition id_free :: "SessionMap \<Rightarrow> handle \<Rightarrow> string \<Rightarrow> bool" where
  "id_free m h i \<longleftrightarrow> (\<forall>h' s'. map_find m h' = Some s' \<longrightarrow> h' \<noteq> h \<longrightarrow> session_id s' \<noteq> i)"

lemma ids_unique_free:
  assumes "ids_unique m" "map_find m h = Some s" "session_id s \<noteq> []"
  shows "id_free m h (session_id s)"
  unfolding id_free_def using assms unfolding ids_unique_def by metis

lemma sessions_ok_assign:
  assumes ok: "sessions_ok m" and s: "session_ok s" "socketHandle s = h" "h \<noteq> INVALID_SOCK"
    and free: "session_id s = [] \<or> id_free m h (session_id s)"
  shows "sessions_ok (map_assign h s m)"
proof -
  have m: "map_ok m" "ids_unique m" using ok by (simp_all add: sessions_ok_def)
  have "ids_unique (map_assign h s m)"
    using m free by (auto simp: ids_unique_def std_map.lookup_assign id_free_def) metis
  then show ?thesis
    using ok s m by (auto simp: sessions_ok_def std_map.lookup_assign map_ok_assign)
qed

lemma sessions_ok_erase:
  assumes "sessions_ok m"
  shows "sessions_ok (map_erase h m)"
proof -
  have m: "map_ok m" "ids_unique m" using assms by (simp_all add: sessions_ok_def)
  have "ids_unique (map_erase h m)"
    using m by (auto simp: ids_unique_def std_map.lookup_erase)
  then show ?thesis
    using assms m by (auto simp: sessions_ok_def std_map.lookup_erase map_ok_erase split: if_splits)
qed

subsection \<open>The contract\<close>

type_synonym handler = "SessionMap \<Rightarrow> ClientSession \<Rightarrow> world \<Rightarrow> bool \<times> ClientSession \<times> world"

text \<open>
  A handler is \<open>handled\<close> (confined to its session, and shown on the dashboard as returned); a
  session it keeps is well-formed; one it gives up is shown as disconnected or has no entry; and
  the id changes only from none to one that is free.
\<close>

definition run_ok :: "SessionMap \<Rightarrow> ClientSession \<Rightarrow> world \<Rightarrow> bool \<times> ClientSession \<times> world \<Rightarrow> bool" where
  "run_ok m s w r \<longleftrightarrow>
     (case r of (alive, s', w') \<Rightarrow>
        handled s w s' w' \<and>
        (if alive then session_ok s' else session_id s' = [] \<or> session_state s' = DISCONNECTED) \<and>
        (session_id s' = session_id s \<or>
         session_id s = [] \<and> id_free m (socketHandle s) (session_id s')))"

locale session_handler =
  fixes op :: handler
  assumes contract:
    "sessions_ok m \<Longrightarrow> map_find m (socketHandle s) = Some s \<Longrightarrow> run_ok m s w (op m s w)"

subsection \<open>Looking up, running, writing back\<close>

text \<open>\<open>removeSession\<close>, and the closing of a session it does.\<close>

definition removeSession :: "SessionMap \<Rightarrow> handle \<Rightarrow> world \<Rightarrow> SessionMap \<times> world" where
  "removeSession sessions h w =
     (case map_find sessions h of
        None \<Rightarrow> (sessions, w)
      | Some session \<Rightarrow>
          (let (session', n) = session_close (wnet w) session
           in (map_erase h sessions, w\<lparr>wnet := n\<rparr>)))"

text \<open>
  A reference into the map, as the loop's handlers hold one: the session at the handle is read,
  the handler runs, and the session is written back or, where it is given up, removed.
\<close>

definition dispatch ::
  "handler \<Rightarrow> handle \<Rightarrow> SessionMap \<Rightarrow> world \<Rightarrow> bool \<times> SessionMap \<times> world" where
  "dispatch op h sessions w =
     (case map_find sessions h of
        None \<Rightarrow> (True, sessions, w)
      | Some session \<Rightarrow>
          (case op sessions session w of (alive, session', w1) \<Rightarrow>
             (let sessions1 = map_assign h session' sessions
              in if alive then (True, sessions1, w1) else (False, removeSession sessions1 h w1))))"

text \<open>
  The server's invariant: the map is well-formed, so is the dashboard, the dashboard shows every
  session as it is and every other aircraft it knows as disconnected, and the sockets of the
  map are open.
\<close>

definition dashboard_mirrors :: "SessionMap \<Rightarrow> DashboardState \<Rightarrow> bool" where
  "dashboard_mirrors m d \<longleftrightarrow>
     (\<forall>h s. map_find m h = Some s \<longrightarrow> shown s d) \<and>
     (\<forall>k a. map_find (aircraft d) k = Some a \<longrightarrow>
        dash_state a = DISCONNECTED \<or> (\<exists>h s. map_find m h = Some s \<and> session_id s = k))"

definition sockets_open :: "SessionMap \<Rightarrow> net \<Rightarrow> bool" where
  "sockets_open m n \<longleftrightarrow> (\<forall>h s. map_find m h = Some s \<longrightarrow> closes (n h) = 0)"

definition server_inv :: "SessionMap \<Rightarrow> world \<Rightarrow> bool" where
  "server_inv m w \<longleftrightarrow>
     sessions_ok m \<and> dashboard_ok (shared w) \<and> dashboard_mirrors m (shared w) \<and>
     sockets_open m (wnet w)"

lemma session_close_net [simp]:
  "snd (session_close n s) =
     (if socketHandle s = INVALID_SOCK then n
      else n(socketHandle s := (n (socketHandle s))\<lparr>shut_all := True,
               closes := closes (n (socketHandle s)) + 1\<rparr>))"
  by (simp add: session_close_def Let_def shutdownSocket_def closeSocket_def)

lemma removeSession_found:
  assumes "map_find m h = Some s" "socketHandle s = h" "h \<noteq> INVALID_SOCK"
  shows "removeSession m h w =
    (map_erase h m,
     w\<lparr>wnet := (wnet w)(h := (wnet w h)\<lparr>shut_all := True, closes := closes (wnet w h) + 1\<rparr>)\<rparr>)"
  using assms by (simp add: removeSession_def case_prod_beta Let_def)

lemma erase_assign: "map_ok m \<Longrightarrow> map_find (map_erase h (map_assign h s m)) = map_find (map_erase h m)"
  by (simp add: fun_eq_iff std_map.lookup_erase std_map.lookup_assign map_ok_assign)

lemma dashboard_key: "dashboard_ok d \<Longrightarrow> map_find (aircraft d) k = Some a \<Longrightarrow> k \<noteq> []"
  by (force simp: dashboard_ok_def map_find_set dash_entry_ok_def)

text \<open>The dashboard after one session's entry changed.\<close>

lemma mirrors_step:
  assumes m: "sessions_ok m" and s: "map_find m h = Some s" and d: "dashboard_ok d'"
    and mir: "dashboard_mirrors m d"
    and others: "\<And>k. k \<noteq> session_id s' \<Longrightarrow> map_find (aircraft d') k = map_find (aircraft d) k"
    and own: "shown s' d'"
    and id: "session_id s' = session_id s \<or> session_id s = [] \<and> id_free m h (session_id s')"
  shows "dashboard_mirrors (map_assign h s' m) d'"
    and "session_id s' = [] \<or> session_state s' = DISCONNECTED \<Longrightarrow> dashboard_mirrors (map_erase h m) d'"
proof -
  have ok: "map_ok m" and u: "ids_unique m" using m by (simp_all add: sessions_ok_def)
  have free: "session_id s' = [] \<or> id_free m h (session_id s')"
    using id ids_unique_free [OF u s] by metis
  have keep: "shown s2 d'" if "map_find m h2 = Some s2" "h2 \<noteq> h" for h2 s2
  proof -
    have "shown s2 d" using mir that by (simp add: dashboard_mirrors_def)
    moreover have "session_id s2 = [] \<or> session_id s2 \<noteq> session_id s'"
      using free that by (auto simp: id_free_def)
    ultimately show ?thesis using others by (auto simp: shown_def)
  qed
  have entry: "dash_state a = DISCONNECTED \<or>
      (\<exists>h2 s2. map_find m h2 = Some s2 \<and> h2 \<noteq> h \<and> session_id s2 = k)"
    if "map_find (aircraft d') k = Some a" "k \<noteq> session_id s'" for k a
  proof -
    have "k \<noteq> []" using d that(1) by (rule dashboard_key)
    from others that mir have "dash_state a = DISCONNECTED \<or>
        (\<exists>h2 s2. map_find m h2 = Some s2 \<and> session_id s2 = k)"
      by (simp add: dashboard_mirrors_def)
    moreover have "h2 \<noteq> h" if "map_find m h2 = Some s2" "session_id s2 = k" for h2 s2
      using that s id \<open>k \<noteq> session_id s'\<close> \<open>k \<noteq> []\<close> by auto
    ultimately show ?thesis by blast
  qed
  show "dashboard_mirrors (map_assign h s' m) d'"
    unfolding dashboard_mirrors_def std_map.lookup_assign [OF ok]
    using keep own entry by (metis option.inject)
  assume gone: "session_id s' = [] \<or> session_state s' = DISCONNECTED"
  have "dash_state a = DISCONNECTED" if "map_find (aircraft d') (session_id s') = Some a" for a
    using gone own that dashboard_key [OF d that] by (simp add: shown_def)
  then show "dashboard_mirrors (map_erase h m) d'"
    unfolding dashboard_mirrors_def std_map.lookup_erase [OF ok]
    using keep entry by (metis option.distinct(1))
qed

context session_handler
begin

text \<open>
  A dispatch keeps the server's invariant and the operator's requests, leaves every other session and socket alone, and if the
  handler gave the session up, erases it and closes its socket, once.
\<close>

lemma dispatch_inv:
  assumes inv: "server_inv m w" and run: "dispatch op h m w = (alive, m', w')"
  shows "server_inv m' w' \<and> requests w' = requests w \<and>
    (\<forall>h'. h' \<noteq> h \<longrightarrow> map_find m' h' = map_find m h' \<and> wnet w' h' = wnet w h') \<and>
    (if alive then (map_find m' h = None \<longleftrightarrow> map_find m h = None) \<and> closes (wnet w' h) = closes (wnet w h)
     else map_find m h \<noteq> None \<and> map_find m' h = None \<and> closes (wnet w' h) = 1)"
proof (cases "map_find m h")
  case None
  with run inv show ?thesis by (auto simp: dispatch_def)
next
  case (Some s)
  have mok: "sessions_ok m" and dok: "dashboard_ok (shared w)"
    and mir: "dashboard_mirrors m (shared w)" and op0: "sockets_open m (wnet w)"
    using inv by (simp_all add: server_inv_def)
  have ok: "map_ok m" using mok by (simp add: sessions_ok_def)
  note s = sessions_okD [OF mok Some]
  obtain a s' w1 where r: "op m s w = (a, s', w1)" by (cases "op m s w") auto
  have "run_ok m s w (op m s w)" using mok Some s by (intro contract) simp_all
  then have han: "handled s w s' w1"
    and live: "a \<Longrightarrow> session_ok s'" "\<not> a \<Longrightarrow> session_id s' = [] \<or> session_state s' = DISCONNECTED"
    and id: "session_id s' = session_id s \<or> session_id s = [] \<and> id_free m h (session_id s')"
    by (auto simp: run_ok_def r s split: if_splits)
  from han have h': "socketHandle s' = h" and con: "confined (session_id s') h w w1"
    and own: "shown s' (shared w1)"
    using dok s by (simp_all add: handled_def)
  have dok1: "dashboard_ok (shared w1)"
    and others: "\<And>k. k \<noteq> session_id s' \<Longrightarrow>
        map_find (aircraft (shared w1)) k = map_find (aircraft (shared w)) k"
    and net: "\<And>h'. h' \<noteq> h \<Longrightarrow> wnet w1 h' = wnet w h'" "closes (wnet w1 h) = closes (wnet w h)"
    and req: "requests w1 = requests w"
    using con dok by (simp_all add: confined_def)
  have c0: "closes (wnet w h) = 0" using op0 Some by (simp add: sockets_open_def)
  note mir' = mirrors_step [OF mok Some dok1 mir others own id]
  have free: "session_id s' = [] \<or> id_free m h (session_id s')"
    using id ids_unique_free [OF _ Some] mok unfolding sessions_ok_def by metis
  show ?thesis
  proof (cases a)
    case True
    with r run Some have m': "alive" "m' = map_assign h s' m" "w' = w1"
      by (simp_all add: dispatch_def)
    have "sessions_ok m'" unfolding m'
      using mok live(1) [OF True] h' s(2) free by (rule sessions_ok_assign)
    moreover have "sockets_open m' (wnet w')"
      using op0 net c0 unfolding sockets_open_def m' std_map.lookup_assign [OF ok] by metis
    ultimately show ?thesis
      using dok1 mir'(1) net req m' Some by (simp add: server_inv_def std_map.lookup_assign ok)
  next
    case False
    have "map_find (map_assign h s' m) h = Some s'" by (simp add: std_map.lookup_assign ok)
    note rem = removeSession_found [OF this h' s(2), of w1]
    from r run Some False have m': "\<not> alive" "m' = map_erase h (map_assign h s' m)"
      "w' = w1\<lparr>wnet := (wnet w1)(h := (wnet w1 h)\<lparr>shut_all := True, closes := closes (wnet w1 h) + 1\<rparr>)\<rparr>"
      by (simp_all add: dispatch_def rem)
    have find: "map_find m' = map_find (map_erase h m)" unfolding m' by (rule erase_assign [OF ok])
    have mok': "map_ok m'" unfolding m' by (intro map_ok_erase map_ok_assign ok)
    have "sessions_ok m'"
      using sessions_ok_erase [OF mok, of h] mok' by (simp add: sessions_ok_def ids_unique_def find)
    moreover have "dashboard_mirrors m' (shared w')"
      using mir'(2) live(2) False m'(3) by (simp add: dashboard_mirrors_def find)
    moreover have "sockets_open m' (wnet w')"
      using op0 net m'(3) by (simp add: sockets_open_def find std_map.lookup_erase ok)
    ultimately show ?thesis
      using dok1 net req m'(1,3) Some c0
      by (simp add: server_inv_def find std_map.lookup_erase ok requests_def)
  qed
qed

text \<open>
  What a dispatch does to the dashboard beside its log: only the entry under the id the handler returns
  changes, which is the session's own or, if it had none, one that no other session has; and the
  selection stays if there is one.
\<close>

lemma dispatch_entries:
  assumes inv: "server_inv m w" and run: "dispatch op h m w = (alive, m', w')"
    and s: "map_find m h = Some s" and op: "op m s w = (a, s', w1)"
  shows "k \<noteq> session_id s' \<Longrightarrow> map_find (aircraft (shared w')) k = map_find (aircraft (shared w)) k"
    "selectedAircraftId (shared w) \<noteq> [] \<Longrightarrow> selectedAircraftId (shared w') = selectedAircraftId (shared w)"
    "session_id s' = session_id s \<or> session_id s = [] \<and> id_free m h (session_id s')"
    "shared w' = shared w1"
proof -
  have mok: "sessions_ok m" and dok: "dashboard_ok (shared w)" using inv by (simp_all add: server_inv_def)
  note so = sessions_okD [OF mok s]
  have "run_ok m s w (op m s w)" using mok s so by (intro contract) simp_all
  then have han: "handled s w s' w1"
    and id: "session_id s' = session_id s \<or> session_id s = [] \<and> id_free m h (session_id s')"
    by (auto simp: run_ok_def op so split: if_splits)
  have con: "confined (session_id s') h w w1" and h': "socketHandle s' = h"
    using han so by (simp_all add: handled_def)
  show sh: "shared w' = shared w1"
    using run s op by (auto simp: dispatch_def removeSession_def Let_def split: if_splits option.splits prod.splits)
  show "session_id s' = session_id s \<or> session_id s = [] \<and> id_free m h (session_id s')" by (rule id)
  show "map_find (aircraft (shared w')) k = map_find (aircraft (shared w)) k" if "k \<noteq> session_id s'"
    using con dok that sh by (simp add: confined_def)
  show "selectedAircraftId (shared w') = selectedAircraftId (shared w)" if "selectedAircraftId (shared w) \<noteq> []"
    using con that sh by (simp add: confined_def)
qed

end

subsection \<open>The handlers of the loop\<close>

text \<open>
  The operator's disconnect, on the session found: the packet is announced, sent, and the session
  given up, with a fault where the send failed.
\<close>

definition operator_disconnect :: "host \<Rightarrow> ClientSession \<Rightarrow> world \<Rightarrow> ClientSession \<times> world" where
  "operator_disconnect E session w =
     (let session1 = (if session_state session = TELEMETRY
                      then snd (session_transition session CONNECTED) else session);
          (n, session2) = consumeServerSequence session1;
          disconnectHeader = makeHeader DISCONNECT (session_id session1) n 0 0
      in case sendPacket (socketHandle session2) disconnectHeader [] w of
           (True, w1) \<Rightarrow>
             (let w2 = log_packet E ''TX'' disconnectHeader w1;
                  w3 = dash_packet E ''TX'' disconnectHeader w2;
                  session3 = touch session2 (steady_now E w3);
                  w4 = steady_tick w3;
                  session4 = snd (session_transition session3 DISCONNECTED);
                  w5 = updateDashboardAircraft E session4 [] w4
              in (session4, w5))
         | (False, w1) \<Rightarrow> handleFault E ''DisconnectSendFailure'' session2 w1)"

definition weather_op :: "host \<Rightarrow> handler" where
  "weather_op E m s w = sendWeatherMap E s w"

definition disconnect_op :: "host \<Rightarrow> handler" where
  "disconnect_op E m s w = (False, operator_disconnect E s w)"

definition timeout_op :: "host \<Rightarrow> handler" where
  "timeout_op E m s w = (False, handleFault E ''SocketTimeout'' s w)"

definition read_op :: "host \<Rightarrow> handler" where
  "read_op E m s w = processReadableSession E m s w"

subsection \<open>Each handler meets the contract\<close>

lemma run_ok_fail:
  assumes "socketHandle s1 = socketHandle s" "session_id s1 = session_id s"
    and "confined (session_id s) (socketHandle s) w w1"
  shows "run_ok m s w (fail_with E c s1 w1)"
proof -
  obtain s' w' where f: "handleFault E c s1 w1 = (s', w')" by (cases "handleFault E c s1 w1")
  with handled_fail [OF f assms(1), of w] assms show ?thesis
    by (simp add: run_ok_def fail_with_def)
qed

lemma run_ok_later:
  assumes "run_ok m s1 w1 r" "socketHandle s1 = socketHandle s" "session_id s1 = session_id s"
    and con: "\<And>i. confined i (socketHandle s) w w1"
  shows "run_ok m s w r"
proof -
  obtain a s' w' where r: "r = (a, s', w')" by (cases r) auto
  have "confined (session_id s') (socketHandle s) w w'"
    if "confined (session_id s') (socketHandle s) w1 w'"
    using con that by (rule confined_trans)
  moreover have "dashboard_ok (shared w1)" if "dashboard_ok (shared w)"
    using con [of "[]"] that by (rule confined_ok)
  ultimately show ?thesis using assms(1-3) by (auto simp: run_ok_def handled_def r)
qed

lemma timeout_run_ok: "run_ok m s w (timeout_op E m s w)"
  using run_ok_fail [of s s w w m E "''SocketTimeout''"] by (simp add: timeout_op_def fail_with_def)

lemma weather_run_ok:
  assumes "session_ok s"
  shows "run_ok m s w (sendWeatherMap E s w)"
proof -
  obtain a s' w' where r: "sendWeatherMap E s w = (a, s', w')"
    by (cases "sendWeatherMap E s w") auto
  note fr = sendWeatherMap_frame [OF r]
  show ?thesis
    by (rule session_ok_cases [OF assms])
       (use fr in \<open>auto simp: run_ok_def r session_ok_def isVerifiedSessionState_def active_states_def\<close>)
qed

lemma operator_disconnect_run_ok:
  assumes "session_ok s"
  shows "run_ok m s w (False, operator_disconnect E s w)"
proof -
  define s2 where "s2 = snd (consumeServerSequence (if session_state s = TELEMETRY
                      then snd (session_transition s CONNECTED) else s))"
  define hdr where "hdr = makeHeader DISCONNECT (session_id s2)
     (fst (consumeServerSequence (if session_state s = TELEMETRY
                      then snd (session_transition s CONNECTED) else s))) 0 0"
  have s2: "socketHandle s2 = socketHandle s" "session_id s2 = session_id s" by (simp_all add: s2_def)
  have st: "isAllowed (session_state s2) DISCONNECTED"
    using assms by (cases rule: session_ok_cases) (simp_all add: s2_def machine_simps)
  obtain b w1 where snd: "sendPacket (socketHandle s2) hdr [] w = (b, w1)"
    by (cases "sendPacket (socketHandle s2) hdr [] w")
  have con: "confined i (socketHandle s) w w1" for i
    using confined_sendPacket [OF confined_refl snd] s2 by simp
  show ?thesis
  proof (cases b)
    case False
    then have "operator_disconnect E s w = handleFault E ''DisconnectSendFailure'' s2 w1"
      using snd by (simp add: operator_disconnect_def Let_def case_prod_beta s2_def hdr_def)
    with run_ok_fail [OF s2 con] show ?thesis by (simp add: fail_with_def)
  next
    case True
    define w4 where "w4 = steady_tick (dash_packet E ''TX'' hdr (log_packet E ''TX'' hdr w1))"
    define s4 where "s4 = snd (session_transition (touch s2 (steady_now E (dash_packet E ''TX'' hdr (log_packet E ''TX'' hdr w1)))) DISCONNECTED)"
    have s4: "socketHandle s4 = socketHandle s" "session_id s4 = session_id s"
      "session_state s4 = DISCONNECTED"
      using s2 st by (simp_all add: s4_def)
    have con4: "confined i (socketHandle s) w w4" for i
      unfolding w4_def using con by (simp add: confined_packet)
    have "operator_disconnect E s w = (s4, updateDashboardAircraft E s4 [] w4)"
      using snd True
      by (simp add: operator_disconnect_def Let_def case_prod_beta s2_def hdr_def s4_def w4_def)
    then show ?thesis
      using s4 con4 confined_ok [OF con4]
      by (auto simp: run_ok_def handled_def intro: confined_update shown_update)
  qed
qed

lemma process_disconnect_run_ok:
  assumes "session_ok s" "session_state s \<noteq> HANDSHAKE_PENDING"
  shows "run_ok m s w (process_disconnect E s w)"
proof -
  define s2 where "s2 = snd (session_transition (if session_state s = TELEMETRY
                      then snd (session_transition s CONNECTED) else s) DISCONNECTED)"
  have s2: "socketHandle s2 = socketHandle s" "session_id s2 = session_id s" by (simp_all add: s2_def)
  have "session_state s2 = DISCONNECTED"
    by (rule session_ok_cases [OF assms(1)]) (simp_all add: s2_def machine_simps assms(2))
  with s2 show ?thesis
    by (auto simp: process_disconnect_def Let_def s2_def [symmetric] run_ok_def handled_def
        intro: confined_update shown_update)
qed

lemma process_telemetry_run_ok:
  assumes "session_ok s" "session_state s \<noteq> HANDSHAKE_PENDING"
  shows "run_ok m s w (process_telemetry E hdr p s w)"
proof (cases "unat (payload_size hdr) = telemetry_size")
  case False
  then show ?thesis by (simp add: process_telemetry_def run_ok_fail)
next
  case True
  define s1 where "s1 = (if session_state s = CONNECTED
                         then snd (session_transition s TELEMETRY) else s)"
  define s2 where "s2 = updateTelemetry s1 (telemetry_of_bytes p) (steady_now E w)"
  have s2: "socketHandle s2 = socketHandle s" "session_id s2 = session_id s"
    "session_state s2 = TELEMETRY" "session_state s1 = TELEMETRY" "telemetryValid s2"
    by (rule session_ok_cases [OF assms(1)]; simp add: s1_def s2_def machine_simps assms(2))+
  have "process_telemetry E hdr p s w = (True, s2, updateDashboardAircraft E s2 [] (steady_tick w))"
    using True s2 by (simp add: process_telemetry_def Let_def s1_def s2_def)
  moreover have "validateAircraftId (session_id s)"
    using assms by (auto simp: session_ok_def)
  ultimately show ?thesis using s2
    by (auto simp: run_ok_def handled_def session_ok_def isVerifiedSessionState_def
        intro!: confined_update shown_update)
qed

lemma in_use_free:
  assumes "sessions_ok m" "\<not> aircraftIdInUse (activeSessionSummaries m) h i"
  shows "id_free m h i"
proof (unfold id_free_def, intro allI impI)
  fix h' s' assume f: "map_find m h' = Some s'" "h' \<noteq> h"
  have "(h', s') \<in> set m" using assms(1) f by (simp add: sessions_ok_def map_find_set)
  moreover have "session_state s' \<noteq> DISCONNECTED"
    by (rule session_ok_cases [OF sessions_okD(3) [OF assms(1) f(1)]]) simp_all
  ultimately show "session_id s' \<noteq> i"
    using assms(2) f(2) by (force simp: aircraftIdInUse_iff activeSessionSummaries_def)
qed

lemma processHandshake_run_ok:
  assumes "sessions_ok m" "session_id s = []" "session_state s = HANDSHAKE_PENDING"
  shows "run_ok m s w (processHandshake E m hdr s w)"
proof -
  let ?i = "extractAircraftId (aircraft_id hdr)"
  let ?used = "aircraftIdInUse (activeSessionSummaries m) (socketHandle s) ?i"
  show ?thesis
  proof (cases "isValidHandshakeRequest hdr ?i ?used")
    case False
    let ?f = "makeHeader HANDSHAKE_FAIL ?i (sequence_number hdr) 0 0"
    obtain b w1 where snd: "sendPacket (socketHandle s) ?f [] w = (b, w1)"
      by (cases "sendPacket (socketHandle s) ?f [] w")
    have "confined i (socketHandle s) w w1" for i
      by (rule confined_sendPacket [OF confined_refl snd])
    with False snd assms show ?thesis
      by (auto simp: processHandshake_def Let_def run_ok_def handled_def shown_def
          intro!: confined_packet)
  next
    case True
    then have valid: "validateAircraftId ?i" and "\<not> ?used" by (simp_all add: isValidHandshakeRequest_def)
    then have free: "id_free m (socketHandle s) ?i" using in_use_free assms(1) by blast
    define s2 where "s2 = markPacketReceived (setAircraftId s ?i) (sequence_number hdr) (steady_now E w)"
    have s2: "socketHandle s2 = socketHandle s" "session_id s2 = ?i"
      "session_state s2 = HANDSHAKE_PENDING"
      using assms(3) by (simp_all add: s2_def)
    let ?a = "makeHeader HANDSHAKE_ACK ?i (sequence_number hdr) 0 0"
    obtain b w2 where snd: "sendPacket (socketHandle s) ?a [] (steady_tick w) = (b, w2)"
      by (cases "sendPacket (socketHandle s) ?a [] (steady_tick w)")
    have con: "confined i (socketHandle s) w w2" for i
      using confined_sendPacket [OF _ snd] by simp
    show ?thesis
    proof (cases b)
      case False
      obtain s' w' where f: "handleFault E ''HandshakeAckSendFailure'' s2 w2 = (s', w')"
        by (cases "handleFault E ''HandshakeAckSendFailure'' s2 w2")
      have "processHandshake E m hdr s w = (False, s', w')"
        using True False snd f s2 by (simp add: processHandshake_def Let_def s2_def fail_with_def)
      with handled_fail [OF f s2(1) con] s2 free assms(2) show ?thesis by (simp add: run_ok_def)
    next
      case b: True
      define w4 where "w4 = dash_packet E ''TX'' ?a (log_packet E ''TX'' ?a w2)"
      define s4 where "s4 = snd (session_transition (touch s2 (steady_now E w4)) CONNECTED)"
      have s4: "socketHandle s4 = socketHandle s" "session_id s4 = ?i" "session_state s4 = CONNECTED"
        using s2 by (simp_all add: s4_def machine_simps)
      have con4: "confined i (socketHandle s) w w4" for i
        unfolding w4_def using con by (simp add: confined_packet)
      have "processHandshake E m hdr s w = (True, s4, updateDashboardAircraft E s4 [] (steady_tick w4))"
        using True b snd s2 by (simp add: processHandshake_def Let_def s2_def s4_def w4_def)
      then show ?thesis
        using s4 con4 confined_ok [OF con4] valid free assms(2)
        by (auto simp: run_ok_def handled_def session_ok_def isVerifiedSessionState_def
            intro!: confined_update shown_update)
    qed
  qed
qed

lemma process_packet_run_ok:
  assumes "session_ok s" "session_state s \<noteq> HANDSHAKE_PENDING"
  shows "run_ok m s w (process_packet E hdr p s w)"
  using weather_run_ok [OF assms(1)] process_disconnect_run_ok [OF assms]
    process_telemetry_run_ok [OF assms]
  by (simp add: process_packet_def run_ok_fail split: PacketType.split)

lemma processReadableSession_run_ok:
  assumes m: "sessions_ok m" and s: "session_ok s"
  shows "run_ok m s w (processReadableSession E m s w)"
proof -
  obtain r w1 where rd: "recv_bytes (socketHandle s) header_size w = (r, w1)"
    by (cases "recv_bytes (socketHandle s) header_size w")
  have c1: "confined i (socketHandle s) w w1" for i by (rule confined_recv [OF confined_refl rd])
  show ?thesis
  proof (cases r)
    case None
    with rd run_ok_fail [OF refl refl c1] show ?thesis by (simp add: processReadableSession_def)
  next
    case (Some hb)
    let ?hdr = "header_of_bytes hb"
    define w3 where "w3 = dash_packet E ''RX'' ?hdr (log_packet E ''RX'' ?hdr w1)"
    have c3: "confined i (socketHandle s) w w3" for i
      unfolding w3_def using c1 by (simp add: confined_packet)
    show ?thesis
    proof (cases "session_state s = HANDSHAKE_PENDING")
      case True
      then have "session_id s = []" using s by (auto simp: session_ok_def isVerifiedSessionState_def)
      from run_ok_later [OF processHandshake_run_ok [OF m this True] refl refl c3]
      show ?thesis using rd Some True
        by (simp add: processReadableSession_def Let_def w3_def [symmetric])
    next
      case False
      define s1 where "s1 = markPacketReceived s (sequence_number ?hdr) (steady_now E w3)"
      have s1: "socketHandle s1 = socketHandle s" "session_id s1 = session_id s" "session_ok s1"
        "session_state s1 \<noteq> HANDSHAKE_PENDING"
        using s False by (simp_all add: s1_def session_ok_def)
      obtain q w5 where pl: "receivePacketPayload (socketHandle s) ?hdr (steady_tick w3) = (q, w5)"
        by (cases "receivePacketPayload (socketHandle s) ?hdr (steady_tick w3)")
      have c5: "confined i (socketHandle s) w w5" for i
        using confined_payload [OF _ pl] c3 by simp
      note fail = run_ok_fail [OF s1(1,2) c5]
      note later = run_ok_later [OF _ s1(1,2) c5]
      have "processReadableSession E m s w =
          (case q of None \<Rightarrow> fail_with E ''PayloadReceiveFailure'' s1 w5
           | Some payload \<Rightarrow> process_packet E ?hdr payload s1 w5)"
        using rd Some False pl by (simp add: processReadableSession_def Let_def w3_def s1_def split: option.split)
      then show ?thesis
        using run_ok_fail [OF s1(1,2) c5] run_ok_later [OF process_packet_run_ok [OF s1(3,4)] s1(1,2) c5]
        by (simp split: option.split)
    qed
  qed
qed

subsection \<open>The interpretations\<close>

interpretation weather_handler: session_handler "weather_op E"
  by unfold_locales (simp add: weather_op_def weather_run_ok sessions_okD(3))

interpretation disconnect_handler: session_handler "disconnect_op E"
  by unfold_locales (simp add: disconnect_op_def operator_disconnect_run_ok sessions_okD(3))

interpretation timeout_handler: session_handler "timeout_op E"
  by unfold_locales (rule timeout_run_ok)

interpretation read_handler: session_handler "read_op E"
  by unfold_locales (simp add: read_op_def processReadableSession_run_ok sessions_okD(3))

end
