(* ===== verification/Delivery.thy ===== *)
theory Delivery
  imports Session_Handlers Client_Packets
begin

text \<open>
  What reaches the server of what an aircraft sends (the packets of \<open>Client_Packets\<close>), however the
  network cuts the stream, and what \<open>processReadableSession\<close> makes of each kind; and what a
  transfer puts on the wire.
\<close>

subsection \<open>Reading a packet\<close>

abbreviation incoming :: "world \<Rightarrow> ClientSession \<Rightarrow> byte list" where
  "incoming w s \<equiv> sock_readable (wnet w (socketHandle s))"

abbreviation outgoing :: "world \<Rightarrow> ClientSession \<Rightarrow> byte list" where
  "outgoing w s \<equiv> outb (wnet w (socketHandle s))"

lemma recv_bytes_exact:
  assumes "sock_readable (wnet w h) = bs @ rest" "length bs = k"
  obtains w' where "recv_bytes h k w = (Some bs, w')" "sock_readable (wnet w' h) = rest"
    "outb (wnet w' h) = outb (wnet w h)" "shared w' = shared w" "logger w' = logger w"
    "steady_reads w' = steady_reads w" "system_reads w' = system_reads w" "tx (wnet w' h) = tx (wnet w h)"
proof -
  obtain r n where n: "net_recvAll (wnet w) h k = (r, n)" by (cases "net_recvAll (wnet w) h k")
  have r: "r = Some bs" using net_recvAll_value [of "wnet w" h k] n assms by simp
  have "sock_readable (n h) = rest"
    using net_recvAll_Some [of "wnet w" h k bs n] n r assms by simp
  then show ?thesis
    using that [of "w\<lparr>wnet := n\<rparr>"] n r net_recvAll_outb [OF n, of h] net_recvAll_tx [OF n, of h]
    by (simp add: recv_bytes_def)
qed

text \<open>The header read, the packet logged and shown, on the stream's first 29 bytes.\<close>

definition after_header :: "host \<Rightarrow> PacketHeader \<Rightarrow> world \<Rightarrow> world" where
  "after_header E hdr w = dash_packet E ''RX'' hdr (log_packet E ''RX'' hdr w)"

lemma after_header_frame [simp]:
  "wnet (after_header E hdr w) = wnet w" "steady_now E (after_header E hdr w) = steady_now E w"
  "logger (after_header E hdr w) = logPacket (system_now E w) (logger w) ''RX'' hdr"
  "steady_reads (after_header E hdr w) = steady_reads w"
  "dashboard_ok (shared w) \<Longrightarrow> dashboard_ok (shared (after_header E hdr w))"
  by (simp_all add: after_header_def dash_packet_def log_packet_def steady_now_def system_tick_def
      appendDashboardLog_def append_entry_ok)

lemma header_read:
  assumes "wf_header hdr" "incoming w s = header_bytes hdr @ rest"
  obtains w1 where "recv_bytes (socketHandle s) header_size w = (Some (header_bytes hdr), w1)"
    "incoming w1 s = rest" "outgoing w1 s = outgoing w s" "shared w1 = shared w" "logger w1 = logger w"
    "steady_reads w1 = steady_reads w" "system_reads w1 = system_reads w"
    "tx (wnet w1 (socketHandle s)) = tx (wnet w (socketHandle s))"
  using recv_bytes_exact [OF assms(2)] length_header_bytes [OF assms(1)] by blast

text \<open>
  For a session past its handshake, a packet on the stream reaches \<open>process_packet\<close> as sent, and
  the stream continues after it.
\<close>

lemma packet_dispatched:
  assumes wf: "wf_header hdr" and len: "length payload = unat (payload_size hdr)"
    and inp: "incoming w s = header_bytes hdr @ payload @ rest"
    and live: "session_state s \<noteq> HANDSHAKE_PENDING" and dok: "dashboard_ok (shared w)"
  obtains w' where
    "processReadableSession E m s w =
       process_packet E hdr payload (markPacketReceived s (sequence_number hdr) (steady_now E w)) w'"
    "incoming w' s = rest" "outgoing w' s = outgoing w s" "dashboard_ok (shared w')"
    "logger w' = logPacket (system_now E w) (logger w) ''RX'' hdr"
    "tx (wnet w' (socketHandle s)) = tx (wnet w (socketHandle s))" "steady_reads w' = Suc (steady_reads w)"
proof -
  obtain w1 where w1: "recv_bytes (socketHandle s) header_size w = (Some (header_bytes hdr), w1)"
    "incoming w1 s = payload @ rest" "outgoing w1 s = outgoing w s" "shared w1 = shared w"
    "logger w1 = logger w" "steady_reads w1 = steady_reads w" "system_reads w1 = system_reads w"
    "tx (wnet w1 (socketHandle s)) = tx (wnet w (socketHandle s))"
    using header_read [OF wf inp] by blast
  let ?w4 = "steady_tick (after_header E hdr w1)"
  have now: "steady_now E w1 = steady_now E w" "system_now E w1 = system_now E w"
    using w1 by (simp_all add: steady_now_def system_now_def)
  have w4: "dashboard_ok (shared ?w4)" "logger ?w4 = logPacket (system_now E w) (logger w) ''RX'' hdr"
    "steady_reads ?w4 = Suc (steady_reads w)"
    using dok w1 now by (simp_all add: steady_tick_def)
  obtain w5 where w5: "receivePacketPayload (socketHandle s) hdr ?w4 = (Some payload, w5)"
    "incoming w5 s = rest" "outgoing w5 s = outgoing w s" "shared w5 = shared ?w4" "logger w5 = logger ?w4"
    "tx (wnet w5 (socketHandle s)) = tx (wnet w (socketHandle s))" "steady_reads w5 = steady_reads ?w4"
  proof (cases "payload_size hdr = 0")
    case True
    then show ?thesis
      using that [of ?w4] len w1 by (simp add: receivePacketPayload_def)
  next
    case False
    have "sock_readable (wnet ?w4 (socketHandle s)) = payload @ rest" using w1 by simp
    from recv_bytes_exact [OF this len] obtain w5 where
      "recv_bytes (socketHandle s) (unat (payload_size hdr)) ?w4 = (Some payload, w5)"
      "incoming w5 s = rest" "outgoing w5 s = outgoing ?w4 s" "shared w5 = shared ?w4"
      "logger w5 = logger ?w4" "tx (wnet w5 (socketHandle s)) = tx (wnet ?w4 (socketHandle s))"
      "steady_reads w5 = steady_reads ?w4" by blast
    then show ?thesis using that [of w5] False w1 by (simp add: receivePacketPayload_def)
  qed
  have "processReadableSession E m s w =
      process_packet E hdr payload (markPacketReceived s (sequence_number hdr) (steady_now E w)) w5"
    using w1(1) live w5(1) now(1) header_of_header_bytes [OF wf]
    by (simp add: processReadableSession_def Let_def after_header_def [symmetric])
  then show ?thesis using that w5 w4 by simp
qed

subsection \<open>Telemetry\<close>

lemma telemetry_len [simp]: "unat (word_of_nat telemetry_size :: u32) = telemetry_size"
  by (simp add: telemetry_size_def)

definition telemetry_header :: "string \<Rightarrow> u32 \<Rightarrow> TelemetryPayload \<Rightarrow> PacketHeader" where
  "telemetry_header i n p =
     makeHeader TELEMETRY_PACKET i n (word_of_nat telemetry_size)
       (computeChecksum (telemetry_bytes p) (word_of_nat telemetry_size))"

lemma telemetry_packet_eq: "telemetry_packet i n p = header_bytes (telemetry_header i n p) @ telemetry_bytes p"
proof -
  have "0 < (word_of_nat telemetry_size :: u32)" by (simp add: telemetry_size_def)
  then show ?thesis
    by (simp add: telemetry_packet_def packet_bytes_def Let_def telemetry_header_def)
qed

lemma process_telemetry_accept:
  assumes "unat (payload_size hdr) = telemetry_size"
    and "s1 = (if session_state s = CONNECTED then snd (session_transition s TELEMETRY) else s)"
    and "session_state s1 = TELEMETRY"
  shows "process_telemetry E hdr pl s w =
    (let s2 = updateTelemetry s1 (telemetry_of_bytes pl) (steady_now E w)
     in (True, s2, updateDashboardAircraft E s2 [] (steady_tick w)))"
  using assms(1,3) unfolding process_telemetry_def Let_def assms(2) [symmetric] by simp

lemma telemetry_through:
  assumes "session_ok s" "session_state s \<noteq> HANDSHAKE_PENDING" "dashboard_ok (shared w)"
    and "incoming w s = telemetry_packet i n p @ rest"
  shows "\<exists>s' w'. processReadableSession E m s w = (True, s', w') \<and>
     session_state s' = TELEMETRY \<and> latestTelemetry s' = p \<and> telemetryValid s' \<and>
     lastClientSequenceNumber s' = n \<and> session_id s' = session_id s \<and>
     lastPacketTime s' = steady_at E (Suc (steady_reads w)) \<and>
     lastTelemetryPacketTime s' = steady_at E (Suc (steady_reads w)) \<and>
     (\<forall>now. timedOut s' now \<longleftrightarrow> steady_at E (Suc (steady_reads w)) + 3000000000 \<le> now) \<and>
     incoming w' s = rest \<and> outgoing w' s = outgoing w s \<and>
     (\<exists>a. map_find (aircraft (shared w')) (session_id s) = Some a \<and>
          dash_state a = TELEMETRY \<and> dash_telemetry a = p \<and> dash_telemetryValid a)"
proof -
  let ?hdr = "telemetry_header i n p"
  let ?s1 = "markPacketReceived s n (steady_now E w)"
  have hdr: "wf_header ?hdr" "payload_size ?hdr = word_of_nat telemetry_size" "sequence_number ?hdr = n"
    "packet_type ?hdr = TELEMETRY_PACKET"
    "checksum ?hdr = computeChecksum (telemetry_bytes p) (payload_size ?hdr)"
    by (simp_all add: telemetry_header_def wf_type_def)
  have "length (telemetry_bytes p) = unat (payload_size ?hdr)" by (simp add: hdr)
  moreover have "incoming w s = header_bytes ?hdr @ telemetry_bytes p @ rest"
    using assms(4) by (simp add: telemetry_packet_eq)
  ultimately obtain w' where w': "processReadableSession E m s w = process_packet E ?hdr (telemetry_bytes p) ?s1 w'"
    "incoming w' s = rest" "outgoing w' s = outgoing w s" "dashboard_ok (shared w')"
    "steady_reads w' = Suc (steady_reads w)"
    using packet_dispatched [OF hdr(1) _ _ assms(2,3), of "telemetry_bytes p" rest E m]
    unfolding hdr(3) by metis
  define s1 where "s1 = (if session_state ?s1 = CONNECTED
                         then snd (session_transition ?s1 TELEMETRY) else ?s1)"
  define s2 where "s2 = updateTelemetry s1 p (steady_now E w')"
  define w2 where "w2 = updateDashboardAircraft E s2 [] (steady_tick w')"
  have st: "session_state s1 = TELEMETRY" and id: "session_id s \<noteq> []"
    by (rule session_ok_cases [OF assms(1)]; simp add: s1_def machine_simps assms(2))+
  have "process_telemetry E ?hdr (telemetry_bytes p) ?s1 w' = (True, s2, w2)"
    using process_telemetry_accept [OF _ s1_def st, of ?hdr E "telemetry_bytes p" w']
    by (simp add: hdr s2_def w2_def Let_def)
  then have r: "processReadableSession E m s w = (True, s2, w2)"
    by (simp add: w' process_packet_def hdr)
  have s2: "session_state s2 = TELEMETRY" "latestTelemetry s2 = p" "telemetryValid s2"
    "lastClientSequenceNumber s2 = n" "session_id s2 = session_id s" "socketHandle s2 = socketHandle s"
    using st by (simp_all add: s2_def s1_def)
  have sh: "shown s2 (shared w2)" unfolding w2_def by (rule shown_update) (simp add: w'(4))
  have t: "lastPacketTime s2 = steady_at E (Suc (steady_reads w))"
    "lastTelemetryPacketTime s2 = steady_at E (Suc (steady_reads w))"
    using w'(5) by (simp_all add: s2_def steady_now_def)
  moreover have "timedOut s2 now \<longleftrightarrow> steady_at E (Suc (steady_reads w)) + 3000000000 \<le> now" for now
    using s2(1) t by (auto simp: timedOut_iff)
  moreover have "incoming w2 s = rest" "outgoing w2 s = outgoing w s" by (simp_all add: w2_def w')
  ultimately show ?thesis
    using sh s2 id by (intro exI [of _ s2] exI [of _ w2]) (auto simp: r shown_def)
qed

text \<open>
  C13. Telemetry gets through: when the stream of a verified session begins with the telemetry packet
  an aircraft builds, in whatever pieces the kernel delivers it, the server keeps the session,
  puts it in the telemetry state with exactly the payload sent and the packet's sequence number,
  restarts its timeout at the clock's reading when the payload was taken (the session is overdue
  from three seconds after that reading on, whatever its last packet was before), shows the new
  values on the dashboard, and leaves the stream right after the packet.
\<close>

theorem telemetry_delivered:
  assumes "session_ok s" "session_state s \<noteq> HANDSHAKE_PENDING" "dashboard_ok (shared w)"
    and "incoming w s = telemetry_packet i n p @ rest"
  shows "\<exists>s' w'. processReadableSession E m s w = (True, s', w') \<and>
     session_state s' = TELEMETRY \<and> latestTelemetry s' = p \<and> telemetryValid s' \<and>
     lastClientSequenceNumber s' = n \<and> session_id s' = session_id s \<and>
     lastPacketTime s' = steady_at E (Suc (steady_reads w)) \<and>
     lastTelemetryPacketTime s' = steady_at E (Suc (steady_reads w)) \<and>
     (\<forall>now. timedOut s' now \<longleftrightarrow> steady_at E (Suc (steady_reads w)) + 3000000000 \<le> now) \<and>
     incoming w' s = rest \<and> outgoing w' s = outgoing w s \<and>
     (\<exists>a. map_find (aircraft (shared w')) (session_id s) = Some a \<and>
          dash_state a = TELEMETRY \<and> dash_telemetry a = p \<and> dash_telemetryValid a)"
  using telemetry_through [OF assms, of E m] .

definition example_host :: host where
  "example_host =
     \<lparr> steady_at = (\<lambda>i. 1000 + int i), system_at = (\<lambda>i. 1700000000000 + i), disk = (\<lambda>p bs. Some bs),
       alloc_ok = (\<lambda>n. True), read_ok = (\<lambda>p. True), undef_map = (\<lambda>c n. []) \<rparr>"

definition example_session :: ClientSession where
  "example_session = (new_session 4 0)\<lparr>session_id := ''AC-001'', machine := \<lparr> current = CONNECTED \<rparr>\<rparr>"

definition example_world :: "recv_event list \<Rightarrow> send_event list \<Rightarrow> world" where
  "example_world es fs =
     \<lparr> logger = new_logger ''groundctrl'' ''logs'' 0 1, shared = new_dashboard,
       wnet = (\<lambda>h. \<lparr> rx = es, tx = fs, outb = [], shut_all = False, shut_wr = False, closes = 0 \<rparr>),
       steady_reads = 0, system_reads = 0 \<rparr>"

lemma example_world_simps [simp]:
  "shared (example_world es fs) = new_dashboard"
  "sock_readable (wnet (example_world es fs) h) = stream_of es"
  "rx (wnet (example_world es fs) h) = es" "tx (wnet (example_world es fs) h) = fs"
  "outb (wnet (example_world es fs) h) = []"
  "logger (example_world es fs) = new_logger ''groundctrl'' ''logs'' 0 1"
  by (simp_all add: example_world_def sock_readable_def)

lemma example_session_ok [simp]:
  "session_ok example_session" "session_state example_session = CONNECTED"
  "session_id example_session = ''AC-001''" "socketHandle example_session = 4"
  by (simp_all add: example_session_def session_ok_def isVerifiedSessionState_def getState_def
      validateAircraftId_def is_digit_def less_eq_char_def)

definition example_payload :: TelemetryPayload where
  "example_payload = \<lparr> latitude = 1110388736, longitude = 3265527808, altitude = 1190625280,
     speed = 1139802112, heading = 1132920832 \<rparr>"

text \<open>The packet in two pieces, cut inside the header.\<close>

theorem telemetry_delivered_witness:
  "\<exists>s' w'. processReadableSession example_host [] example_session
      (example_world [RecvBytes (take 10 (telemetry_packet ''AC-001'' 7 example_payload)),
                      RecvBytes (drop 10 (telemetry_packet ''AC-001'' 7 example_payload))] []) =
      (True, s', w') \<and> session_state s' = TELEMETRY \<and> latestTelemetry s' = example_payload"
proof -
  let ?w = "example_world [RecvBytes (take 10 (telemetry_packet ''AC-001'' 7 example_payload)),
                      RecvBytes (drop 10 (telemetry_packet ''AC-001'' 7 example_payload))] []"
  have "take 10 (telemetry_packet ''AC-001'' 7 example_payload) \<noteq> []"
    "drop 10 (telemetry_packet ''AC-001'' 7 example_payload) \<noteq> []"
    by (code_simp)+
  then have "incoming ?w example_session = telemetry_packet ''AC-001'' 7 example_payload @ []"
    by simp
  from telemetry_delivered [OF example_session_ok(1) _ _ this, of example_host "[]"] show ?thesis
    by auto
qed

subsection \<open>Damaged and misplaced packets\<close>

text \<open>A fault on the way: what the two logs record of it.\<close>

lemma fail_with_outcome:
  obtains s' w' where "fail_with E c s w = (False, s', w')" "session_state s' = DISCONNECTED"
    "session_id s' = session_id s" "latestTelemetry s' = latestTelemetry s"
    "wnet w' = wnet w"
    "logger w' = logFault (system_now E w) (logger w) c (stateToString (session_state s))
                   (lastClientSequenceNumber s)"
proof -
  obtain s' w' where f: "handleFault E c s w = (s', w')" by (cases "handleFault E c s w")
  have "latestTelemetry s' = latestTelemetry s"
    using f by (auto simp: handleFault_def Let_def split: if_splits)
  with that [of s' w'] handleFault_eqD [OF f] handleFault_logger [of E c s w] f show ?thesis
    by (simp add: fail_with_def)
qed

text \<open>
  C21. A damaged payload is never believed: if one byte of the payload was changed on the way (to
  whatever value), the server gives the session up with a ChecksumMismatch fault, which both
  logs of the ground station record with the state and sequence number; the session's telemetry
  is untouched.
\<close>

theorem corrupted_payload_rejected:
  assumes "session_state s \<noteq> HANDSHAKE_PENDING" "dashboard_ok (shared w)"
    and "wf_header hdr" "unat (payload_size hdr) = length payload"
    and "checksum hdr = computeChecksum payload (payload_size hdr)"
    and "i < length payload" "b \<noteq> payload ! i"
    and "incoming w s = header_bytes hdr @ payload[i := b] @ rest"
  shows "\<exists>s' w' t. processReadableSession E m s w = (False, s', w') \<and>
     session_state s' = DISCONNECTED \<and> latestTelemetry s' = latestTelemetry s \<and>
     logger w' = logFault t (logPacket (system_now E w) (logger w) ''RX'' hdr) ''ChecksumMismatch''
                   (stateToString (session_state s)) (sequence_number hdr)"
proof -
  have "length (payload[i := b]) = unat (payload_size hdr)" using assms(4) by simp
  then obtain w1 where w1: "processReadableSession E m s w =
       process_packet E hdr (payload[i := b]) (markPacketReceived s (sequence_number hdr) (steady_now E w)) w1"
    "logger w1 = logPacket (system_now E w) (logger w) ''RX'' hdr"
    using packet_dispatched [OF assms(3) _ assms(8,1,2)] by metis
  have "computeChecksum (payload[i := b]) (payload_size hdr) \<noteq> checksum hdr"
    using checksum_update_differs [OF assms(4,6,7)] assms(5) by simp
  then have "processReadableSession E m s w = fail_with E ''ChecksumMismatch''
      (markPacketReceived s (sequence_number hdr) (steady_now E w)) w1"
    by (simp add: w1 process_packet_def)
  then show ?thesis
    using w1(2) by (rule_tac fail_with_outcome [of E "''ChecksumMismatch''"
      "markPacketReceived s (sequence_number hdr) (steady_now E w)" w1]) auto
qed

theorem corrupted_payload_rejected_witness:
  "\<exists>s' w' t. processReadableSession example_host [] example_session
      (example_world [RecvBytes (header_bytes (makeHeader TELEMETRY_PACKET ''AC-001'' 7 3
                        (computeChecksum [1, 2, 3] 3)) @ [1, 9, 3])] []) = (False, s', w') \<and>
     session_state s' = DISCONNECTED"
proof -
  let ?h = "makeHeader TELEMETRY_PACKET ''AC-001'' 7 3 (computeChecksum [1, 2, 3] 3)"
  let ?w = "example_world [RecvBytes (header_bytes ?h @ [1, 9, 3])] []"
  have wf: "wf_header ?h" by (simp add: wf_type_def)
  have st: "session_state example_session \<noteq> HANDSHAKE_PENDING" by simp
  have d: "dashboard_ok (shared ?w)" by simp
  have i: "incoming ?w example_session = header_bytes ?h @ [1, 2, 3][1 := 9] @ []" by simp
  show ?thesis
    using corrupted_payload_rejected [OF st d wf _ _ _ _ i, of example_host "[]"] by auto
qed

subsection \<open>The handshake\<close>

lemma send_bytes_prefix:
  assumes "send_bytes h bs w = (ok, w')"
  obtains k where "k \<le> length bs" "ok \<longleftrightarrow> k = length bs" "outb (wnet w' h) = outb (wnet w h) @ take k bs"
    "sock_readable (wnet w' h) = sock_readable (wnet w h)"
proof -
  obtain n where n: "net_sendAll (wnet w) h bs = (ok, n)" "w' = w\<lparr>wnet := n\<rparr>"
    using assms by (auto simp: send_bytes_def split: prod.splits)
  have rd: "sock_readable (wnet w' h) = sock_readable (wnet w h)"
    using net_sendAll_readable [OF n(1)] n(2) by simp
  show ?thesis
  proof (cases ok)
    case True
    then have "outb (wnet w' h) = outb (wnet w h) @ take (length bs) bs"
      using net_sendAll_True [of "wnet w" h bs n] n by simp
    then show ?thesis using that [of "length bs"] True rd by simp
  next
    case False
    with net_sendAll_False [of "wnet w" h bs n] n
    obtain k where "k < length bs" "outb (wnet w' h) = outb (wnet w h) @ take k bs" by auto
    then show ?thesis using that [of k] False rd by simp
  qed
qed

text \<open>
  A socket that will take \<open>n\<close> more blocks of 4096 bytes: the kernel's next \<open>n\<close> answers accept that
  much.
\<close>

definition willing :: "sock \<Rightarrow> nat \<Rightarrow> bool" where
  "willing k n \<longleftrightarrow> (\<exists>es rest. tx k = map Accepts es @ rest \<and> length es = n \<and> (\<forall>e\<in>set es. 4096 \<le> e))"

lemma send_bytes_willing:
  assumes "willing (wnet w h) (Suc n)" "0 < length bs" "length bs \<le> 4096"
  obtains w' where "send_bytes h bs w = (True, w')" "willing (wnet w' h) n"
proof -
  obtain e es rest where tx: "tx (wnet w h) = Accepts e # map Accepts es @ rest" "length es = n"
    "4096 \<le> e" "\<forall>e\<in>set es. 4096 \<le> e"
    using assms(1) by (auto simp: willing_def length_Suc_conv)
  let ?k = "wnet w h"
  let ?k' = "?k\<lparr>tx := map Accepts es @ rest, outb := outb ?k @ bs\<rparr>"
  have "sock_send ?k (take (min (length bs - 0) max_chunk) (drop 0 bs)) = (Some (length bs), ?k')"
    using tx assms(3) by (simp add: sock_send_def max_chunk_def)
  then have "send_loop sock_send bs 0 ?k = (True, ?k')"
    using assms(2) by (cases "length bs") (simp_all add: send_loop.simps)
  then have "send_bytes h bs w = (True, w\<lparr>wnet := (wnet w)(h := ?k')\<rparr>)"
    by (simp add: send_bytes_def net_sendAll_def sendAll_def)
  moreover have "willing ?k' n" using tx by (auto simp: willing_def)
  ultimately show ?thesis using that by simp
qed

lemma sendPacket_empty: "payload_size hdr = 0 \<Longrightarrow> sendPacket h hdr p w = send_bytes h (header_bytes hdr) w"
  by (simp add: sendPacket_def split: prod.splits bool.splits)

text \<open>What the server answers, and what it wrote of it when the send failed.\<close>

definition wrote :: "world \<Rightarrow> world \<Rightarrow> ClientSession \<Rightarrow> byte list \<Rightarrow> bool \<Rightarrow> bool" where
  "wrote w w' s bs all \<longleftrightarrow>
     (\<exists>k \<le> length bs. (all \<longleftrightarrow> k = length bs) \<and> outgoing w' s = outgoing w s @ take k bs)"

lemma wrote_send: "send_bytes (socketHandle s) bs w = (ok, w') \<Longrightarrow> wrote w w' s bs ok"
  by (erule send_bytes_prefix) (auto simp: wrote_def)

lemma pending_dispatched:
  assumes wf: "wf_header hdr" and inp: "incoming w s = header_bytes hdr @ rest"
    and pend: "session_state s = HANDSHAKE_PENDING" and dok: "dashboard_ok (shared w)"
  obtains w' where
    "processReadableSession E m s w = processHandshake E m hdr s w'"
    "incoming w' s = rest" "outgoing w' s = outgoing w s" "dashboard_ok (shared w')"
    "aircraft (shared w') = aircraft (shared w)" "tx (wnet w' (socketHandle s)) = tx (wnet w (socketHandle s))"
proof -
  obtain w1 where w1: "recv_bytes (socketHandle s) header_size w = (Some (header_bytes hdr), w1)"
    "incoming w1 s = rest" "outgoing w1 s = outgoing w s" "shared w1 = shared w"
    "tx (wnet w1 (socketHandle s)) = tx (wnet w (socketHandle s))"
    using header_read [OF wf inp] by metis
  let ?w3 = "after_header E hdr w1"
  have "processReadableSession E m s w = processHandshake E m hdr s ?w3"
    using w1(1) pend header_of_header_bytes [OF wf]
    by (simp add: processReadableSession_def Let_def after_header_def)
  moreover have "aircraft (shared ?w3) = aircraft (shared w)"
    using w1 by (simp add: after_header_def)
  ultimately show ?thesis using that [of ?w3] w1 dok by simp
qed

lemma handshake_outcome:
  assumes "sessions_ok m" "session_state s = HANDSHAKE_PENDING" "dashboard_ok (shared w)"
    and "incoming w s = handshake_packet i n @ rest" "validateAircraftId i" "id_free m (socketHandle s) i"
  shows "\<exists>alive s' w'. processReadableSession E m s w = (alive, s', w') \<and>
     wrote w w' s (header_bytes (makeHeader HANDSHAKE_ACK i n 0 0)) alive \<and>
     session_state s' = (if alive then CONNECTED else DISCONNECTED) \<and> session_id s' = i \<and>
     lastClientSequenceNumber s' = n \<and>
     (\<exists>a. map_find (aircraft (shared w')) i = Some a \<and> dash_state a = session_state s') \<and>
     (alive \<longrightarrow> incoming w' s = rest \<and> (\<exists>k. lastPacketTime s' = steady_at E k)) \<and>
     nextServerSequence s' = nextServerSequence s \<and> telemetryValid s' = telemetryValid s \<and>
     (\<forall>k. willing (wnet w (socketHandle s)) (Suc k) \<longrightarrow> alive \<and> willing (wnet w' (socketHandle s)) k)"
proof -
  let ?hdr = "makeHeader HANDSHAKE_REQUEST i n 0 0"
  let ?ack = "makeHeader HANDSHAKE_ACK i n 0 0"
  have "wf_header ?hdr" by (simp add: wf_type_def)
  moreover have "incoming w s = header_bytes ?hdr @ rest"
    using assms(4) by (simp add: handshake_packet_def packet_bytes_def)
  ultimately obtain w1 where w1: "processReadableSession E m s w = processHandshake E m ?hdr s w1"
    "incoming w1 s = rest" "outgoing w1 s = outgoing w s" "dashboard_ok (shared w1)"
    "tx (wnet w1 (socketHandle s)) = tx (wnet w (socketHandle s))"
    using pending_dispatched [OF _ _ assms(2,3)] by metis
  have id: "extractAircraftId (id_field i) = i" "i \<noteq> []"
    using valid_id_roundtrip [OF assms(5)] valid_id_shape [OF assms(5)] by simp_all
  have "\<not> aircraftIdInUse (activeSessionSummaries m) (socketHandle s) i"
    using assms(1,6)
    by (force simp: aircraftIdInUse_iff activeSessionSummaries_def id_free_def sessions_ok_def map_find_set)
  then have valid: "isValidHandshakeRequest ?hdr i
      (aircraftIdInUse (activeSessionSummaries m) (socketHandle s) i)"
    using assms(5) by (simp add: isValidHandshakeRequest_def)
  define s2 where "s2 = markPacketReceived (setAircraftId s i) n (steady_now E w1)"
  have s2: "socketHandle s2 = socketHandle s" "session_id s2 = i" "session_state s2 = HANDSHAKE_PENDING"
    "lastClientSequenceNumber s2 = n" "nextServerSequence s2 = nextServerSequence s"
    "telemetryValid s2 = telemetryValid s"
    using assms(2) by (simp_all add: s2_def setAircraftId_def)
  obtain b w2 where snd: "send_bytes (socketHandle s) (header_bytes ?ack) (steady_tick w1) = (b, w2)"
    by (cases "send_bytes (socketHandle s) (header_bytes ?ack) (steady_tick w1)")
  have wr: "wrote w w2 s (header_bytes ?ack) b" and d2: "dashboard_ok (shared w2)"
    using wrote_send [OF snd] w1 bytes_frame_eq(1) [OF snd] by (simp_all add: wrote_def)
  have ack: "0 < length (header_bytes ?ack)" "length (header_bytes ?ack) \<le> 4096"
    using length_header_bytes [of ?ack] by (simp_all add: wf_type_def header_size_def)
  have b: "b \<and> willing (wnet w2 (socketHandle s)) k" if "willing (wnet w (socketHandle s)) (Suc k)" for k
  proof -
    have "willing (wnet (steady_tick w1) (socketHandle s)) (Suc k)" using that w1(5) by (simp add: willing_def)
    from send_bytes_willing [OF this ack] snd show "b \<and> willing (wnet w2 (socketHandle s)) k" by auto
  qed
  show ?thesis
  proof (cases b)
    case False
    obtain s' w' where f: "handleFault E ''HandshakeAckSendFailure'' s2 w2 = (s', w')"
      by (cases "handleFault E ''HandshakeAckSendFailure'' s2 w2")
    have r: "processReadableSession E m s w = (False, s', w')"
      using valid id snd False f
      by (simp add: w1 processHandshake_def sendPacket_empty s2_def fail_with_def)
    have "lastClientSequenceNumber s' = n" "nextServerSequence s' = nextServerSequence s"
      "telemetryValid s' = telemetryValid s"
      using f s2 by (auto simp: handleFault_def Let_def split: if_splits)
    with handleFault_eqD [OF f] d2 s2 id wr False b show ?thesis
      by (intro exI [of _ False] exI [of _ s'] exI [of _ w']) (auto simp: r wrote_def shown_def)
  next
    case True
    define w4 where "w4 = dash_packet E ''TX'' ?ack (log_packet E ''TX'' ?ack w2)"
    define s4 where "s4 = snd (session_transition (touch s2 (steady_now E w4)) CONNECTED)"
    define w5 where "w5 = updateDashboardAircraft E s4 [] (steady_tick w4)"
    have r: "processReadableSession E m s w = (True, s4, w5)"
      using valid id snd True
      by (simp add: w1 processHandshake_def Let_def sendPacket_empty s2_def s4_def w4_def w5_def)
    have s4: "session_state s4 = CONNECTED" "session_id s4 = i" "lastClientSequenceNumber s4 = n"
      "nextServerSequence s4 = nextServerSequence s" "telemetryValid s4 = telemetryValid s"
      using s2 by (simp_all add: s4_def machine_simps)
    have "shown s4 (shared w5)" unfolding w5_def
      by (rule shown_update) (use d2 in \<open>simp add: w4_def packet_ok\<close>)
    have "incoming w5 s = rest" using snd w1(2) by (auto simp: w5_def w4_def elim: send_bytes_prefix)
    moreover have "\<exists>k. lastPacketTime s4 = steady_at E k" by (auto simp: s4_def steady_now_def)
    ultimately show ?thesis
      using s4 id wr b True \<open>shown s4 (shared w5)\<close>
      by (intro exI [of _ True] exI [of _ s4] exI [of _ w5])
         (auto simp: r wrote_def shown_def w5_def w4_def)
  qed
qed

text \<open>
  C14. A new aircraft is admitted: when the stream of a session awaiting its handshake begins with
  the request an aircraft builds for a well-formed id that no other session has, the server
  answers with the acknowledgement for the same id and sequence number, and the session lives
  exactly when the answer went out whole; it is then connected under that id and on the
  dashboard as such, and otherwise disconnected.
\<close>

theorem handshake_accepted:
  assumes "sessions_ok m" "session_state s = HANDSHAKE_PENDING" "dashboard_ok (shared w)"
    and "incoming w s = handshake_packet i n @ rest" "validateAircraftId i" "id_free m (socketHandle s) i"
  shows "\<exists>alive s' w'. processReadableSession E m s w = (alive, s', w') \<and>
     wrote w w' s (header_bytes (makeHeader HANDSHAKE_ACK i n 0 0)) alive \<and>
     session_state s' = (if alive then CONNECTED else DISCONNECTED) \<and> session_id s' = i \<and>
     lastClientSequenceNumber s' = n \<and>
     (\<exists>a. map_find (aircraft (shared w')) i = Some a \<and> dash_state a = session_state s')"
  using handshake_outcome [OF assms, of E] by blast

definition example_pending :: ClientSession where
  "example_pending = (new_session 4 0)\<lparr>machine := \<lparr> current = HANDSHAKE_PENDING \<rparr>\<rparr>"

lemma example_pending_ok [simp]:
  "session_ok example_pending" "session_state example_pending = HANDSHAKE_PENDING"
  "socketHandle example_pending = 4" "session_id example_pending = []"
  by (simp_all add: example_pending_def session_ok_def getState_def)

lemma example_map_ok [simp]: "sessions_ok [(4, example_pending)]"
  by (simp add: sessions_ok_def ids_unique_def map_find_def INVALID_SOCK_def)

lemma valid_AC_001 [simp]: "validateAircraftId ''AC-001''"
  by (simp add: validateAircraftId_def is_digit_def less_eq_char_def)

theorem handshake_accepted_witness:
  "\<exists>alive s' w'. processReadableSession example_host [(4, example_pending)] example_pending
       (example_world [RecvBytes (handshake_packet ''AC-001'' 1)] [Accepts 29]) = (alive, s', w') \<and>
     session_state s' = (if alive then CONNECTED else DISCONNECTED) \<and> session_id s' = ''AC-001''"
proof -
  let ?w = "example_world [RecvBytes (handshake_packet ''AC-001'' 1)] [Accepts 29]"
  have i: "incoming ?w example_pending = handshake_packet ''AC-001'' 1 @ []" by simp
  have d: "dashboard_ok (shared ?w)" by simp
  have f: "id_free [(4, example_pending)] (socketHandle example_pending) ''AC-001''"
    by (simp add: id_free_def map_find_def)
  show ?thesis
    using handshake_accepted [OF example_map_ok example_pending_ok(2) d i valid_AC_001 f, of example_host] by blast
qed

text \<open>
  C15. Nobody gets in otherwise: whatever packet a session awaiting its handshake sends first, if it is
  not a request without payload for a well-formed id that no other session holds, the session is
  given up, nothing but (a prefix of) a HANDSHAKE_FAIL with the packet's sequence number is sent,
  the payload it announced is not read, and the session and the aircraft on the dashboard are as
  they were.
\<close>

theorem handshake_rejected:
  assumes "sessions_ok m" "session_state s = HANDSHAKE_PENDING" "dashboard_ok (shared w)"
    and "wf_header hdr" "incoming w s = header_bytes hdr @ rest"
    and "packet_type hdr = HANDSHAKE_REQUEST \<Longrightarrow> payload_size hdr = 0 \<Longrightarrow>
      validateAircraftId (extractAircraftId (aircraft_id hdr)) \<Longrightarrow>
      \<exists>h' s'. map_find m h' = Some s' \<and> h' \<noteq> socketHandle s \<and>
        session_id s' = extractAircraftId (aircraft_id hdr)"
  shows "\<exists>w' all. processReadableSession E m s w = (False, s, w') \<and>
     wrote w w' s (header_bytes (makeHeader HANDSHAKE_FAIL (extractAircraftId (aircraft_id hdr))
                     (sequence_number hdr) 0 0)) all \<and>
     incoming w' s = rest \<and> aircraft (shared w') = aircraft (shared w)"
proof -
  let ?i = "extractAircraftId (aircraft_id hdr)"
  let ?fail = "makeHeader HANDSHAKE_FAIL ?i (sequence_number hdr) 0 0"
  obtain w1 where w1: "processReadableSession E m s w = processHandshake E m hdr s w1"
    "incoming w1 s = rest" "outgoing w1 s = outgoing w s" "aircraft (shared w1) = aircraft (shared w)"
    using pending_dispatched [OF assms(4,5,2,3)] by metis
  have "\<not> isValidHandshakeRequest hdr ?i (aircraftIdInUse (activeSessionSummaries m) (socketHandle s) ?i)"
  proof
    assume v: "isValidHandshakeRequest hdr ?i
      (aircraftIdInUse (activeSessionSummaries m) (socketHandle s) ?i)"
    then have "id_free m (socketHandle s) ?i"
      using in_use_free [OF assms(1)] by (simp add: isValidHandshakeRequest_def)
    with v assms(6) show False by (auto simp: isValidHandshakeRequest_def id_free_def)
  qed
  moreover obtain b w2 where snd: "send_bytes (socketHandle s) (header_bytes ?fail) w1 = (b, w2)"
    by (cases "send_bytes (socketHandle s) (header_bytes ?fail) w1")
  ultimately have "processReadableSession E m s w =
      (False, s, dash_packet E ''TX'' ?fail (log_packet E ''TX'' ?fail w2))"
    by (simp add: w1 processHandshake_def Let_def sendPacket_empty)
  moreover have "wrote w w2 s (header_bytes ?fail) b"
    using wrote_send [OF snd] w1 by (simp add: wrote_def)
  moreover have "incoming w2 s = rest" using snd w1 by (auto elim: send_bytes_prefix)
  ultimately show ?thesis
    using w1 bytes_frame_eq(1) [OF snd]
    by (intro exI [of _ "dash_packet E ''TX'' ?fail (log_packet E ''TX'' ?fail w2)"] exI [of _ b])
       (simp add: wrote_def)
qed

theorem handshake_rejected_witness:
  "\<exists>w'. processReadableSession example_host [(4, example_pending)] example_pending
       (example_world [RecvBytes (header_bytes (makeHeader TELEMETRY_PACKET ''AC-001'' 1 20 0))] [Accepts 29])
     = (False, example_pending, w') \<and> aircraft (shared w') = []"
proof -
  let ?h = "makeHeader TELEMETRY_PACKET ''AC-001'' 1 20 0"
  let ?w = "example_world [RecvBytes (header_bytes ?h)] [Accepts 29]"
  have h: "wf_header ?h" "incoming ?w example_pending = header_bytes ?h @ []" "dashboard_ok (shared ?w)"
    by (simp_all add: wf_type_def)
  have a: "aircraft (shared ?w) = []" by (simp add: new_dashboard_def)
  show ?thesis
    using handshake_rejected [OF example_map_ok example_pending_ok(2) h(3,1,2), of example_host] a by force
qed

subsection \<open>The transfer\<close>

lemma send_chunks_data:
  "send_chunks h data (length data) off w = (True, w') \<Longrightarrow>
     outb (wnet w' h) = outb (wnet w h) @ drop off data"
proof (induction "length data - off" arbitrary: off w rule: less_induct)
  case less
  show ?case
  proof (cases "off < length data")
    case False
    with less.prems show ?thesis by (simp add: send_chunks.simps [of h data "length data" off])
  next
    case True
    let ?c = "take (min kChunkSize (length data - off)) (drop off data)"
    obtain b w1 where s: "send_bytes h ?c w = (b, w1)" by (cases "send_bytes h ?c w")
    with less.prems True have b: "b" and rec: "send_chunks h data (length data) (off + kChunkSize) w1 = (True, w')"
      by (auto simp: send_chunks.simps [of h data "length data" off] split: bool.splits)
    have o1: "outb (wnet w1 h) = outb (wnet w h) @ ?c"
      using send_bytes_prefix [OF s] b by (metis take_all_iff order_refl)
    have "length data - (off + kChunkSize) < length data - off" using True by (simp add: kChunkSize_def)
    from less.hyps [OF this rec] o1
    have "outb (wnet w' h) = outb (wnet w h) @ ?c @ drop (off + kChunkSize) data" by simp
    moreover have "?c @ drop (off + kChunkSize) data = drop off data"
    proof (cases "kChunkSize \<le> length data - off")
      case True
      then have "?c = take kChunkSize (drop off data)" by simp
      then show ?thesis by (metis append_take_drop_id drop_drop add.commute)
    qed simp
    ultimately show ?thesis by simp
  qed
qed

lemma transmit_map_data:
  assumes "transmit_map h hdr data w = (None, w')"
  shows "outb (wnet w' h) = outb (wnet w h) @ header_bytes hdr @ data"
proof -
  obtain w1 where s: "send_bytes h (header_bytes hdr) w = (True, w1)"
    and c: "send_chunks h data (length data) 0 w1 = (True, w')"
    using assms by (auto simp: transmit_map_def split: prod.splits bool.splits)
  have "outb (wnet w1 h) = outb (wnet w h) @ header_bytes hdr"
    using send_bytes_prefix [OF s] by (metis take_all_iff order_refl)
  with send_chunks_data [OF c] show ?thesis by simp
qed

text \<open>The stages of a transfer that went through.\<close>

lemma sendWeatherMap_True:
  assumes "sendWeatherMap E s w = (True, s', w')"
  obtains s1 w2 path data w3 where "transfer_start s = (True, s1)"
    "load_map E s1 (serverSequence s1) (updateDashboardAircraft E s1 [] w) = (Inr (path, data), w2)"
    "transmit_map (socketHandle s1) (map_header s1 (serverSequence s1) data) data w2 = (None, w3)"
    "transfer_done E (snd (consumeServerSequence s1)) path (map_header s1 (serverSequence s1) data) w3
       = (s', w')"
  using assms
  by (auto simp: sendWeatherMap_def Let_def split: prod.splits bool.splits sum.splits option.splits)

lemma transfer_sent:
  assumes "sendWeatherMap E s w = (True, s', w')"
  shows "\<exists>path bytes data.
     disk E path (written_map E (weatherMapContextFor s) (nextServerSequence s)) = Some bytes \<and>
     (length bytes < 2 ^ 32 \<longrightarrow> data = bytes) \<and> length data < 2 ^ 32 \<and>
     outgoing w' s = outgoing w s @ header_bytes
       (makeHeader LARGE_FILE (session_id s) (nextServerSequence s) (word_of_nat (length data))
          (computeChecksum data (word_of_nat (length data)))) @ data \<and>
     session_state s' = CONNECTED \<and> nextServerSequence s' = nextServerSequence s + 1 \<and>
     session_id s' = session_id s"
proof -
  obtain s1 w2 path data w3 where
    st: "transfer_start s = (True, s1)"
    and ld: "load_map E s1 (serverSequence s1) (updateDashboardAircraft E s1 [] w) = (Inr (path, data), w2)"
    and tr: "transmit_map (socketHandle s1) (map_header s1 (serverSequence s1) data) data w2 = (None, w3)"
    and dn: "transfer_done E (snd (consumeServerSequence s1)) path
        (map_header s1 (serverSequence s1) data) w3 = (s', w')"
    by (rule sendWeatherMap_True [OF assms])
  note s1 = transfer_start_eqD [OF st]
  obtain bytes where b: "disk E path (written_map E (weatherMapContextFor s) (nextServerSequence s)) = Some bytes"
    "length bytes < 2 ^ 32 \<longrightarrow> data = bytes" "length data < 2 ^ 32"
    using load_map_eqD(4) [OF ld refl] s1(3,4) by (auto simp: serverSequence_def)
  have "wnet w2 = wnet w" using load_map_eqD(2) [OF ld] by simp
  then have "outgoing w3 s = outgoing w s @ header_bytes (map_header s1 (serverSequence s1) data) @ data"
    using transmit_map_data [OF tr] s1(1) by simp
  moreover have "map_header s1 (serverSequence s1) data =
      makeHeader LARGE_FILE (session_id s) (nextServerSequence s) (word_of_nat (length data))
          (computeChecksum data (word_of_nat (length data)))"
    using s1 by (simp add: map_header_def Let_def serverSequence_def)
  ultimately show ?thesis
    using b transfer_done_eqD [OF dn] s1 assms sendWeatherMap_frame [OF assms]
    by (intro exI [of _ path] exI [of _ bytes] exI [of _ data]) simp
qed

lemma send_chunks_willing:
  assumes "willing (wnet w h) n" "length data - off \<le> 4096 * n"
  shows "fst (send_chunks h data (length data) off w)"
  using assms
proof (induction n arbitrary: off w)
  case 0
  then show ?case by (simp add: send_chunks.simps [of h data "length data" off])
next
  case (Suc n)
  show ?case
  proof (cases "off < length data")
    case False
    then show ?thesis by (simp add: send_chunks.simps [of h data "length data" off])
  next
    case True
    let ?c = "take (min kChunkSize (length data - off)) (drop off data)"
    have "0 < length ?c" "length ?c \<le> 4096" using True by (simp_all add: kChunkSize_def)
    then obtain w1 where w1: "send_bytes h ?c w = (True, w1)" "willing (wnet w1 h) n"
      by (rule send_bytes_willing [OF Suc.prems(1)])
    have "length data - (off + kChunkSize) \<le> 4096 * n" using Suc.prems(2) by (simp add: kChunkSize_def)
    from Suc.IH [OF w1(2) this] w1(1) True show ?thesis
      by (simp add: send_chunks.simps [of h data "length data" off])
  qed
qed

lemma transmit_map_willing:
  assumes "willing (wnet w h) (Suc n)" "length data \<le> 4096 * n" "wf_header hdr"
  shows "fst (transmit_map h hdr data w) = None"
proof -
  have "0 < length (header_bytes hdr)" "length (header_bytes hdr) \<le> 4096"
    using length_header_bytes [OF assms(3)] by (simp_all add: header_size_def)
  then obtain w1 where w1: "send_bytes h (header_bytes hdr) w = (True, w1)" "willing (wnet w1 h) n"
    by (rule send_bytes_willing [OF assms(1)])
  have "fst (send_chunks h data (length data) 0 w1)"
    using send_chunks_willing [OF w1(2)] assms(2) by simp
  then show ?thesis
    by (cases "send_chunks h data (length data) 0 w1") (simp add: transmit_map_def w1)
qed

lemma transfer_runs:
  assumes "session_state s \<in> active_states"
    and "generateWeatherMap (weatherMapContextFor s) (nextServerSequence s) = Some bmp"
    and "\<And>p bs. disk E p bs = Some bs" "\<And>n. alloc_ok E n" "\<And>p. read_ok E p"
    and "willing (wnet w (socketHandle s)) 770"
  shows "\<exists>s' w'. sendWeatherMap E s w = (True, s', w') \<and> session_state s' = CONNECTED \<and>
    outgoing w' s = outgoing w s @ header_bytes
       (makeHeader LARGE_FILE (session_id s) (nextServerSequence s) 3145782
          (computeChecksum bmp 3145782)) @ bmp"
proof -
  have len: "length bmp = 3145782" by (rule length_generated [OF assms(2)])
  obtain s1 where st: "transfer_start s = (True, s1)"
    using transfer_start_eqD(5) [of s] assms(1) by (cases "transfer_start s") auto
  note s1 = transfer_start_eqD [OF st]
  let ?n = "nextServerSequence s"
  let ?w1 = "updateDashboardAircraft E s1 [] w"
  let ?path = "generatedWeatherMapPathFor (system_now E ?w1) (session_id s) ?n"
  have ld: "load_map E s1 ?n ?w1 = (Inr (?path, bmp), system_tick ?w1)"
    using assms(3-5) s1 by (simp add: load_map_def Let_def written_map_def assms(2) len)
  let ?hdr = "map_header s1 ?n bmp"
  have "willing (wnet (system_tick ?w1) (socketHandle s)) (Suc 769)" using assms(6) by simp
  moreover have "length bmp \<le> 4096 * 769" by (simp add: len)
  ultimately have "fst (transmit_map (socketHandle s) ?hdr bmp (system_tick ?w1)) = None"
    by (rule transmit_map_willing) simp
  then obtain w3 where tr: "transmit_map (socketHandle s) ?hdr bmp (system_tick ?w1) = (None, w3)"
    by (cases "transmit_map (socketHandle s) ?hdr bmp (system_tick ?w1)") simp
  obtain s' w' where ok: "sendWeatherMap E s w = (True, s', w')"
    using st ld tr s1 by (cases "transfer_done E (snd (consumeServerSequence s1)) ?path ?hdr w3")
      (simp add: sendWeatherMap_def Let_def serverSequence_def)
  from transfer_sent [OF ok] assms(3) obtain data where
    "data = written_map E (weatherMapContextFor s) ?n \<or> \<not> length (written_map E (weatherMapContextFor s) ?n) < 2 ^ 32"
    "outgoing w' s = outgoing w s @ header_bytes
       (makeHeader LARGE_FILE (session_id s) ?n (word_of_nat (length data))
          (computeChecksum data (word_of_nat (length data)))) @ data"
    "session_state s' = CONNECTED" by auto
  with ok show ?thesis by (simp add: written_map_def assms(2) len)
qed

text \<open>The first transfer of the example session, to a peer that takes all of it.\<close>

definition example_peer :: world where
  "example_peer = example_world [] (replicate 770 (Accepts 4096))"

lemma example_premises:
  "session_state example_session \<in> active_states"
  "\<And>p bs. disk example_host p bs = Some bs" "\<And>n. alloc_ok example_host n" "\<And>p. read_ok example_host p"
  "willing (wnet example_peer (socketHandle example_session)) 770"
proof -
  have "tx (wnet example_peer h) = map Accepts (replicate 770 4096) @ []" for h
    by (simp only: example_peer_def example_world_simps map_replicate append_Nil2)
  then show "willing (wnet example_peer (socketHandle example_session)) 770"
    unfolding willing_def by (metis in_set_replicate length_replicate order_refl)
qed (simp_all add: active_states_def example_host_def)

lemma example_context:
  "weatherMapContextFor example_session = first_context" "nextServerSequence example_session = 1"
  by (simp_all add: weatherMapContextFor_def first_context_def example_session_def new_session_def)

text \<open>
  A successful transfer delivers the file: the socket has received a LARGE_FILE header with the
  session's id and next sequence number, the length of the data and its checksum, followed by
  the data; the data is the content of the file the map was written to (its whole content when
  it is shorter than 4 GiB), the sequence number is used up and the session is connected again.
\<close>

theorem weather_map_sent:
  assumes "sendWeatherMap E s w = (True, s', w')"
  shows "\<exists>path bytes data.
     disk E path (written_map E (weatherMapContextFor s) (nextServerSequence s)) = Some bytes \<and>
     (length bytes < 2 ^ 32 \<longrightarrow> data = bytes) \<and> length data < 2 ^ 32 \<and>
     outgoing w' s = outgoing w s @ header_bytes
       (makeHeader LARGE_FILE (session_id s) (nextServerSequence s) (word_of_nat (length data))
          (computeChecksum data (word_of_nat (length data)))) @ data \<and>
     session_state s' = CONNECTED \<and> nextServerSequence s' = nextServerSequence s + 1 \<and>
     session_id s' = session_id s"
  using assms by (rule transfer_sent)

theorem weather_map_sent_witness:
  "\<exists>s' w'. sendWeatherMap example_host example_session example_peer = (True, s', w') \<and>
     nextServerSequence s' = nextServerSequence example_session + 1"
proof -
  obtain bmp where b: "generateWeatherMap first_context 1 = Some bmp" using first_map_defined by blast
  obtain s' w' where r: "sendWeatherMap example_host example_session example_peer = (True, s', w')"
    using transfer_runs [OF example_premises(1) _ example_premises(2-5), of bmp, unfolded example_context, OF b]
    by blast
  then show ?thesis using weather_map_sent [OF r] by blast
qed

text \<open>
  C20. A transfer to a healthy peer completes: from every active state (telemetry included), if the
  map's generation is defined, its file reads back as it was written, memory suffices and the
  kernel takes the 770 blocks of a map, the transfer succeeds and the peer has been sent the
  header and exactly the generated bitmap.
\<close>

theorem transfer_completes:
  assumes "session_state s \<in> active_states"
    and "generateWeatherMap (weatherMapContextFor s) (nextServerSequence s) = Some bmp"
    and "\<And>p bs. disk E p bs = Some bs" "\<And>n. alloc_ok E n" "\<And>p. read_ok E p"
    and "willing (wnet w (socketHandle s)) 770"
  shows "\<exists>s' w'. sendWeatherMap E s w = (True, s', w') \<and> session_state s' = CONNECTED \<and>
    outgoing w' s = outgoing w s @ header_bytes
       (makeHeader LARGE_FILE (session_id s) (nextServerSequence s) 3145782
          (computeChecksum bmp 3145782)) @ bmp"
  using assms by (rule transfer_runs)

theorem transfer_completes_witness:
  "\<exists>bmp s' w'. generateWeatherMap first_context 1 = Some bmp \<and>
     sendWeatherMap example_host example_session example_peer = (True, s', w') \<and>
     outgoing w' example_session = outgoing example_peer example_session @ header_bytes
       (makeHeader LARGE_FILE ''AC-001'' 1 3145782 (computeChecksum bmp 3145782)) @ bmp"
proof -
  obtain bmp where b: "generateWeatherMap first_context 1 = Some bmp" using first_map_defined by blast
  from transfer_completes [OF example_premises(1) _ example_premises(2-5), of bmp, unfolded example_context, OF b] b
  show ?thesis unfolding example_session_ok(3) by blast
qed

subsection \<open>Faults\<close>

lemma update_entry:
  assumes "dashboard_ok (shared w)" "session_id s \<noteq> []" "session_state s \<noteq> TELEMETRY"
  shows "\<exists>a. map_find (aircraft (shared (updateDashboardAircraft E s [] w))) (session_id s) = Some a \<and>
    dash_state a = session_state s \<and> dash_connected a = isVerifiedSessionState (session_state s) \<and>
    dash_telemetry a = latestTelemetry s \<and> dash_telemetryValid a = telemetryValid s \<and> dash_alert a = []"
  using assms
  by (simp add: updateDashboardAircraft_def dashboardAlertMessage_def telemetryRateDegraded_iff sync_entry
      dashboard_ok_def)

lemma handleFault_last:
  assumes "handleFault E cause s w = (s', w')" "dashboard_ok (shared w)"
  obtains w1 where "w' = updateDashboardAircraft E s' [] w1" "dashboard_ok (shared w1)"
proof -
  have "\<exists>w1. w' = updateDashboardAircraft E s' [] w1 \<and> dashboard_ok (shared w1)"
    using assms by (auto simp: handleFault_def Let_def append_entry_ok intro!: exI update_ok)
  then show ?thesis using that by blast
qed

lemma update_log [simp]: "recentLogEntries (shared (updateDashboardAircraft E s a w)) = recentLogEntries (shared w)"
  by (simp add: updateDashboardAircraft_def case_prod_beta Let_def dashboardAlertMessage_def)

lemma update_selected:
  "selectedAircraftId (shared (updateDashboardAircraft E s a w)) =
     (if selectedAircraftId (shared w) = [] then session_id s else selectedAircraftId (shared w))"
  by (simp add: updateDashboardAircraft_def case_prod_beta Let_def dashboardAlertMessage_def syncDashboardAircraft_def)

lemma handleFault_exact:
  assumes "handleFault E cause s w = (s', w')" "dashboard_ok (shared w)"
  shows "s' = s\<lparr>machine := \<lparr>current = DISCONNECTED\<rparr>\<rparr>"
    "recentLogEntries (shared w') = take 20
       (faultDashboardEntry (timeStampHmsUtc E (system_tick w)) (session_id s) cause # recentLogEntries (shared w))"
    "selectedAircraftId (shared w') =
       (if selectedAircraftId (shared w) = [] then session_id s else selectedAircraftId (shared w))"
proof -
  have "fst (handleFault E cause s w) = s\<lparr>machine := \<lparr>current = DISCONNECTED\<rparr>\<rparr>"
  proof -
    obtain st where st: "machine s = \<lparr>current = st\<rparr>" by (cases "machine s") auto
    show ?thesis
      by (cases st)
         (simp_all add: handleFault_def Let_def session_transition_def transition_def getState_def isAllowed_def st
          ClientSession.equality case_prod_beta)
  qed
  then show "s' = s\<lparr>machine := \<lparr>current = DISCONNECTED\<rparr>\<rparr>" using assms(1) by simp
  have l: "length (recentLogEntries (shared w)) \<le> 20" using assms(2) by (simp add: dashboard_ok_def)
  have w': "w' = snd (handleFault E cause s w)" using assms(1) by simp
  have sys: "timeStampHmsUtc E (log_fault E c st n w) = timeStampHmsUtc E (system_tick w)" for c st n
    by (simp add: timeStampHmsUtc_def log_fault_def system_now_def)
  show "recentLogEntries (shared w') = take 20
       (faultDashboardEntry (timeStampHmsUtc E (system_tick w)) (session_id s) cause # recentLogEntries (shared w))"
    unfolding w' by (simp add: handleFault_def Let_def appendDashboardLog_def append_entry_take l sys)
  show "selectedAircraftId (shared w') =
       (if selectedAircraftId (shared w) = [] then session_id s else selectedAircraftId (shared w))"
    unfolding w' by (simp add: handleFault_def Let_def update_selected appendDashboardLog_def)
qed

text \<open>
  C31. Every fault is recorded and final: whatever the cause and the session's state, handling it
  writes the same one line, with the cause, the state the session was in and its last sequence
  number, to the communication log and to the black box, puts one line in front of the
  dashboard's log, and leaves the session disconnected and otherwise as it was. It touches no
  socket, no operator request and no other aircraft, and moves the selection only if there was
  none. But the alert that names the cause is gone from the dashboard when the handler returns:
  the aircraft's entry carries an empty alert.
\<close>

theorem fault_recorded:
  assumes "dashboard_ok (shared w)" "handleFault E cause s w = (s', w')"
  shows "commsLog (logger w') = commsLog (logger w) @
       [fault_line (timestampUtc (system_now E w)) cause (stateToString (session_state s))
          (lastClientSequenceNumber s)] \<and>
     blackBoxLog (logger w') = map_option (\<lambda>ls. ls @
       [fault_line (timestampUtc (system_now E w)) cause (stateToString (session_state s))
          (lastClientSequenceNumber s)]) (blackBoxLog (logger w)) \<and>
     recentLogEntries (shared w') = take 20
       (faultDashboardEntry (timeStampHmsUtc E (system_tick w)) (session_id s) cause # recentLogEntries (shared w)) \<and>
     s' = s\<lparr>machine := \<lparr>current = DISCONNECTED\<rparr>\<rparr> \<and> wnet w' = wnet w \<and>
     weatherRequestAircraftId (shared w') = weatherRequestAircraftId (shared w) \<and>
     disconnectRequestAircraftId (shared w') = disconnectRequestAircraftId (shared w) \<and>
     selectedAircraftId (shared w') =
       (if selectedAircraftId (shared w) = [] then session_id s else selectedAircraftId (shared w)) \<and>
     (\<forall>k. k \<noteq> session_id s \<longrightarrow> map_find (aircraft (shared w')) k = map_find (aircraft (shared w)) k) \<and>
     (session_id s = [] \<or> (\<exists>a. map_find (aircraft (shared w')) (session_id s) = Some a \<and>
        dash_state a = DISCONNECTED \<and> \<not> dash_connected a \<and> dash_telemetry a = latestTelemetry s \<and>
        dash_telemetryValid a = telemetryValid s \<and> dash_alert a = []))"
proof -
  note f = handleFault_eqD [OF assms(2)] and x = handleFault_exact [OF assms(2,1)]
  have lg: "logger w' = logFault (system_now E w) (logger w) cause (stateToString (session_state s))
      (lastClientSequenceNumber s)"
    using handleFault_logger [of E cause s w] assms(2) by simp
  have con: "map_find (aircraft (shared w')) k = map_find (aircraft (shared w)) k" if "k \<noteq> session_id s" for k
    using f(5) [of "socketHandle s"] assms(1) that by (simp add: confined_def)
  have req: "requests w' = requests w" using f(5) [of "socketHandle s"] by (simp add: confined_def)
  obtain w1 where w1: "w' = updateDashboardAircraft E s' [] w1" "dashboard_ok (shared w1)"
    by (rule handleFault_last [OF assms(2,1)])
  have "\<exists>a. map_find (aircraft (shared w')) (session_id s) = Some a \<and>
        dash_state a = DISCONNECTED \<and> \<not> dash_connected a \<and> dash_telemetry a = latestTelemetry s \<and>
        dash_telemetryValid a = telemetryValid s \<and> dash_alert a = []" if "session_id s \<noteq> []"
    using update_entry [OF w1(2), of s' E] that f(2,3) x(1) w1(1) by (auto simp: isVerifiedSessionState_def)
  with x lg con f(4) req show ?thesis by (auto simp: requests_def)
qed

theorem fault_recorded_witness:
  "session_state (fst (handleFault example_host ''SocketTimeout'' example_session example_peer)) = DISCONNECTED \<and>
   length (commsLog (logger (snd (handleFault example_host ''SocketTimeout'' example_session example_peer)))) = 1"
proof -
  have "dashboard_ok (shared example_peer)" by (simp add: example_peer_def)
  moreover have "commsLog (logger example_peer) = []"
    by (simp add: example_peer_def new_logger_def Let_def)
  ultimately show ?thesis
    using fault_recorded [of example_peer example_host "''SocketTimeout''" example_session,
        OF _ surjective_pairing] by (simp add: getState_def)
qed

end
