(* ===== verification/Client_Run.thy ===== *)
theory Client_Run
  imports Client_Safety Delivery
begin

text \<open>
  Runs of the client: the threads' steps in the order of a schedule, from the start into an example
  session and out of it again, with the interleaving in which the socket is closed under the
  receiver.
\<close>

subsection \<open>Schedules\<close>

fun run :: "client_host \<Rightarrow> thread list \<Rightarrow> app \<Rightarrow> app option" where
  "run E [] a = Some a"
| "run E (t # ts) a = (if ready t a then run E ts (app_step E t a) else None)"

lemma run_append: "run E (ts @ us) a = (case run E ts a of None \<Rightarrow> None | Some a' \<Rightarrow> run E us a')"
  by (induction ts arbitrary: a) simp_all

lemma run_reachable:
  "run E ts a = Some a' \<Longrightarrow> client_reachable E a0 a \<Longrightarrow> client_reachable E a0 a'"
proof (induction ts arbitrary: a)
  case (Cons t ts)
  then show ?case
    by (auto split: if_splits intro: client_reachable.step client_step.thread)
qed simp

lemma run_one:
  "prog a t = i # is \<Longrightarrow> (\<And>t'. i \<noteq> Menu (Join t')) \<Longrightarrow> exec E i a = (js, a1) \<Longrightarrow>
     run E (t # ts) a = run E ts (a1\<lparr>prog := (prog a1)(t := js @ is)\<rparr>)"
  by (simp add: ready_def app_step_def split: instr.split menu_point.split)

lemma reachable_typed:
  "client_reachable E a0 a \<Longrightarrow> client_reachable E a0 (a\<lparr>inputLines := inputLines a @ ls\<rparr>)"
proof (induction ls rule: rev_induct)
  case (snoc l ls)
  from client_reachable.step [OF snoc.IH [OF snoc.prems] client_step.typed, of l] show ?case by simp
qed simp

subsection \<open>From the start into a session\<close>

lemma normalize_one [simp]: "normalizeChoice ''1'' = ''1''" "normalizeChoice ''D'' = ''D''"
  by code_simp+

lemmas run_simps = ready_def app_step_def lift_client_def tryPopInput_def Let_def

text \<open>From the menu to the point of connecting, when the user types 1.\<close>

lemma menu_to_connect:
  assumes "prog a Main = [Menu Menu_While]" "\<not> running (cl a)" "csocket (cl a) = INVALID_SOCK"
    "inputLines a = ''1'' # ls" "\<not> printedDisconnectedMenu a"
  shows "\<exists>a'. run E [Main, Main, Main, Main, Main, Main, Main] a = Some a' \<and>
    prog a' = (prog a)(Main := [Menu Menu_Connect]) \<and> inputLines a' = ls \<and>
    same_connection (cl a) (cl a') \<and> saved (cl a') = saved (cl a) \<and>
    fileTransferActive (cl a') = fileTransferActive (cl a)"
  using assms
  by (simp add: run_simps printStatus_def printLine_def same_connection_def)

text \<open>From a new session to the last instruction before the disconnect packet is sent, when the user types D.\<close>

lemma session_to_send:
  assumes "prog a = (\<lambda>t. [])(Main := [Menu Spawn, Menu Session_While])" "running (cl a)"
    "csocket (cl a) \<noteq> INVALID_SOCK" "inputLines a = ''D'' # ls" "\<not> printedConnectedMenu a"
  shows "\<exists>a' n m. run E [Main, Receiver_Thread, Receiver_Thread, Main, Main, Main, Main, Main, Main, Main, Main, Main, Main] a = Some a' \<and>
    prog a' Receiver_Thread = [Rcv Recv_Wait] \<and> prog a' Main =
      [Call (Send_Packet For_Disconnect n), Do (Set_State C_DISCONNECTED m), Do (Store_Transfer False),
       Do Shutdown_Send, Menu Session_While] \<and>
    \<not> running (cl a') \<and> csocket (cl a') \<noteq> INVALID_SOCK"
  using assms
  by (simp add: run_simps printStatus_def printLine_def)

text \<open>Sending the disconnect packet, whether the server takes it or not.\<close>

lemma send_disconnect:
  assumes "prog a Main = Call (Send_Packet For_Disconnect n) # is" "prog a Receiver_Thread = js"
    "\<not> running (cl a)" "csocket (cl a) \<noteq> INVALID_SOCK"
  shows "\<exists>ts a'. run E ts a = Some a' \<and> prog a' Main = is \<and> prog a' Receiver_Thread = js \<and>
    \<not> running (cl a') \<and> csocket (cl a') \<noteq> INVALID_SOCK"
proof -
  obtain hdr pl where h: "packet_for For_Disconnect (cid (cl a)) n = (hdr, pl)"
    by (cases "packet_for For_Disconnect (cid (cl a)) n")
  obtain ok c where s: "sendPacketLocked hdr pl (cl a) = (ok, c)" by (cases "sendPacketLocked hdr pl (cl a)")
  have sc: "same_connection (cl a) c" using same_connection_sendPacket [OF s] .
  show ?thesis
  proof (cases ok)
    case True
    have sl: "same_connection c (client_logPacket E ''TX'' hdr c)" by simp
    have "\<exists>a'. run E [Main, Main] a = Some a' \<and> prog a' Main = is \<and> prog a' Receiver_Thread = js \<and>
        \<not> running (cl a') \<and> csocket (cl a') \<noteq> INVALID_SOCK"
      using assms h s True sc sl by (simp add: run_simps same_connection_def del: packet_for.simps)
    then show ?thesis by blast
  next
    case False
    have "\<exists>a'. run E [Main] a = Some a' \<and> prog a' Main = is \<and> prog a' Receiver_Thread = js \<and>
        \<not> running (cl a') \<and> csocket (cl a') \<noteq> INVALID_SOCK"
      using assms h s False sc by (simp add: run_simps same_connection_def del: packet_for.simps)
    then show ?thesis by blast
  qed
qed

text \<open>From there to the end of the second disconnect, which closes the socket.\<close>

lemma disconnect_to_closed:
  assumes "prog a Main =
      [Do (Set_State C_DISCONNECTED m), Do (Store_Transfer False), Do Shutdown_Send, Menu Session_While]"
    "prog a Receiver_Thread = [Rcv Recv_Wait]" "\<not> running (cl a)" "csocket (cl a) \<noteq> INVALID_SOCK"
  shows "\<exists>a'. run E [Main, Main, Main, Main, Main, Main, Main, Main] a = Some a' \<and>
    prog a' Receiver_Thread = [Rcv Recv_Wait] \<and> csocket (cl a') = INVALID_SOCK"
  using assms
  by (simp add: run_simps setState_def session_over_def)

subsection \<open>The example session\<close>

definition example_app :: app where
  "example_app =
     start_app \<lparr> opt_host = ''localhost'', opt_port = 5000, opt_aircraftId = ''AC-001'',
                 opt_aircraftIdExplicit = False \<rparr>
       (new_logger ''aircraft'' ''logs'' 0 1)
       (\<lambda>h. \<lparr> rx = [], tx = [], outb = [], shut_all = False, shut_wr = False, closes = 0 \<rparr>)"

text \<open>The user types 1, the server accepts: a session is reached, with further lines typed ahead.\<close>

lemma example_menu:
  "\<exists>a. client_reachable E example_app a \<and> prog a = (\<lambda>t. [])(Main := [Menu Menu_Connect]) \<and>
     inputLines a = ls \<and> socket_calls (cl a) = 0 \<and> saved (cl a) = [] \<and> cid (cl a) = ''AC-001'' \<and>
     \<not> fileTransferActive (cl a)"
proof -
  let ?a = "example_app\<lparr>inputLines := ''1'' # ls\<rparr>"
  have r: "client_reachable E example_app ?a"
    using reachable_typed [OF client_reachable.init, of E example_app "''1'' # ls"]
    by (simp add: example_app_def start_app_def)
  have p: "prog ?a Main = [Menu Menu_While]" "\<not> running (cl ?a)" "csocket (cl ?a) = INVALID_SOCK"
    "inputLines ?a = ''1'' # ls" "\<not> printedDisconnectedMenu ?a"
    by (simp_all add: example_app_def start_app_def new_client_def)
  obtain a where a: "run E [Main, Main, Main, Main, Main, Main, Main] ?a = Some a"
    "prog a = (prog ?a)(Main := [Menu Menu_Connect])" "inputLines a = ls"
    "same_connection (cl ?a) (cl a)" "saved (cl a) = saved (cl ?a)"
    "fileTransferActive (cl a) = fileTransferActive (cl ?a)"
    using menu_to_connect [OF p] by blast
  have "prog a = (\<lambda>t. [])(Main := [Menu Menu_Connect])"
    using a(2) by (auto simp: example_app_def start_app_def)
  with a r run_reachable [OF a(1) r] show ?thesis
    by (intro exI [of _ a]) (auto simp: same_connection_def example_app_def start_app_def new_client_def)
qed

lemma connect_step:
  assumes "prog a = (\<lambda>t. [])(Main := [Menu Menu_Connect])" "connectSession E (cl a) = (True, c)"
  shows "run E [Main] a = Some (a\<lparr>cl := c, printedConnectedMenu := False,
     prog := (\<lambda>t. [])(Main := [Menu Spawn, Menu Session_While])\<rparr>)"
  using assms by (simp add: run_simps)

lemma example_session_start:
  "\<exists>a. client_reachable (example_client_host bs) example_app a \<and>
     prog a = (\<lambda>t. [])(Main := [Menu Spawn, Menu Session_While]) \<and> running (cl a) \<and> socket_live (cl a) \<and>
     inputLines a = ls \<and> \<not> printedConnectedMenu a \<and> saved (cl a) = [] \<and> cid (cl a) = ''AC-001'' \<and>
     sock_readable (cnet (cl a) (csocket (cl a))) = bs \<and>
     outb (cnet (cl a) (csocket (cl a))) = handshake_packet ''AC-001'' 1 \<and>
     tx (cnet (cl a) (csocket (cl a))) = replicate 3 (Accepts 64) \<and> \<not> fileTransferActive (cl a)"
proof -
  let ?E = "example_client_host bs"
  obtain a where a: "client_reachable ?E example_app a" "prog a = (\<lambda>t. [])(Main := [Menu Menu_Connect])"
    "inputLines a = ls" "socket_calls (cl a) = 0" "saved (cl a) = []" "cid (cl a) = ''AC-001''"
    "\<not> fileTransferActive (cl a)"
    using example_menu by blast
  have "app_inv example_app" unfolding example_app_def by (intro app_inv_start) simp
  with a(1) have inv: "app_inv a" by (rule app_inv_reachable)
  then have "at_menu (facts_of a)"
    using a(2) main_at_menu_point [of "facts_of a" Menu_Connect] by (simp add: app_inv_def menu_points_def)
  with inv have u: "unconnected (cl a)"
    by (simp add: app_inv_def at_menu_def facts_of_def unconnected_def)
  have rd: "sock_readable (ch_traffic ?E i) = header_bytes (makeHeader HANDSHAKE_ACK ''AC-001'' 1 0 0) @ bs" for i
    by (simp add: example_client_host_def sock_readable_def header_bytes_def)
  have t: "tx (ch_traffic ?E i) = Accepts 64 # replicate 3 (Accepts 64)" for i
    by (simp add: example_client_host_def)
  have h: "ch_socket ?E i \<noteq> INVALID_SOCK" "ch_resolve ?E i = Some [False, True]" for i
    by (simp_all add: example_client_host_def INVALID_SOCK_def)
  have wf: "wf_header (makeHeader HANDSHAKE_ACK ''AC-001'' 1 0 0)" by (simp add: wf_type_def)
  have le: "header_size \<le> 64" by (simp add: header_size_def)
  obtain c where c: "connectSession ?E (cl a) = (True, c)" "sock_readable (cnet c (csocket c)) = bs"
    "saved c = []" "cid c = ''AC-001''" "outb (cnet c (csocket c)) = handshake_packet ''AC-001'' 1"
    "tx (cnet c (csocket c)) = replicate 3 (Accepts 64)" "\<not> fileTransferActive c"
    using connect_accepted [OF h(1) h(2) _ t le rd wf, of "cl a"] a(5-7) by auto
  have "running c" "socket_live c" using connect_ends [OF u c(1)] by (simp_all add: ended_clean_def)
  with a(1,3) c connect_step [OF a(2) c(1)] run_reachable [OF connect_step [OF a(2) c(1)] a(1)] show ?thesis
    by (intro exI [of _ "a\<lparr>cl := c, printedConnectedMenu := False,
          prog := (\<lambda>t. [])(Main := [Menu Spawn, Menu Session_While])\<rparr>"]) simp
qed

theorem descriptors_balanced_witness:
  "\<exists>a. client_reachable (example_client_host []) example_app a \<and> running (cl a) \<and>
     opened (cl a) = closed (cl a) + 1 \<and> closes (cnet (cl a) (csocket (cl a))) \<le> 1"
proof -
  obtain a where a: "client_reachable (example_client_host []) example_app a" "running (cl a)" "socket_live (cl a)"
    using example_session_start by blast
  from a descriptors_balanced [OF a(1) [unfolded example_app_def]] show ?thesis by auto
qed

text \<open>The workers started, and then the flag cleared by a disconnect: what they can still do.\<close>

lemma example_disconnecting:
  "\<exists>a m. client_reachable (example_client_host bs) example_app a \<and>
     prog a Receiver_Thread = [Rcv Recv_Wait] \<and> prog a Main =
      [Do (Set_State C_DISCONNECTED m), Do (Store_Transfer False), Do Shutdown_Send, Menu Session_While] \<and>
     \<not> running (cl a) \<and> csocket (cl a) \<noteq> INVALID_SOCK"
proof -
  let ?E = "example_client_host bs"
  obtain a where a: "client_reachable ?E example_app a"
    "prog a = (\<lambda>t. [])(Main := [Menu Spawn, Menu Session_While])" "running (cl a)" "socket_live (cl a)"
    "inputLines a = [''D'']" "\<not> printedConnectedMenu a"
    using example_session_start [of bs "[''D'']"] by blast
  have s: "csocket (cl a) \<noteq> INVALID_SOCK" using a(4) by (simp add: socket_live_def)
  obtain a1 n m where a1: "run ?E [Main, Receiver_Thread, Receiver_Thread, Main, Main, Main, Main, Main, Main,
      Main, Main, Main, Main] a = Some a1" "prog a1 Receiver_Thread = [Rcv Recv_Wait]"
    "prog a1 Main = [Call (Send_Packet For_Disconnect n), Do (Set_State C_DISCONNECTED m),
       Do (Store_Transfer False), Do Shutdown_Send, Menu Session_While]"
    "\<not> running (cl a1)" "csocket (cl a1) \<noteq> INVALID_SOCK"
    using session_to_send [OF a(2,3) s a(5,6), of ?E] by blast
  obtain ts a2 where a2: "run ?E ts a1 = Some a2" "prog a2 Main =
      [Do (Set_State C_DISCONNECTED m), Do (Store_Transfer False), Do Shutdown_Send, Menu Session_While]"
    "prog a2 Receiver_Thread = [Rcv Recv_Wait]" "\<not> running (cl a2)" "csocket (cl a2) \<noteq> INVALID_SOCK"
    using send_disconnect [OF a1(3,2,4,5), of ?E] by blast
  have "client_reachable ?E example_app a2"
    using run_reachable [OF a2(1) run_reachable [OF a1(1) a(1)]] .
  with a2 show ?thesis by blast
qed

theorem workers_wind_down_witness:
  "\<exists>a. client_reachable (example_client_host []) example_app a \<and>
     winding (example_client_host []) a [Receiver_Thread] (app_step (example_client_host []) Receiver_Thread a) \<and>
     count_list [Receiver_Thread] Receiver_Thread \<le> 15 \<and>
     ready Receiver_Thread (app_step (example_client_host []) Receiver_Thread a)"
proof -
  let ?E = "example_client_host []"
  obtain a where a: "client_reachable ?E example_app a" "prog a Receiver_Thread = [Rcv Recv_Wait]" "\<not> running (cl a)"
    using example_disconnecting by blast
  then have "ready Receiver_Thread a" by (simp add: ready_def)
  from wind_thread [OF wind_init a(3) this] have w: "winding ?E a [Receiver_Thread] (app_step ?E Receiver_Thread a)" .
  have "prog (app_step ?E Receiver_Thread a) Receiver_Thread \<noteq> []" using a(2) by (simp add: run_simps)
  with a w workers_wind_down [OF a(1) [unfolded example_app_def] _ w] show ?thesis by auto
qed

subsection \<open>The socket is closed under the receiver\<close>

text \<open>
  C26. A disconnect can close the socket while the receiver is about to wait on it: there is an
  interleaving of one session, ended by the user's D, in which the receiver has found the running
  flag set, the main thread has then disconnected, closed the socket and overwritten it with
  INVALID_SOCK, and the receiver's next step calls \<open>select\<close> with a set made of that -1.
\<close>

theorem polls_closed_descriptor:
  "\<exists>a. client_reachable (example_client_host []) example_app a \<and> ready Receiver_Thread a \<and>
     prog a Receiver_Thread = [Rcv Recv_Wait] \<and> csocket (cl a) = INVALID_SOCK \<and>
     polled_dead (cl (app_step (example_client_host []) Receiver_Thread a))"
proof -
  let ?E = "example_client_host []"
  obtain a m where a: "client_reachable ?E example_app a" "prog a Receiver_Thread = [Rcv Recv_Wait]"
    "prog a Main = [Do (Set_State C_DISCONNECTED m), Do (Store_Transfer False), Do Shutdown_Send, Menu Session_While]"
    "\<not> running (cl a)" "csocket (cl a) \<noteq> INVALID_SOCK"
    using example_disconnecting by blast
  obtain a1 where a1: "run ?E [Main, Main, Main, Main, Main, Main, Main, Main] a = Some a1"
    "prog a1 Receiver_Thread = [Rcv Recv_Wait]" "csocket (cl a1) = INVALID_SOCK"
    using disconnect_to_closed [OF a(3,2,4,5), of ?E] by blast
  with run_reachable [OF a1(1) a(1)] show ?thesis
    by (intro exI [of _ a1]) (simp add: run_simps socket_live_def)
qed

end
