(* ===== verification/Client_Wire.thy ===== *)
theory Client_Wire
  imports Client_Threads "HOL-Library.Sublist"
begin

text \<open>
  What an aircraft puts on the wire, over all its runs: on every connection a beginning of one
  handshake packet followed by telemetry packets of its simulated flight, map requests and
  disconnects, each complete with its length and checksum. The three threads share the socket, so
  this is an invariant of their interleaving.
\<close>

subsection \<open>The language of a connection\<close>

definition flight_payload :: "TelemetryPayload \<Rightarrow> bool" where
  "flight_payload p \<longleftrightarrow> (\<exists>ds. list_all draws_ok ds \<and> p = telemetryPayload (fold tick ds new_flight))"

fun purpose_ok :: "purpose \<Rightarrow> bool" where
  "purpose_ok (For_Telemetry p) = flight_payload p"
| "purpose_ok _ = True"

text \<open>A message is what a packet is sent for, with its sequence number; its bytes are the packet's.\<close>

type_synonym message = "purpose \<times> u32"

fun message_bytes :: "string \<Rightarrow> message \<Rightarrow> byte list" where
  "message_bytes i (For_Telemetry p, n) = telemetry_packet i n p"
| "message_bytes i (For_Map, n) = map_request_packet i n"
| "message_bytes i (For_Disconnect, n) = disconnect_packet i n"

lemma packet_for_bytes: "packet_for p i n = (hdr, pl) \<Longrightarrow> packet_bytes hdr pl = message_bytes i (p, n)"
  by (cases p) (auto simp: Let_def telemetry_packet_def map_request_packet_def disconnect_packet_def)

lemma message_bytes_ne [simp]: "message_bytes i m \<noteq> []"
proof -
  obtain hdr pl where "packet_for (fst m) i (snd m) = (hdr, pl)" by (cases "packet_for (fst m) i (snd m)")
  from packet_for_bytes [OF this, symmetric] show ?thesis by (cases m) (simp add: packet_bytes_def header_bytes_def)
qed

definition session_stream :: "string \<Rightarrow> u32 \<Rightarrow> message list \<Rightarrow> byte list" where
  "session_stream i n ms = handshake_packet i n @ concat (map (message_bytes i) ms)"

definition genuine_messages :: "message list \<Rightarrow> bool" where
  "genuine_messages ms \<longleftrightarrow> list_all (\<lambda>m. purpose_ok (fst m)) ms"

definition genuine :: "byte list \<Rightarrow> bool" where
  "genuine bs \<longleftrightarrow>
     (\<exists>i n ms. validateAircraftId i \<and> genuine_messages ms \<and> prefix bs (session_stream i n ms))"

lemma genuine_Nil [simp]: "genuine []"
  unfolding genuine_def using auto_id_valid
  by (intro exI [of _ "generateAutoAircraftId 0 0"] exI [of _ 0] exI [of _ "[]"]) (simp add: genuine_messages_def)

lemma session_stream_snoc: "session_stream i n (ms @ [m]) = session_stream i n ms @ message_bytes i m"
  by (simp add: session_stream_def)

subsection \<open>Sockets that fail for good\<close>

text \<open>
  Once a stream socket has refused to send it does not recover, and \<open>send\<close> never takes zero bytes of
  a message that has some: the two facts about the kernel taken for granted here.
\<close>

definition refuses :: "send_event list \<Rightarrow> bool" where
  "refuses es \<longleftrightarrow> list_all (\<lambda>e. e = SendError) es"

fun reliable :: "send_event list \<Rightarrow> bool" where
  "reliable [] = True"
| "reliable (Accepts k # es) = (0 < k \<and> reliable es)"
| "reliable (SendError # es) = refuses es"

lemma reliable_refuses: "refuses es \<Longrightarrow> reliable es"
  by (cases es) (auto simp: refuses_def)

lemma sock_send_line:
  assumes "reliable (tx s)" "sock_send s d = (r, s')" "d \<noteq> []"
  shows "reliable (tx s') \<and> r \<noteq> Some 0 \<and> (r = None \<longrightarrow> refuses (tx s')) \<and> (refuses (tx s) \<longrightarrow> r = None)"
proof (cases "tx s")
  case Nil
  with assms show ?thesis by (auto simp: sock_send_def refuses_def)
next
  case (Cons e es)
  with assms show ?thesis by (cases e; cases d) (auto simp: sock_send_def refuses_def reliable_refuses [unfolded refuses_def])
qed

lemma send_loop_line:
  "reliable (tx s) \<Longrightarrow> send_loop sock_send data t s = (ok, s') \<Longrightarrow>
     reliable (tx s') \<and> (\<not> ok \<longrightarrow> refuses (tx s')) \<and> (refuses (tx s) \<and> t < length data \<longrightarrow> \<not> ok)"
proof (induction "length data - t" arbitrary: t s rule: less_induct)
  case less
  show ?case
  proof (cases "t < length data")
    case False
    with less.prems show ?thesis by (simp add: send_loop.simps [of sock_send data t s])
  next
    case True
    let ?d = "take (min (length data - t) max_chunk) (drop t data)"
    have d: "?d \<noteq> []" using True by (simp add: max_chunk_def)
    obtain r s1 where r: "sock_send s ?d = (r, s1)" by (cases "sock_send s ?d")
    note s1 = sock_send_line [OF less.prems(1) r d]
    show ?thesis
    proof (cases r)
      case None
      with less.prems(2) r True have "\<not> ok" "s' = s1" by (simp_all add: send_loop.simps [of sock_send data t s])
      with s1 None show ?thesis by simp
    next
      case (Some k)
      with s1 obtain j where k: "r = Some (Suc j)" by (cases k) auto
      with less.prems(2) r True have rec: "send_loop sock_send data (t + Suc j) s1 = (ok, s')"
        by (simp add: send_loop.simps [of sock_send data t s])
      have "length data - (t + Suc j) < length data - t" using True by simp
      from less.hyps [OF this _ rec] s1 Some show ?thesis by simp
    qed
  qed
qed

lemma net_send_line:
  assumes "net_sendAll n h bs = (ok, n')" "reliable (tx (n h))"
  shows "reliable (tx (n' h)) \<and> (\<exists>b. prefix b bs \<and> outb (n' h) = outb (n h) @ b) \<and>
    (ok \<longrightarrow> outb (n' h) = outb (n h) @ bs) \<and> (\<not> ok \<longrightarrow> refuses (tx (n' h)))"
proof -
  have "reliable (tx (n' h)) \<and> (\<not> ok \<longrightarrow> refuses (tx (n' h)))"
    using assms send_loop_line [of "n h" bs 0] by (auto simp: net_sendAll_def sendAll_def split: prod.splits)
  moreover have "\<exists>b. prefix b bs \<and> outb (n' h) = outb (n h) @ b"
    using net_sendAll_True [of n h bs n'] net_sendAll_False [of n h bs n'] assms(1) take_is_prefix
    by (cases ok) (auto intro: exI [of _ bs])
  ultimately show ?thesis using net_sendAll_True [of n h bs n'] assms(1) by auto
qed

text \<open>A socket that refuses already takes nothing.\<close>

lemma net_send_refused:
  assumes "net_sendAll n h bs = (ok, n')" "refuses (tx (n h))" "bs \<noteq> []"
  shows "\<not> ok \<and> outb (n' h) = outb (n h)"
proof -
  obtain s' where "sock_send (n h) (take (min (length bs) max_chunk) bs) = (None, s') \<and> outb s' = outb (n h)"
  proof (cases "tx (n h)")
    case Nil
    then show ?thesis using that [of "n h"] by (simp add: sock_send_def)
  next
    case (Cons e es)
    then show ?thesis using that [of "(n h)\<lparr>tx := es\<rparr>"] assms(2) by (simp add: sock_send_def refuses_def)
  qed
  then show ?thesis
    using assms(1,3) by (auto simp: net_sendAll_def sendAll_def send_loop.simps [of sock_send bs 0])
qed


subsection \<open>Sending a packet\<close>

text \<open>
  A line for aircraft \<open>i\<close>: the socket has taken a beginning of a session's stream of genuine messages,
  and if it has taken less than whole packets then it refuses to take more.
\<close>

definition line_ok :: "string \<Rightarrow> sock \<Rightarrow> bool" where
  "line_ok i s \<longleftrightarrow>
     reliable (tx s) \<and> validateAircraftId i \<and>
     (\<exists>n ms. genuine_messages ms \<and> prefix (outb s) (session_stream i n ms) \<and>
        (\<not> refuses (tx s) \<longrightarrow> outb s = session_stream i n ms))"

lemma line_genuine: "line_ok i s \<Longrightarrow> genuine (outb s)"
  unfolding line_ok_def genuine_def by blast

text \<open>What a send to the live socket does: nothing once it refuses, otherwise it adds a beginning of the packet.\<close>

definition sends :: "client \<Rightarrow> bool \<Rightarrow> client \<Rightarrow> byte list \<Rightarrow> bool" where
  "sends c ok c' bs \<longleftrightarrow>
     (\<exists>s'. c' = c\<lparr>cnet := (cnet c)(csocket c := s')\<rparr> \<and> reliable (tx s') \<and>
        (\<exists>b. prefix b bs \<and> outb s' = outb (cnet c (csocket c)) @ b) \<and>
        (if ok then outb s' = outb (cnet c (csocket c)) @ bs else refuses (tx s')) \<and>
        (refuses (tx (cnet c (csocket c))) \<and> bs \<noteq> [] \<longrightarrow> \<not> ok \<and> outb s' = outb (cnet c (csocket c))))"

lemma client_sendAll_sends:
  assumes "client_sendAll bs c = (ok, c')" "socket_live c" "reliable (tx (cnet c (csocket c)))"
  shows "sends c ok c' bs"
proof -
  obtain n where n: "net_sendAll (cnet c) (csocket c) bs = (ok, n)" "c' = c\<lparr>cnet := n\<rparr>"
    using assms(1,2) by (auto simp: client_sendAll_def split: prod.splits)
  have "n = (cnet c)(csocket c := n (csocket c))" using net_sendAll_other [OF n(1)] by auto
  with n(2) net_send_line [OF n(1) assms(3)] net_send_refused [OF n(1)] show ?thesis
    unfolding sends_def by (intro exI [of _ "n (csocket c)"]) auto
qed

lemma sends_trans:
  assumes "sends c True c1 bs" "sends c1 ok c2 bs'" "bs \<noteq> []"
  shows "sends c ok c2 (bs @ bs')"
proof -
  obtain s1 where s1: "c1 = c\<lparr>cnet := (cnet c)(csocket c := s1)\<rparr>" "outb s1 = outb (cnet c (csocket c)) @ bs"
    "\<not> refuses (tx (cnet c (csocket c)))"
    using assms(1,3) by (auto simp: sends_def)
  have c1: "csocket c1 = csocket c" "cnet c1 (csocket c) = s1" using s1(1) by simp_all
  obtain s2 b where s2: "c2 = c1\<lparr>cnet := (cnet c1)(csocket c := s2)\<rparr>" "reliable (tx s2)"
    "prefix b bs'" "outb s2 = outb s1 @ b" "if ok then outb s2 = outb s1 @ bs' else refuses (tx s2)"
    using assms(2) unfolding sends_def c1 by blast
  have "c2 = c\<lparr>cnet := (cnet c)(csocket c := s2)\<rparr>" using s1(1) s2(1) by simp
  moreover have "prefix (bs @ b) (bs @ bs') \<and> outb s2 = outb (cnet c (csocket c)) @ bs @ b"
    using s1(2) s2(3,4) by simp
  moreover have "if ok then outb s2 = outb (cnet c (csocket c)) @ bs @ bs' else refuses (tx s2)"
    using s1(2) s2(5) by simp
  ultimately show ?thesis
    unfolding sends_def using s1(3) s2(2) by blast
qed

lemma sendsD:
  assumes "sends c ok c' bs"
  shows "csocket c' = csocket c" "cid c' = cid c" "flightSim c' = flightSim c"
    "h \<noteq> csocket c \<Longrightarrow> cnet c' h = cnet c h" "reliable (tx (cnet c' (csocket c)))"
    "\<exists>b. prefix b bs \<and> outb (cnet c' (csocket c)) = outb (cnet c (csocket c)) @ b"
    "if ok then outb (cnet c' (csocket c)) = outb (cnet c (csocket c)) @ bs else refuses (tx (cnet c' (csocket c)))"
    "refuses (tx (cnet c (csocket c))) \<Longrightarrow> bs \<noteq> [] \<Longrightarrow>
       \<not> ok \<and> outb (cnet c' (csocket c)) = outb (cnet c (csocket c))"
  using assms by (auto simp: sends_def)

lemma sends_longer: "sends c False c' bs \<Longrightarrow> bs \<noteq> [] \<Longrightarrow> sends c False c' (bs @ bs')"
  unfolding sends_def by (auto intro: prefix_prefix)

lemma header_bytes_ne [simp]: "header_bytes hdr \<noteq> []"
  by (simp add: header_bytes_def)

lemma sendPacket_sends:
  assumes "sendPacketLocked hdr pl c = (ok, c')" "socket_live c" "reliable (tx (cnet c (csocket c)))"
  shows "sends c ok c' (packet_bytes hdr pl)"
proof -
  obtain o1 c1 where o1: "client_sendAll (header_bytes hdr) c = (o1, c1)"
    by (cases "client_sendAll (header_bytes hdr) c")
  note s1 = client_sendAll_sends [OF o1 assms(2,3)]
  have sc: "same_connection c c1" using same_connection_sendAll [OF o1] .
  then have l: "socket_live c1" "csocket c1 = csocket c"
    using socket_live_same [OF sc] assms(2) by (simp_all add: same_connection_def)
  consider "\<not> o1" | "o1" "\<not> 0 < payload_size hdr" | "o1" "0 < payload_size hdr" by blast
  then show ?thesis
  proof cases
    case 1
    with assms(1) o1 have "ok = False" "c' = c1" by (simp_all add: sendPacketLocked_def)
    with s1 1 sends_longer [of c c1] show ?thesis by (simp add: packet_bytes_def)
  next
    case 2
    with assms(1) o1 s1 show ?thesis by (simp add: sendPacketLocked_def packet_bytes_def)
  next
    case 3
    with assms(1) o1 have o2: "client_sendAll (take (unat (payload_size hdr)) pl) c1 = (ok, c')"
      by (simp add: sendPacketLocked_def)
    have "reliable (tx (cnet c1 (csocket c1)))" using sendsD(5) [OF s1] l by simp
    note s2 = client_sendAll_sends [OF o2 l(1) this]
    from sends_trans [OF _ s2] s1 3 show ?thesis by (simp add: packet_bytes_def)
  qed
qed

lemma line_send:
  assumes "sends c ok c' (message_bytes i m)" "line_ok i (cnet c (csocket c))" "purpose_ok (fst m)"
  shows "line_ok i (cnet c' (csocket c))"
proof -
  let ?s = "cnet c (csocket c)" and ?s' = "cnet c' (csocket c)"
  obtain n ms where ms: "genuine_messages ms" "prefix (outb ?s) (session_stream i n ms)"
    "\<not> refuses (tx ?s) \<Longrightarrow> outb ?s = session_stream i n ms" and v: "validateAircraftId i"
    using assms(2) by (auto simp: line_ok_def)
  note ne = message_bytes_ne [of i m]
  note r = sendsD(5) [OF assms(1)]
  show ?thesis
  proof (cases "refuses (tx ?s)")
    case True
    with sendsD(7,8) [OF assms(1)] ne have "refuses (tx ?s')" "outb ?s' = outb ?s" by auto
    with r v ms show ?thesis by (auto simp: line_ok_def)
  next
    case False
    have g: "genuine_messages (ms @ [m])" using ms(1) assms(3) by (simp add: genuine_messages_def)
    obtain b where b: "prefix b (message_bytes i m)" "outb ?s' = outb ?s @ b"
      "\<not> refuses (tx ?s') \<Longrightarrow> b = message_bytes i m"
      using sendsD(6,7) [OF assms(1)] by (auto split: if_splits)
    with False ms(3) have "prefix (outb ?s') (session_stream i n (ms @ [m]))"
      "\<not> refuses (tx ?s') \<Longrightarrow> outb ?s' = session_stream i n (ms @ [m])"
      by (simp_all add: session_stream_snoc)
    with r v g show ?thesis unfolding line_ok_def by blast
  qed
qed


subsection \<open>What a client keeps of the wire\<close>

definition history_ok :: "client \<Rightarrow> bool" where
  "history_ok c \<longleftrightarrow>
     (\<forall>h. genuine (outb (cnet c h))) \<and> validateAircraftId (cid c) \<and>
     (\<exists>ds. list_all draws_ok ds \<and> flightSim c = fold tick ds new_flight)"

definition wire_ok :: "client \<Rightarrow> bool" where
  "wire_ok c \<longleftrightarrow> history_ok c \<and> (socket_live c \<longrightarrow> line_ok (cid c) (cnet c (csocket c)))"

text \<open>Most of what the threads do leaves the wire alone, at most losing the socket.\<close>

definition same_wire :: "client \<Rightarrow> client \<Rightarrow> bool" where
  "same_wire c c' \<longleftrightarrow>
     cid c' = cid c \<and> flightSim c' = flightSim c \<and>
     (\<forall>h. outb (cnet c' h) = outb (cnet c h) \<and> tx (cnet c' h) = tx (cnet c h)) \<and>
     (socket_live c' \<longrightarrow> socket_live c \<and> csocket c' = csocket c)"

lemma same_wire_refl [simp]: "same_wire c c"
  by (simp add: same_wire_def)

lemma same_wire_trans: "same_wire c c1 \<Longrightarrow> same_wire c1 c2 \<Longrightarrow> same_wire c c2"
  by (simp add: same_wire_def)

lemma history_same: "same_wire c c' \<Longrightarrow> history_ok c \<Longrightarrow> history_ok c'"
  by (simp add: same_wire_def history_ok_def)

lemma wire_same: "same_wire c c' \<Longrightarrow> wire_ok c \<Longrightarrow> wire_ok c'"
  using history_same [of c c'] by (auto simp: same_wire_def wire_ok_def line_ok_def)

lemma same_wire_small [simp]:
  "same_wire c (setState s m c)" "same_wire c (printLine l c)" "same_wire c (printStatus s c)"
  "same_wire c (client_logPacket E d hdr c)" "same_wire c (client_logFault E cause st n c)"
  "same_wire c (client_logInfo E l c)" "same_wire c (c\<lparr>nextSequence := n\<rparr>)" "same_wire c (c\<lparr>running := b\<rparr>)"
  "same_wire c (c\<lparr>polls := k, polled_dead := d2\<rparr>)"
  by (simp_all add: same_wire_def socket_live_def setState_def printLine_def printStatus_def Let_def
      client_logPacket_def client_logFault_def client_logInfo_def clock_tick_def)

lemma same_wire_close [simp]: "same_wire c (do_close c)" "same_wire c (closeSocketIfOpen c)"
  by (auto simp: same_wire_def do_close_def closeSocketIfOpen_def closeSocket_def socket_live_def)

lemma same_wire_perform: "same_wire c (perform E oper c)"
  by (cases oper) (auto simp: same_wire_def [of c "c\<lparr>fileTransferActive := b\<rparr>" for b]
      same_wire_def [of c "c\<lparr>receiverAlive := b\<rparr>" for b] same_wire_def [of c "c\<lparr>csocket := b\<rparr>" for b]
      same_wire_def [of c "c\<lparr>cnet := b\<rparr>" for b] socket_live_def shutdownSocket_def shutdownSocketSend_def)

lemma same_wire_recvAll: "client_recvAll k c = (r, c') \<Longrightarrow> same_wire c c'"
  using net_recvAll_tx [of "cnet c" "csocket c" k] net_recvAll_outb [of "cnet c" "csocket c" k]
    net_closes(1) [of "cnet c" "csocket c" k]
  by (auto simp: client_recvAll_def same_wire_def socket_live_def split: if_splits prod.splits)

lemma same_wire_recv: "client_recv k c = (r, c') \<Longrightarrow> same_wire c c'"
  by (auto simp: client_recv_def same_wire_def socket_live_def sock_recv_def
      split: if_splits list.splits recv_event.splits)

subsection \<open>Connecting\<close>

text \<open>The handshake on a fresh socket: sent whole or in part, then the answer.\<close>

lemma sends_history:
  assumes "sends c ok c' bs" "history_ok c" "genuine (outb (cnet c' (csocket c)))"
  shows "history_ok c'"
  unfolding history_ok_def
proof (intro conjI allI)
  fix h
  show "genuine (outb (cnet c' h))"
    using assms sendsD(4) [OF assms(1), of h] by (cases "h = csocket c") (simp_all add: history_ok_def)
qed (use assms(2) sendsD(2,3) [OF assms(1)] in \<open>simp_all add: history_ok_def\<close>)

lemma handshake_sent:
  assumes "sends c ok c' (handshake_packet i n)" "history_ok c" "cid c = i" "outb (cnet c (csocket c)) = []"
  shows "history_ok c'" "ok \<Longrightarrow> line_ok i (cnet c' (csocket c'))"
proof -
  have v: "validateAircraftId i" using assms(2,3) by (simp add: history_ok_def)
  have g: "genuine_messages []" "session_stream i n [] = handshake_packet i n"
    by (simp_all add: genuine_messages_def session_stream_def)
  obtain b where b: "prefix b (handshake_packet i n)" "outb (cnet c' (csocket c)) = b"
    using sendsD(6) [OF assms(1)] assms(4) by auto
  with v g have "genuine (outb (cnet c' (csocket c)))" unfolding genuine_def by metis
  from sends_history [OF assms(1,2) this] show "history_ok c'" .
  assume ok
  with sendsD(7) [OF assms(1)] assms(4) have "outb (cnet c' (csocket c)) = session_stream i n []" using g by simp
  then show "line_ok i (cnet c' (csocket c'))"
    using v g(1) sendsD(1,5) [OF assms(1)] unfolding line_ok_def by auto
qed


text \<open>How an attempt leaves the client: connected with a line, or without a socket.\<close>

definition attempt_wire :: "bool option \<times> client \<Rightarrow> bool" where
  "attempt_wire = (\<lambda>(r, c). history_ok c \<and>
     (if r = Some True then line_ok (cid c) (cnet c (csocket c)) else csocket c = INVALID_SOCK))"

lemma attempt_wire_closed:
  "same_wire c c' \<Longrightarrow> history_ok c \<Longrightarrow> csocket c' = INVALID_SOCK \<Longrightarrow> r \<noteq> Some True \<Longrightarrow> attempt_wire (r, c')"
  using history_same [of c c'] by (simp add: attempt_wire_def)

lemma closed_socket [simp]: "csocket (closeSocketIfOpen c) = INVALID_SOCK"
  by (simp add: closeSocketIfOpen_def)

lemma handshake_answer_wire:
  assumes "history_ok c" "line_ok (cid c) (cnet c (csocket c))"
  shows "attempt_wire (handshake_answer E M a response c)"
proof -
  let ?c1 = "closeSocketIfOpen c"
  have h: "history_ok ?c1" using history_same [OF same_wire_close(2) assms(1)] .
  then have "history_ok (?c1\<lparr>cid := generateAutoAircraftId b k\<rparr>)" for b k
    using auto_id_valid by (simp add: history_ok_def)
  then have retry: "history_ok (printLine l (?c1\<lparr>cid := generateAutoAircraftId b k\<rparr>))" for l b k
    by (rule history_same [OF same_wire_small(2)])
  have "history_ok (setState s m c)" for s m using history_same [OF same_wire_small(1) assms(1)] .
  then have "history_ok ((setState s m c)\<lparr>running := True\<rparr>)" for s m by (rule history_same [OF same_wire_small(8)])
  moreover have "history_ok (setState s m ?c1)" for s m using history_same [OF same_wire_small(1) h] .
  ultimately show ?thesis
    using assms(2) retry
    by (simp add: handshake_answer_def attempt_wire_def Let_def printLine_def) (simp add: setState_def)
qed

lemma handshake_exchange_wire:
  assumes "history_ok c" "socket_live c" "outb (cnet c (csocket c)) = []" "reliable (tx (cnet c (csocket c)))"
  shows "attempt_wire (handshake_exchange E M a c)"
proof -
  let ?hs = "makeHeader HANDSHAKE_REQUEST (cid c) (nextSequence c) 0 0"
  let ?c1 = "c\<lparr>nextSequence := nextSequence c + 1\<rparr>"
  obtain ok c2 where s: "sendPacketLocked ?hs [] ?c1 = (ok, c2)" by (cases "sendPacketLocked ?hs [] ?c1")
  have h1: "history_ok ?c1" using history_same [OF same_wire_small(7) assms(1)] .
  have "sends ?c1 ok c2 (handshake_packet (cid c) (nextSequence c))"
    unfolding handshake_packet_def using assms(2,4) by (intro sendPacket_sends [OF s]) (simp_all add: socket_live_def)
  note sent = handshake_sent [OF this h1] and cid2 = sendsD(2) [OF this]
  have h2: "history_ok c2" and l2: "ok \<Longrightarrow> line_ok (cid c) (cnet c2 (csocket c2))" using sent assms(3) by simp_all
  have failed: "attempt_wire (Some False, closeSocketIfOpen (setState C_FAULT m c'))" if "same_wire c2 c'" for m c'
    using attempt_wire_closed [OF same_wire_trans [OF same_wire_trans [OF that same_wire_small(1)] same_wire_close(2)] h2]
    by simp
  show ?thesis
  proof (cases ok)
    case False
    then show ?thesis using failed [OF same_wire_refl] s by (simp add: handshake_exchange_def Let_def)
  next
    case True
    let ?c2 = "client_logPacket E ''TX'' ?hs c2"
    obtain r c3 where r: "client_recvAll header_size ?c2 = (r, c3)" by (cases "client_recvAll header_size ?c2")
    have sw: "same_wire c2 c3" using same_wire_trans [OF same_wire_small(4) same_wire_recvAll [OF r]] .
    have sc: "same_connection c2 c3"
      using same_connection_trans [OF same_connection_small(4) same_connection_recvAll [OF r]] .
    show ?thesis
    proof (cases r)
      case None
      then show ?thesis using failed [OF sw] s r True by (simp add: handshake_exchange_def Let_def)
    next
      case (Some bs)
      let ?c4 = "client_logPacket E ''RX'' (header_of_bytes bs) c3"
      have sw4: "same_wire c2 ?c4" using same_wire_trans [OF sw same_wire_small(4)] .
      have "cid ?c4 = cid c" "csocket ?c4 = csocket c2"
        using sc cid2 by (simp_all add: same_connection_def client_logPacket_def clock_tick_def)
      with l2 [OF True] sw4 have "line_ok (cid ?c4) (cnet ?c4 (csocket ?c4))"
        by (simp add: line_ok_def same_wire_def)
      from handshake_answer_wire [OF history_same [OF sw4 h2] this] s r True Some show ?thesis
        by (simp add: handshake_exchange_def Let_def)
    qed
  qed
qed

text \<open>Sockets that fail for good, and random numbers in their ranges.\<close>

definition steady_host :: "client_host \<Rightarrow> bool" where
  "steady_host E \<longleftrightarrow> (\<forall>i. reliable (tx (ch_traffic E i)) \<and> draws_ok (ch_draws E i))"

lemma connect_attempt_wire:
  assumes "history_ok c" "steady_host E"
  shows "attempt_wire (connect_attempt E M a c)"
proof -
  let ?c1 = "open_socket E (c\<lparr>nextSequence := 1\<rparr>)"
  let ?c2 = "setState C_HANDSHAKE_PENDING ''[PENDING] Connecting to ground control...'' ?c1"
  have h1: "history_ok ?c1"
    using assms(1) by (simp add: history_ok_def open_socket_def fresh_socket_def Let_def)
  note h2 = history_same [OF same_wire_small(1) h1]
  show ?thesis
  proof (cases "csocket ?c1 = INVALID_SOCK")
    case True
    then show ?thesis using h2 by (simp add: connect_attempt_def Let_def attempt_wire_def) (simp add: setState_def)
  next
    case False
    then have i: "socket_live ?c2" "outb (cnet ?c2 (csocket ?c2)) = []" "reliable (tx (cnet ?c2 (csocket ?c2)))"
      using assms(2)
      by (auto simp: socket_live_def setState_def open_socket_def fresh_socket_def Let_def steady_host_def)
    have "attempt_wire (Some False, closeSocketIfOpen (setState C_FAULT m ?c2))" for m
      using attempt_wire_closed [OF same_wire_trans [OF same_wire_small(1) same_wire_close(2)] h2] by simp
    with False handshake_exchange_wire [OF h2 i] show ?thesis
      by (simp add: connect_attempt_def Let_def)
  qed
qed

lemma connect_loop_wire:
  assumes "steady_host E"
  shows "history_ok c \<Longrightarrow> a < M \<or> csocket c = INVALID_SOCK \<Longrightarrow> connect_loop E M a c = (ok, c') \<Longrightarrow> attempt_wire (Some ok, c')"
proof (induction "M - a" arbitrary: a c rule: less_induct)
  case less
  show ?case
  proof (cases "a < M")
    case False
    with less.prems history_same [OF same_wire_small(1) less.prems(1)] show ?thesis
      by (auto simp: connect_loop.simps [of E M a] attempt_wire_def setState_def)
  next
    case True
    obtain r c1 where r: "connect_attempt E M a c = (r, c1)" by (cases "connect_attempt E M a c")
    have w: "attempt_wire (r, c1)" using connect_attempt_wire [OF less.prems(1) assms, of M a] r by simp
    show ?thesis
    proof (cases r)
      case (Some b)
      with True r less.prems(3) w show ?thesis by (simp add: connect_loop.simps [of E M a])
    next
      case None
      with True r less.prems(3) have "connect_loop E M (a + 1) c1 = (ok, c')"
        by (simp add: connect_loop.simps [of E M a])
      with less.hyps [of "a + 1" c1] True None w show ?thesis by (simp add: attempt_wire_def)
    qed
  qed
qed

lemma connect_wire:
  assumes "steady_host E" "history_ok c" "connectSession E c = (ok, c')"
  shows "wire_ok c'"
proof -
  let ?M = "if explicitId c then 1 else kMaxAutoIdAttempts"
  have "0 < ?M" by (simp add: kMaxAutoIdAttempts_def)
  with connect_loop_wire [OF assms(1,2), of 0 ?M ok c'] assms(3) have "attempt_wire (Some ok, c')"
    by (simp add: connectSession_def)
  then show ?thesis by (auto simp: attempt_wire_def wire_ok_def socket_live_def split: if_splits)
qed

subsection \<open>The threads\<close>

text \<open>What a thread has still to send is genuine.\<close>

fun instr_ok :: "instr \<Rightarrow> bool" where
  "instr_ok (Call (Take_Sequence p)) = purpose_ok p"
| "instr_ok (Call (Send_Packet p n)) = purpose_ok p"
| "instr_ok _ = True"

lemma after_send_ok: "list_all instr_ok (after_send p hdr ok)"
  by (cases p; cases ok) simp_all

lemma send_call_wire:
  assumes "client_call E (Send_Packet p n) c = (js, c')" "purpose_ok p" "wire_ok c"
  shows "wire_ok c' \<and> list_all instr_ok js"
proof -
  obtain hdr pl where h: "packet_for p (cid c) n = (hdr, pl)" by (cases "packet_for p (cid c) n")
  obtain ok c1 where s: "sendPacketLocked hdr pl c = (ok, c1)" by (cases "sendPacketLocked hdr pl c")
  have r: "js = after_send p hdr ok" "c' = c1" using assms(1) h s by (simp_all del: packet_for.simps)
  have "wire_ok c1"
  proof (cases "socket_live c")
    case False
    then have "c1 = c" using s by (simp add: sendPacketLocked_def client_sendAll_def)
    with assms(3) show ?thesis by simp
  next
    case True
    with assms(3) have l: "line_ok (cid c) (cnet c (csocket c))" and hist: "history_ok c" by (simp_all add: wire_ok_def)
    then have "reliable (tx (cnet c (csocket c)))" by (simp add: line_ok_def)
    from sendPacket_sends [OF s True this] have "sends c ok c1 (message_bytes (cid c) (p, n))"
      using packet_for_bytes [OF h] by simp
    note sd = this
    have l1: "line_ok (cid c) (cnet c1 (csocket c))" using line_send [OF sd l] assms(2) by simp
    from sends_history [OF sd hist line_genuine [OF l1]] l1 sendsD(1,2) [OF sd] show ?thesis
      by (simp add: wire_ok_def)
  qed
  with r show ?thesis by (simp add: after_send_ok)
qed

lemma call_wire:
  assumes "client_call E k c = (js, c')" "instr_ok (Call k)" "wire_ok c"
  shows "wire_ok c' \<and> list_all instr_ok js"
proof (cases k)
  case (Send_Packet p n)
  with assms send_call_wire [of E p n c js c'] show ?thesis by simp
next
  case Disconnect_Exchange
  with assms wire_same [OF same_wire_small(8) assms(3)] show ?thesis by (auto split: if_splits)
qed (use assms in \<open>auto split: if_splits\<close>)

lemma telemetry_wire:
  assumes "telemetryLoop E p c = (js, c')" "wire_ok c" "steady_host E"
  shows "wire_ok c' \<and> list_all instr_ok js"
proof (cases p)
  case Tel_Tick
  let ?f = "tick (ch_draws E (ticks c)) (flightSim c)"
  obtain ds where ds: "list_all draws_ok ds" "flightSim c = fold tick ds new_flight"
    using assms(2) by (auto simp: wire_ok_def history_ok_def)
  have ds': "list_all draws_ok (ds @ [ch_draws E (ticks c)])" "?f = fold tick (ds @ [ch_draws E (ticks c)]) new_flight"
    using ds assms(3) by (simp_all add: steady_host_def)
  then have ex: "\<exists>ds. list_all draws_ok ds \<and> ?f = fold tick ds new_flight" by metis
  then have "flight_payload (telemetryPayload ?f)" unfolding flight_payload_def by metis
  moreover have "history_ok (c\<lparr>flightSim := ?f, ticks := Suc (ticks c)\<rparr>)"
    using assms(2) ex by (simp add: wire_ok_def history_ok_def)
  then have "wire_ok (c\<lparr>flightSim := ?f, ticks := Suc (ticks c)\<rparr>)"
    using assms(2) by (simp add: wire_ok_def socket_live_def)
  ultimately show ?thesis using assms(1) Tel_Tick by (auto simp: Let_def)
qed (use assms in \<open>auto split: if_splits\<close>)

lemma receiver_wire:
  assumes "receiverLoop E p c = (js, c')" "wire_ok c"
  shows "wire_ok c' \<and> list_all instr_ok js"
proof (cases p)
  case Recv_Wait
  with assms wire_same [OF same_wire_small(9) assms(2)] show ?thesis by (auto split: if_splits)
next
  case Recv_Header
  with assms show ?thesis
    by (auto simp: Let_def split: option.splits prod.splits if_splits dest!: same_wire_recvAll intro: wire_same)
next
  case (Recv_Payload hdr)
  with assms show ?thesis
    by (auto split: option.splits prod.splits if_splits dest!: same_wire_recvAll intro: wire_same)
qed (use assms in \<open>auto simp: receiver_ends_def split: if_splits\<close>)

lemma file_wire:
  assumes "receiveLargeFile E p c = (js, c')" "wire_ok c"
  shows "wire_ok c' \<and> list_all instr_ok js"
proof (cases p)
  case (File_Recv hdr data)
  with assms show ?thesis
    by (auto split: option.splits prod.splits if_splits dest!: same_wire_recv intro: wire_same)
next
  case (File_Save hdr data)
  have "same_wire c ((clock_tick c)\<lparr>saved := xs\<rparr>)" for xs
    by (simp add: same_wire_def clock_tick_def socket_live_def)
  then have "wire_ok ((clock_tick c)\<lparr>saved := xs\<rparr>)" for xs using assms(2) wire_same by blast
  with File_Save assms(1) show ?thesis by (auto simp: Let_def)
qed (use assms in \<open>auto simp: transfer_fault_def split: if_splits\<close>)

lemma menu_wire:
  assumes "menuLoop E m a = (js, a')" "wire_ok (cl a)" "steady_host E" "\<forall>t. list_all instr_ok (prog a t)"
  shows "wire_ok (cl a') \<and> list_all instr_ok js \<and> (\<forall>t. list_all instr_ok (prog a' t))"
proof (cases m)
  case Menu_Connect
  have "history_ok (cl a)" using assms(2) by (simp add: wire_ok_def)
  from connect_wire [OF assms(3) this] Menu_Connect assms show ?thesis
    by (auto split: prod.splits bool.splits)
qed (use assms in \<open>auto simp: session_over_def tryPopInput_def Let_def split: if_splits list.splits\<close>)

definition app_wire :: "app \<Rightarrow> bool" where
  "app_wire a \<longleftrightarrow> wire_ok (cl a) \<and> (\<forall>t. list_all instr_ok (prog a t))"

lemma exec_wire:
  assumes "exec E i a = (js, a')" "app_wire a" "instr_ok i" "steady_host E"
  shows "app_wire a' \<and> list_all instr_ok js"
proof -
  have a: "wire_ok (cl a)" "\<forall>t. list_all instr_ok (prog a t)" using assms(2) by (simp_all add: app_wire_def)
  have lift: "app_wire a' \<and> list_all instr_ok js"
    if lc: "lift_client f a = (js, a')" "\<And>js c. f (cl a) = (js, c) \<Longrightarrow> wire_ok c \<and> list_all instr_ok js" for f
  proof -
    obtain c where "f (cl a) = (js, c)" "a' = a\<lparr>cl := c\<rparr>"
      using lc(1) by (auto simp: lift_client_def split: prod.splits)
    with lc(2) a(2) show ?thesis by (simp add: app_wire_def)
  qed
  show ?thesis
  proof (cases i)
    case (Do oper)
    with assms(1) a wire_same [OF same_wire_perform a(1)] show ?thesis by (auto simp: app_wire_def)
  next
    case (Call k)
    with assms(1,3) call_wire [OF _ _ a(1), of E k] show ?thesis by (intro lift) auto
  next
    case (Tel p)
    with assms(1) telemetry_wire [OF _ a(1) assms(4)] show ?thesis by (intro lift) auto
  next
    case (Rcv p)
    with assms(1) receiver_wire [OF _ a(1)] show ?thesis by (intro lift) auto
  next
    case (File p)
    with assms(1) file_wire [OF _ a(1)] show ?thesis by (intro lift) auto
  next
    case (Menu m)
    with assms(1) menu_wire [OF _ a(1) assms(4) a(2)] show ?thesis by (auto simp: app_wire_def)
  qed
qed

lemma app_step_wire:
  assumes "app_wire a" "steady_host E"
  shows "app_wire (app_step E t a)"
proof (cases "prog a t")
  case Nil
  with assms(1) show ?thesis by (simp add: app_step_def)
next
  case (Cons i "is")
  obtain js a' where e: "exec E i a = (js, a')" by (cases "exec E i a")
  have p: "list_all instr_ok (i # is)" using assms(1) Cons by (metis app_wire_def)
  with exec_wire [OF e assms(1) _ assms(2)] Cons e show ?thesis
    by (simp add: app_step_def app_wire_def)
qed

lemma app_wire_reachable:
  "client_reachable E a0 a \<Longrightarrow> app_wire a0 \<Longrightarrow> steady_host E \<Longrightarrow> app_wire a"
proof (induction rule: client_reachable.induct)
  case (step a a')
  then have "app_wire a" by simp
  with step(2) step(5) show ?case
    by (cases rule: client_step.cases) (auto simp: app_step_wire, simp add: app_wire_def)
qed simp

lemma app_wire_start:
  assumes "validateAircraftId (opt_aircraftId options)" "\<And>h. outb (n h) = []"
  shows "app_wire (start_app options lg n)"
proof -
  have "\<exists>ds. list_all draws_ok ds \<and> new_flight = fold tick ds new_flight" by (intro exI [of _ "[]"]) simp
  with assms show ?thesis
    by (simp add: app_wire_def wire_ok_def history_ok_def start_app_def new_client_def socket_live_def)
qed

text \<open>
  C7. Whatever the user types, the server and the network do, and however the three threads interleave:
  what the client has written to a connection is a beginning of one handshake packet with a valid
  id, followed by whole packets (telemetry of its simulated flight with their checksum, map requests
  and disconnects), never a packet torn by another thread, nor anything after a failed send.
\<close>

theorem client_writes_genuine:
  assumes "client_reachable E (start_app options lg n) a" "steady_host E"
    and "validateAircraftId (opt_aircraftId options)" "\<And>h. outb (n h) = []"
  shows "genuine (outb (cnet (cl a) h))"
proof -
  have "app_wire a" using app_wire_reachable [OF assms(1) app_wire_start [OF assms(3,4)] assms(2)] .
  then show ?thesis by (simp add: app_wire_def wire_ok_def history_ok_def)
qed

end
