(* ===== verification/Fleet_Handlers.thy ===== *)
theory Fleet_Handlers
  imports Client_Wire Delivery
begin

text \<open>
  The handlers of the ground server on connections that come from aircraft clients: on a stream of
  genuine packets, cut off anywhere, no handler raises a protocol fault, the telemetry a session
  holds is that of a simulated flight, and the stream that remains is genuine again. The locale
  \<open>calm_handler\<close> extends the contract of the handlers by this; \<open>dispatch\<close> carries it to the map.
\<close>

subsection \<open>Connections and faults\<close>

text \<open>
  The faults of a lost, slow or refusing peer, and of the server's own disk; and those that accuse
  the peer of breaking the protocol. Together they are all the causes of \<open>ground_server.cpp\<close>.
\<close>

definition connection_causes :: "string list" where
  "connection_causes =
     [''HandshakeReceiveFailure'', ''ReceiveFailure'', ''PayloadReceiveFailure'', ''HandshakeAckSendFailure'',
      ''DisconnectSendFailure'', ''SocketTimeout'', ''WeatherMapMissing'', ''WeatherMapReadFailure'',
      ''FileHeaderSendFailure'', ''FileChunkSendFailure'']"

definition protocol_causes :: "string list" where
  "protocol_causes =
     [''ChecksumMismatch'', ''TelemetrySizeMismatch'', ''IllegalTelemetryState'', ''UnexpectedPacketType'',
      ''LargeFileRequestPayloadUnexpected'', ''IllegalFileTransferTransition'']"

text \<open>The cause named on a line of the black box: what follows the stamp, the tag and \<open>Cause=\<close>, up to a space.\<close>

definition fault_cause :: "string \<Rightarrow> string" where
  "fault_cause l = takeWhile (\<lambda>c. c \<noteq> CHR '' '') (drop 16 (dropWhile (\<lambda>c. c \<noteq> CHR '']'') l))"

lemma stamp_no_bracket: "CHR '']'' \<notin> set (timestampUtc ms)"
proof -
  have d: "CHR '']'' \<notin> set (dec k)" "CHR '']'' \<notin> set (two k)" for k
    using dec_digits [of "CHR '']''" k] pad0_digits [of "CHR '']''" 2 k] by (auto simp: is_digit_def two_def less_eq_char_def)
  then show ?thesis by (simp add: timestampUtc_def fmt_log_def fmt_hms_def)
qed

lemma fault_cause_line:
  assumes "CHR '' '' \<notin> set c"
  shows "fault_cause (fault_line (timestampUtc ms) c st n) = c"
proof -
  let ?rest = "''] [FAULT] Cause='' @ c @ '' State='' @ st @ '' Seq='' @ pad0 4 (dec (unat n))"
  have "fault_line (timestampUtc ms) c st n = (CHR ''['' # timestampUtc ms) @ ?rest" by (simp add: fault_line_def)
  then have "dropWhile (\<lambda>c. c \<noteq> CHR '']'') (fault_line (timestampUtc ms) c st n) = ?rest"
    using stamp_no_bracket [of ms] by (auto simp: dropWhile_append)
  with assms show ?thesis by (auto simp: fault_cause_def takeWhile_append)
qed

definition connection_fault :: "string \<Rightarrow> bool" where
  "connection_fault l \<longleftrightarrow>
     (\<exists>ms cause st n. cause \<in> set connection_causes \<and> l = fault_line (timestampUtc ms) cause st n)"

lemma connection_fault_cause:
  assumes "connection_fault l"
  shows "fault_cause l \<in> set connection_causes" "fault_cause l \<notin> set protocol_causes"
proof -
  obtain ms cause st n where c: "cause \<in> set connection_causes" "l = fault_line (timestampUtc ms) cause st n"
    using assms by (auto simp: connection_fault_def)
  have "CHR '' '' \<notin> set cause" using c(1) by (auto simp: connection_causes_def)
  with c have "fault_cause l = cause" by (simp add: fault_cause_line)
  with c(1) show "fault_cause l \<in> set connection_causes" "fault_cause l \<notin> set protocol_causes"
    by (auto simp: connection_causes_def protocol_causes_def)
qed

definition black_box :: "world \<Rightarrow> string list" where
  "black_box w = (case blackBoxLog (logger w) of None \<Rightarrow> [] | Some ls \<Rightarrow> ls)"

definition calm :: "world \<Rightarrow> bool" where
  "calm w \<longleftrightarrow> list_all connection_fault (black_box w)"

definition telemetry_true :: "ClientSession \<Rightarrow> bool" where
  "telemetry_true s \<longleftrightarrow> (telemetryValid s \<longrightarrow> flight_payload (latestTelemetry s))"

text \<open>What a session's socket has still to deliver.\<close>

definition stream_ok :: "ClientSession \<Rightarrow> byte list \<Rightarrow> bool" where
  "stream_ok s bs \<longleftrightarrow>
     (if session_state s = HANDSHAKE_PENDING then genuine bs
      else (\<exists>i ms. genuine_messages ms \<and> prefix bs (concat (map (message_bytes i) ms))))"

definition connection_ok :: "ClientSession \<Rightarrow> sock \<Rightarrow> bool" where
  "connection_ok s k \<longleftrightarrow> telemetry_true s \<and> stream_ok s (sock_readable k)"

text \<open>What a handler leaves: of the log, of the session, of the stream if the session lives on.\<close>

definition calm_result :: "ClientSession \<Rightarrow> world \<Rightarrow> bool \<times> ClientSession \<times> world \<Rightarrow> bool" where
  "calm_result s w r \<longleftrightarrow>
     (case r of (alive, s', w') \<Rightarrow>
        (calm w \<longrightarrow> calm w') \<and> telemetry_true s' \<and>
        (alive \<longrightarrow> stream_ok s' (sock_readable (wnet w' (socketHandle s)))))"

lemma calm_logger: "blackBoxLog (logger w') = blackBoxLog (logger w) \<Longrightarrow> calm w' = calm w"
  by (simp add: calm_def black_box_def)

lemma calm_frame [simp]:
  "calm (steady_tick w) = calm w" "calm (system_tick w) = calm w" "calm (log_packet E d hdr w) = calm w"
  "calm (log_info E m w) = calm w" "calm (appendDashboardLog w e) = calm w" "calm (dash_packet E d hdr w) = calm w"
  "calm (updateDashboardAircraft E s a w) = calm w" "calm (w\<lparr>wnet := n\<rparr>) = calm w" "calm (w\<lparr>shared := db\<rparr>) = calm w"
  by (auto intro!: calm_logger simp: log_packet_def log_info_def)

lemma calm_result_later:
  "calm_result s1 w1 r \<Longrightarrow> socketHandle s1 = socketHandle s \<Longrightarrow> (calm w \<longrightarrow> calm w1) \<Longrightarrow> calm_result s w r"
  by (auto simp: calm_result_def)

text \<open>A fault of the connection is calm.\<close>

lemma handleFault_telemetry [simp]: "telemetry_true (fst (handleFault E c s w)) = telemetry_true s"
  by (simp add: handleFault_def Let_def telemetry_true_def)

lemma calm_fault:
  assumes "c \<in> set connection_causes" "telemetry_true s1" "calm w \<longrightarrow> calm w1"
  shows "calm_result s w (fail_with E c s1 w1)"
proof -
  have "calm (snd (handleFault E c s1 w1))" if "calm w1"
  proof -
    have "connection_fault (fault_line (timestampUtc (system_now E w1)) c (stateToString (session_state s1))
        (lastClientSequenceNumber s1))"
      using assms(1) unfolding connection_fault_def by blast
    with that show ?thesis by (cases "blackBoxLog (logger w1)") (simp_all add: calm_def black_box_def handleFault_logger)
  qed
  then show ?thesis
    using assms(2,3) handleFault_telemetry [of E c s1 w1]
    by (cases "handleFault E c s1 w1") (auto simp: calm_result_def fail_with_def)
qed

subsection \<open>Streams that end anywhere\<close>

lemma prefix_appendE:
  assumes "prefix xs (a @ b)" "length a \<le> length xs"
  obtains r where "xs = a @ r" "prefix r b"
  using assms by (metis prefix_length_prefix prefix_def same_prefix_prefix append_prefixD)

lemma recv_bytes_short:
  assumes "length (sock_readable (wnet w h)) < k"
  obtains w' where "recv_bytes h k w = (None, w')" "calm w' = calm w"
proof -
  obtain r n where n: "net_recvAll (wnet w) h k = (r, n)" by (cases "net_recvAll (wnet w) h k")
  have "r = None" using net_recvAll_value [of "wnet w" h k] n assms by simp
  with n that [of "w\<lparr>wnet := n\<rparr>"] show ?thesis by (simp add: recv_bytes_def)
qed

lemma read_short:
  assumes "length (incoming w s) < header_size" "telemetry_true s"
  shows "calm_result s w (processReadableSession E m s w)"
proof -
  obtain w1 where w1: "recv_bytes (socketHandle s) header_size w = (None, w1)" "calm w1 = calm w"
    using recv_bytes_short [OF assms(1)] .
  have "processReadableSession E m s w = fail_with E (if session_state s = HANDSHAKE_PENDING
      then ''HandshakeReceiveFailure'' else ''ReceiveFailure'') s w1"
    by (simp add: processReadableSession_def w1(1))
  also have "calm_result s w \<dots>"
    using w1(2) assms(2) by (intro calm_fault) (simp_all add: connection_causes_def)
  finally show ?thesis .
qed

text \<open>A header whose payload is cut off.\<close>

lemma payload_cut:
  assumes "wf_header hdr" "incoming w s = header_bytes hdr @ rest" "length rest < unat (payload_size hdr)"
    and "session_state s \<noteq> HANDSHAKE_PENDING" "telemetry_true s"
  shows "calm_result s w (processReadableSession E m s w)"
proof -
  obtain w1 where w1: "recv_bytes (socketHandle s) header_size w = (Some (header_bytes hdr), w1)"
    "incoming w1 s = rest" "logger w1 = logger w"
    using header_read [OF assms(1,2)] by metis
  let ?w4 = "steady_tick (after_header E hdr w1)"
  have c4: "calm ?w4 = calm w" using w1(3) by (intro calm_logger) simp
  have "length (sock_readable (wnet ?w4 (socketHandle s))) < unat (payload_size hdr)" using w1(2) assms(3) by simp
  from recv_bytes_short [OF this] obtain w5 where
    w5: "recv_bytes (socketHandle s) (unat (payload_size hdr)) ?w4 = (None, w5)" "calm w5 = calm ?w4" by blast
  have nz: "payload_size hdr \<noteq> 0" using assms(3) by auto
  let ?s1 = "markPacketReceived s (sequence_number hdr) (steady_now E w1)"
  have "processReadableSession E m s w = fail_with E ''PayloadReceiveFailure'' ?s1 w5"
    using w1(1) w5(1) nz assms(4) header_of_header_bytes [OF assms(1)]
    by (simp add: processReadableSession_def Let_def receivePacketPayload_def after_header_def [symmetric])
  also have "calm_result s w \<dots>"
    using assms(5) w5(2) c4 by (intro calm_fault) (simp_all add: connection_causes_def telemetry_true_def)
  finally show ?thesis .
qed


subsection \<open>Weather maps\<close>

lemma send_bytes_readable: "send_bytes h bs w = (ok, w') \<Longrightarrow> sock_readable (wnet w' h') = sock_readable (wnet w h')"
  by (auto simp: send_bytes_def net_sendAll_readable split: prod.splits)

lemma send_chunks_readable:
  "send_chunks h data len off w = (ok, w') \<Longrightarrow> sock_readable (wnet w' h') = sock_readable (wnet w h')"
proof (induction h data len off w rule: send_chunks.induct)
  case (1 h data len off w)
  obtain b w1 where s: "send_bytes h (take (min kChunkSize (len - off)) (drop off data)) w = (b, w1)"
    by (cases "send_bytes h (take (min kChunkSize (len - off)) (drop off data)) w")
  note rd = send_bytes_readable [OF s]
  consider "\<not> off < len" | "off < len" "\<not> b" | "off < len" "b" by blast
  then show ?case
  proof cases
    case 3
    with s "1.prems" have "send_chunks h data len (off + kChunkSize) w1 = (ok, w')"
      by (simp add: send_chunks.simps [of h data len off])
    with "1.IH" [OF 3(1) s [symmetric]] 3 rd show ?thesis by simp
  qed (use "1.prems" s rd in \<open>auto simp: send_chunks.simps [of h data len off]\<close>)
qed

lemma transmit_map_readable:
  assumes "transmit_map h hdr data w = (r, w')"
  shows "sock_readable (wnet w' h') = sock_readable (wnet w h')"
    "r = Some c \<Longrightarrow> c \<in> {''FileHeaderSendFailure'', ''FileChunkSendFailure''}"
  using assms
  by (auto simp: transmit_map_def send_bytes_readable send_chunks_readable split: prod.splits bool.splits)

lemma load_map_cause:
  "load_map E s n w = (Inl c, w') \<Longrightarrow> c \<in> {''WeatherMapMissing'', ''WeatherMapReadFailure''}"
  by (auto simp: load_map_def Let_def split: option.splits if_splits)

lemma telemetry_true_small [simp]:
  "telemetry_true (snd (session_transition s st)) = telemetry_true s" "telemetry_true (touch s t) = telemetry_true s"
  "telemetry_true (markPacketReceived s n t) = telemetry_true s" "telemetry_true (setAircraftId s i) = telemetry_true s"
  "telemetry_true (snd (consumeServerSequence s)) = telemetry_true s"
  by (simp_all add: telemetry_true_def consumeServerSequence_def setAircraftId_def)

lemma transfer_done_calm:
  assumes "transfer_done E s path hdr w = (s', w')"
  shows "calm w' = calm w" "telemetry_true s' = telemetry_true s"
  using assms by (auto simp: transfer_done_def Let_def)

lemma sendWeatherMap_calm:
  assumes "session_state s \<in> active_states" "telemetry_true s"
    and str: "\<exists>i ms. genuine_messages ms \<and> prefix (incoming w s) (concat (map (message_bytes i) ms))"
  shows "calm_result s w (sendWeatherMap E s w)"
proof -
  obtain b s1 where st: "transfer_start s = (b, s1)" by (cases "transfer_start s")
  have b: "b" using transfer_start_eqD(5) [OF st] assms(1) by simp
  note s1 = transfer_start_eqD [OF st]
  have t1: "telemetry_true s1"
    using st assms(2) telemetry_true_small(1)
    unfolding transfer_start_def by (metis snd_conv)
  let ?w1 = "updateDashboardAircraft E s1 [] w"
  obtain r w2 where ld: "load_map E s1 (serverSequence s1) ?w1 = (r, w2)"
    by (cases "load_map E s1 (serverSequence s1) ?w1")
  note l = load_map_eqD [OF ld]
  have c2: "calm w2 = calm w" using l(3) by (intro calm_logger) simp
  show ?thesis
  proof (cases r)
    case (Inl c)
    then have "sendWeatherMap E s w = fail_with E c s1 w2"
      using st b ld by (simp add: sendWeatherMap_def Let_def)
    also have "calm_result s w \<dots>"
      using load_map_cause [OF ld [unfolded Inl]] c2 t1 by (intro calm_fault) (auto simp: connection_causes_def)
    finally show ?thesis .
  next
    case (Inr pd)
    obtain path data where pd: "pd = (path, data)" by (cases pd)
    let ?s2 = "snd (consumeServerSequence s1)"
    let ?hdr = "map_header s1 (serverSequence s1) data"
    obtain t w3 where tr: "transmit_map (socketHandle ?s2) ?hdr data w2 = (t, w3)"
      by (cases "transmit_map (socketHandle ?s2) ?hdr data w2")
    have c3: "calm w3 = calm w" using c2 transmit_map_eqD(2) [OF tr] calm_logger [of w3 w2] by simp
    have r3: "incoming w3 s = incoming w s" using transmit_map_readable(1) [OF tr] l(2) by simp
    have run: "sendWeatherMap E s w =
        (case t of Some c \<Rightarrow> fail_with E c ?s2 w3 | None \<Rightarrow> (True, transfer_done E ?s2 path ?hdr w3))"
      using st b ld Inr pd tr by (simp add: sendWeatherMap_def Let_def)
    show ?thesis
    proof (cases t)
      case (Some c)
      have "calm_result s w (fail_with E c ?s2 w3)"
        using transmit_map_readable(2) [OF tr Some] c3 t1 by (intro calm_fault) (auto simp: connection_causes_def)
      with run Some show ?thesis by simp
    next
      case None
      obtain s' w' where d: "transfer_done E ?s2 path ?hdr w3 = (s', w')"
        by (cases "transfer_done E ?s2 path ?hdr w3")
      with run None have ok: "sendWeatherMap E s w = (True, s', w')" by simp
      have "session_state s' = CONNECTED" using sendWeatherMap_frame [OF ok] by simp
      with str have "stream_ok s' (incoming w s)" by (simp add: stream_ok_def)
      with ok transfer_done_calm [OF d] transfer_done_eqD(5) [OF d] c3 t1 r3 show ?thesis
        by (simp add: calm_result_def)
    qed
  qed
qed

subsection \<open>One genuine packet\<close>

text \<open>The header and the payload of a message.\<close>

lemma message_parts:
  assumes "packet_for (fst m) i (snd m) = (hdr, pl)"
  shows "message_bytes i m = header_bytes hdr @ pl" "wf_header hdr" "length pl = unat (payload_size hdr)"
    "computeChecksum pl (payload_size hdr) = checksum hdr"
    "process_packet E hdr pl s w =
       (case fst m of
          For_Telemetry p \<Rightarrow> process_telemetry E hdr (telemetry_bytes p) s w
        | For_Map \<Rightarrow> sendWeatherMap E s w
        | For_Disconnect \<Rightarrow> process_disconnect E s w)"
    "fst m = For_Telemetry p \<Longrightarrow> unat (payload_size hdr) = telemetry_size"
proof -
  have "0 < (word_of_nat telemetry_size :: u32)" by (simp add: telemetry_size_def)
  then have "packet_bytes hdr pl = header_bytes hdr @ pl"
    using assms by (cases "fst m") (auto simp: packet_bytes_def Let_def)
  with packet_for_bytes [OF assms] show "message_bytes i m = header_bytes hdr @ pl" by simp
  show "wf_header hdr" "length pl = unat (payload_size hdr)" "computeChecksum pl (payload_size hdr) = checksum hdr"
    "process_packet E hdr pl s w =
       (case fst m of
          For_Telemetry p \<Rightarrow> process_telemetry E hdr (telemetry_bytes p) s w
        | For_Map \<Rightarrow> sendWeatherMap E s w
        | For_Disconnect \<Rightarrow> process_disconnect E s w)"
    "fst m = For_Telemetry p \<Longrightarrow> unat (payload_size hdr) = telemetry_size"
    using assms by (cases "fst m"; auto simp: wf_type_def Let_def process_packet_def)+
qed


lemma process_message_calm:
  assumes "packet_for (fst m) i (snd m) = (hdr, pl)" "purpose_ok (fst m)"
    and "session_ok s" "session_state s \<noteq> HANDSHAKE_PENDING" "telemetry_true s" "stream_ok s (incoming w s)"
  shows "calm_result s w (process_packet E hdr pl s w)"
proof -
  have st: "session_state s \<in> active_states" and str:
    "\<exists>i ms. genuine_messages ms \<and> prefix (incoming w s) (concat (map (message_bytes i) ms))"
    using assms(3,4,6) by (auto simp: session_ok_def isVerifiedSessionState_def active_states_def stream_ok_def)
  note pp = message_parts(5) [OF assms(1), of E s w]
  show ?thesis
  proof (cases "fst m")
    case (For_Telemetry p)
    define s1 where "s1 = (if session_state s = CONNECTED then snd (session_transition s TELEMETRY) else s)"
    define s2 where "s2 = updateTelemetry s1 p (steady_now E w)"
    have st1: "session_state s1 = TELEMETRY"
      by (rule session_ok_cases [OF assms(3)]) (simp_all add: s1_def machine_simps assms(4))
    have "process_packet E hdr pl s w = (True, s2, updateDashboardAircraft E s2 [] (steady_tick w))"
      using process_telemetry_accept [OF message_parts(6) [OF assms(1) For_Telemetry] s1_def st1, of E "telemetry_bytes p" w]
        pp For_Telemetry by (simp add: s2_def Let_def)
    moreover have "telemetry_true s2" using assms(2) For_Telemetry by (simp add: s2_def telemetry_true_def)
    moreover have "stream_ok s2 (incoming w s)" using str st1 by (simp add: stream_ok_def s2_def)
    ultimately show ?thesis by (simp add: calm_result_def)
  next
    case For_Map
    with sendWeatherMap_calm [OF st assms(5) str] pp show ?thesis by simp
  next
    case For_Disconnect
    with pp assms(5) show ?thesis by (simp add: process_disconnect_def Let_def calm_result_def)
  qed
qed

lemma read_message_calm:
  assumes "session_ok s" "session_state s \<noteq> HANDSHAKE_PENDING" "dashboard_ok (shared w)"
    and "telemetry_true s" "stream_ok s (incoming w s)"
  shows "calm_result s w (processReadableSession E m s w)"
proof (cases "length (incoming w s) < header_size")
  case True
  with assms(4) show ?thesis by (intro read_short)
next
  case False
  obtain i ms where ms: "genuine_messages ms" "prefix (incoming w s) (concat (map (message_bytes i) ms))"
    using assms(2,5) by (auto simp: stream_ok_def)
  then obtain msg ms' where m: "ms = msg # ms'" using False by (cases ms) (auto simp: header_size_def)
  obtain hdr pl where hp: "packet_for (fst msg) i (snd msg) = (hdr, pl)" by (cases "packet_for (fst msg) i (snd msg)")
  note p = message_parts [OF hp]
  have "prefix (incoming w s) (header_bytes hdr @ pl @ concat (map (message_bytes i) ms'))" using ms(2) m p(1) by simp
  moreover have "length (header_bytes hdr) \<le> length (incoming w s)" using False length_header_bytes [OF p(2)] by simp
  ultimately obtain rest where rest: "incoming w s = header_bytes hdr @ rest"
    "prefix rest (pl @ concat (map (message_bytes i) ms'))" by (rule prefix_appendE)
  show ?thesis
  proof (cases "length rest < length pl")
    case True
    with payload_cut [OF p(2) rest(1) _ assms(2,4)] p(3) show ?thesis by simp
  next
    case no: False
    then obtain rest' where rest': "rest = pl @ rest'" "prefix rest' (concat (map (message_bytes i) ms'))"
      using prefix_appendE [OF rest(2)] by auto
    have inp: "incoming w s = header_bytes hdr @ pl @ rest'" using rest(1) rest'(1) by simp
    let ?s1 = "markPacketReceived s (sequence_number hdr) (steady_now E w)"
    obtain w' where w': "processReadableSession E m s w = process_packet E hdr pl ?s1 w'" "incoming w' s = rest'"
      "logger w' = logPacket (system_now E w) (logger w) ''RX'' hdr"
      using packet_dispatched [OF p(2,3) inp assms(2,3), of E m] by metis
    have s1: "session_ok ?s1" "session_state ?s1 \<noteq> HANDSHAKE_PENDING" "telemetry_true ?s1"
      using assms(1,2,4) by (simp_all add: session_ok_def)
    have "stream_ok ?s1 (incoming w' ?s1)"
      using s1(2) ms(1) m rest'(2) w'(2) by (auto simp: stream_ok_def genuine_messages_def)
    moreover have "purpose_ok (fst msg)" using ms(1) m by (simp add: genuine_messages_def)
    ultimately have "calm_result ?s1 w' (process_packet E hdr pl ?s1 w')"
      using process_message_calm [OF hp _ s1] by simp
    moreover have "calm w' = calm w" using w'(3) by (intro calm_logger) simp
    ultimately show ?thesis using calm_result_later [of ?s1 w'] w'(1) by simp
  qed
qed

subsection \<open>The handshake\<close>

lemma sendPacket_calm: "sendPacket h hdr p w = (ok, w') \<Longrightarrow> calm w' = calm w"
  using sendPacket_frame(2) [of h hdr p w] by (intro calm_logger) simp

lemma sendPacket_readable:
  "sendPacket h hdr p w = (ok, w') \<Longrightarrow> sock_readable (wnet w' h') = sock_readable (wnet w h')"
  by (auto simp: sendPacket_def send_bytes_readable split: prod.splits bool.splits if_splits)

lemma handshake_calm:
  assumes "session_state s = HANDSHAKE_PENDING" "telemetry_true s"
    and "\<exists>i ms. genuine_messages ms \<and> prefix (incoming w s) (concat (map (message_bytes i) ms))"
  shows "calm_result s w (processHandshake E m hdr s w)"
proof -
  let ?i = "extractAircraftId (aircraft_id hdr)"
  let ?used = "aircraftIdInUse (activeSessionSummaries m) (socketHandle s) ?i"
  show ?thesis
  proof (cases "isValidHandshakeRequest hdr ?i ?used")
    case False
    let ?f = "makeHeader HANDSHAKE_FAIL ?i (sequence_number hdr) 0 0"
    obtain b w1 where "sendPacket (socketHandle s) ?f [] w = (b, w1)" by (cases "sendPacket (socketHandle s) ?f [] w")
    with False assms(2) sendPacket_calm [OF this] show ?thesis
      by (simp add: processHandshake_def Let_def calm_result_def)
  next
    case True
    define s2 where "s2 = markPacketReceived (setAircraftId s ?i) (sequence_number hdr) (steady_now E w)"
    have s2: "socketHandle s2 = socketHandle s" "session_state s2 = HANDSHAKE_PENDING" "telemetry_true s2"
      using assms(1,2) by (simp_all add: s2_def)
    let ?a = "makeHeader HANDSHAKE_ACK ?i (sequence_number hdr) 0 0"
    obtain b w2 where snd: "sendPacket (socketHandle s) ?a [] (steady_tick w) = (b, w2)"
      by (cases "sendPacket (socketHandle s) ?a [] (steady_tick w)")
    have c2: "calm w2 = calm w" using sendPacket_calm [OF snd] by simp
    show ?thesis
    proof (cases b)
      case False
      have "processHandshake E m hdr s w = fail_with E ''HandshakeAckSendFailure'' s2 w2"
        using True False snd s2(1) by (simp add: processHandshake_def Let_def s2_def)
      also have "calm_result s w \<dots>"
        using c2 s2(3) by (intro calm_fault) (simp_all add: connection_causes_def)
      finally show ?thesis .
    next
      case b: True
      define w4 where "w4 = dash_packet E ''TX'' ?a (log_packet E ''TX'' ?a w2)"
      define s4 where "s4 = snd (session_transition (touch s2 (steady_now E w4)) CONNECTED)"
      have "processHandshake E m hdr s w = (True, s4, updateDashboardAircraft E s4 [] (steady_tick w4))"
        using True b snd s2(1) by (simp add: processHandshake_def Let_def s2_def s4_def w4_def)
      moreover have "session_state s4 = CONNECTED" "telemetry_true s4"
        using s2 by (simp_all add: s4_def machine_simps)
      moreover have "incoming w4 s = incoming w s" using sendPacket_readable [OF snd] by (simp add: w4_def)
      ultimately show ?thesis
        using assms(3) c2 by (simp add: calm_result_def stream_ok_def w4_def)
    qed
  qed
qed

lemma read_handshake_calm:
  assumes "session_state s = HANDSHAKE_PENDING" "dashboard_ok (shared w)"
    and "telemetry_true s" "stream_ok s (incoming w s)"
  shows "calm_result s w (processReadableSession E m s w)"
proof (cases "length (incoming w s) < header_size")
  case True
  with assms(3) show ?thesis by (intro read_short)
next
  case False
  obtain i n ms where ms: "genuine_messages ms" "prefix (incoming w s) (session_stream i n ms)"
    using assms(1,4) by (auto simp: stream_ok_def genuine_def)
  let ?hdr = "makeHeader HANDSHAKE_REQUEST i n 0 0"
  have wf: "wf_header ?hdr" by (simp add: wf_type_def)
  have "prefix (incoming w s) (header_bytes ?hdr @ concat (map (message_bytes i) ms))"
    using ms(2) by (simp add: session_stream_def handshake_packet_def packet_bytes_def)
  moreover have "length (header_bytes ?hdr) \<le> length (incoming w s)" using False length_header_bytes [OF wf] by simp
  ultimately obtain rest where rest: "incoming w s = header_bytes ?hdr @ rest"
    "prefix rest (concat (map (message_bytes i) ms))" by (rule prefix_appendE)
  obtain w1 where w1: "recv_bytes (socketHandle s) header_size w = (Some (header_bytes ?hdr), w1)"
    "incoming w1 s = rest" "logger w1 = logger w"
    using header_read [OF wf rest(1)] by metis
  let ?w3 = "after_header E ?hdr w1"
  have "processReadableSession E m s w = processHandshake E m ?hdr s ?w3"
    using w1(1) assms(1) header_of_header_bytes [OF wf]
    by (simp add: processReadableSession_def Let_def after_header_def)
  moreover have "calm_result s ?w3 (processHandshake E m ?hdr s ?w3)"
    using ms(1) rest(2) w1(2) by (intro handshake_calm [OF assms(1,3)]) auto
  moreover have "calm ?w3 = calm w" using w1(3) by (intro calm_logger) simp
  ultimately show ?thesis using calm_result_later [of s ?w3] by simp
qed

subsection \<open>The contract and its clients\<close>

locale calm_handler = session_handler +
  fixes pre :: "ClientSession \<Rightarrow> bool"
  assumes calm_run:
    "sessions_ok m \<Longrightarrow> map_find m (socketHandle s) = Some s \<Longrightarrow> dashboard_ok (shared w) \<Longrightarrow> pre s \<Longrightarrow>
       telemetry_true s \<Longrightarrow> stream_ok s (incoming w s) \<Longrightarrow> calm_result s w (op m s w)"

lemma operator_disconnect_calm:
  assumes "telemetry_true s"
  shows "calm_result s w (False, operator_disconnect E s w)"
proof -
  define s1 where "s1 = (if session_state s = TELEMETRY then snd (session_transition s CONNECTED) else s)"
  define s2 where "s2 = snd (consumeServerSequence s1)"
  define hdr where "hdr = makeHeader DISCONNECT (session_id s1) (fst (consumeServerSequence s1)) 0 0"
  have t: "telemetry_true s2" using assms by (simp add: s2_def s1_def)
  obtain b w1 where snd: "sendPacket (socketHandle s2) hdr [] w = (b, w1)"
    by (cases "sendPacket (socketHandle s2) hdr [] w")
  show ?thesis
  proof (cases b)
    case False
    then have "(False, operator_disconnect E s w) = fail_with E ''DisconnectSendFailure'' s2 w1"
      using snd by (simp add: operator_disconnect_def Let_def case_prod_beta s1_def s2_def hdr_def fail_with_def)
    also have "calm_result s w \<dots>"
      using t sendPacket_calm [OF snd] by (intro calm_fault) (simp_all add: connection_causes_def)
    finally show ?thesis .
  next
    case True
    define w3 where "w3 = dash_packet E ''TX'' hdr (log_packet E ''TX'' hdr w1)"
    define s4 where "s4 = snd (session_transition (touch s2 (steady_now E w3)) DISCONNECTED)"
    have "operator_disconnect E s w = (s4, updateDashboardAircraft E s4 [] (steady_tick w3))"
      using snd True
      by (simp add: operator_disconnect_def Let_def case_prod_beta s1_def s2_def hdr_def s4_def w3_def)
    moreover have "telemetry_true s4" "calm w3 = calm w" using t sendPacket_calm [OF snd] by (simp_all add: s4_def w3_def)
    ultimately show ?thesis by (simp add: calm_result_def)
  qed
qed

interpretation calm_weather: calm_handler "weather_op E" "\<lambda>s. isVerifiedSessionState (session_state s)"
proof unfold_locales
  fix m :: SessionMap and s :: ClientSession and w :: world
  assume a: "isVerifiedSessionState (session_state s)" "telemetry_true s" "stream_ok s (incoming w s)"
  then have "session_state s \<in> active_states" "session_state s \<noteq> HANDSHAKE_PENDING"
    by (auto simp: isVerifiedSessionState_def active_states_def)
  with a show "calm_result s w (weather_op E m s w)"
    unfolding weather_op_def by (intro sendWeatherMap_calm) (simp_all add: stream_ok_def)
qed

interpretation calm_disconnect: calm_handler "disconnect_op E" "\<lambda>s. True"
  by unfold_locales (simp add: disconnect_op_def operator_disconnect_calm)

interpretation calm_timeout: calm_handler "timeout_op E" "\<lambda>s. True"
proof unfold_locales
  fix m :: SessionMap and s :: ClientSession and w :: world
  assume "telemetry_true s"
  then have "calm_result s w (fail_with E ''SocketTimeout'' s w)"
    by (intro calm_fault) (simp_all add: connection_causes_def)
  then show "calm_result s w (timeout_op E m s w)" by (simp add: timeout_op_def fail_with_def)
qed

interpretation calm_read: calm_handler "read_op E" "\<lambda>s. True"
proof unfold_locales
  fix m :: SessionMap and s :: ClientSession and w :: world
  assume a: "sessions_ok m" "map_find m (socketHandle s) = Some s" "dashboard_ok (shared w)"
    "telemetry_true s" "stream_ok s (incoming w s)"
  show "calm_result s w (read_op E m s w)"
    unfolding read_op_def
    using read_handshake_calm [OF _ a(3-5)] read_message_calm [OF sessions_okD(3) [OF a(1,2)] _ a(3-5)]
    by (cases "session_state s = HANDSHAKE_PENDING") auto
qed


subsection \<open>The whole server\<close>

text \<open>
  The log, the dashboard and every connection at once: what a dispatch to such a handler keeps.
\<close>

definition dashboard_true :: "DashboardState \<Rightarrow> bool" where
  "dashboard_true d \<longleftrightarrow>
     (\<forall>k a. map_find (aircraft d) k = Some a \<longrightarrow> dash_telemetryValid a \<longrightarrow> flight_payload (dash_telemetry a))"

definition fleet_ok :: "SessionMap \<Rightarrow> world \<Rightarrow> bool" where
  "fleet_ok m w \<longleftrightarrow>
     calm w \<and> dashboard_true (shared w) \<and> (\<forall>h s. map_find m h = Some s \<longrightarrow> connection_ok s (wnet w h))"

lemma dashboard_true_step:
  assumes "dashboard_true d" "dashboard_ok d'" "shown s d'" "telemetry_true s"
    and "\<And>k. k \<noteq> session_id s \<Longrightarrow> map_find (aircraft d') k = map_find (aircraft d) k"
  shows "dashboard_true d'"
  unfolding dashboard_true_def
proof (intro allI impI)
  fix k a assume a: "map_find (aircraft d') k = Some a" "dash_telemetryValid a"
  show "flight_payload (dash_telemetry a)"
  proof (cases "k = session_id s")
    case True
    with a assms(3,4) dashboard_key [OF assms(2) a(1)] show ?thesis by (auto simp: shown_def telemetry_true_def)
  next
    case False
    with a assms(1,5) show ?thesis by (simp add: dashboard_true_def)
  qed
qed

context calm_handler
begin

lemma dispatch_calm:
  assumes inv: "server_inv m w" and fleet: "fleet_ok m w" and run: "dispatch op h m w = (alive, m', w')"
    and p: "\<And>s. map_find m h = Some s \<Longrightarrow> pre s"
  shows "fleet_ok m' w'"
proof (cases "map_find m h")
  case None
  with run fleet show ?thesis by (simp add: dispatch_def)
next
  case (Some s)
  have mok: "sessions_ok m" and dok: "dashboard_ok (shared w)" using inv by (simp_all add: server_inv_def)
  have ok: "map_ok m" using mok by (simp add: sessions_ok_def)
  note s = sessions_okD [OF mok Some]
  have c: "calm w" "dashboard_true (shared w)" "telemetry_true s" "stream_ok s (incoming w s)"
    and others: "\<And>h' s'. map_find m h' = Some s' \<Longrightarrow> connection_ok s' (wnet w h')"
    using fleet Some s(1) by (auto simp: fleet_ok_def connection_ok_def)
  obtain a s' w1 where r: "op m s w = (a, s', w1)" by (cases "op m s w") auto
  have "run_ok m s w (op m s w)" using mok Some s by (intro contract) simp_all
  then have h': "socketHandle s' = h" and con: "confined (session_id s') h w w1" and own: "shown s' (shared w1)"
    using dok s by (auto simp: run_ok_def handled_def r)
  have "calm_result s w (op m s w)" using mok Some s dok p c by (intro calm_run) simp_all
  then have cr: "calm w1" "telemetry_true s'" "a \<Longrightarrow> stream_ok s' (sock_readable (wnet w1 h))"
    using c(1) s(1) by (auto simp: calm_result_def r)
  have dash: "dashboard_true (shared w1)"
    by (rule dashboard_true_step [OF c(2) _ own cr(2)]) (use con dok in \<open>simp_all add: confined_def\<close>)
  have net: "\<And>h'. h' \<noteq> h \<Longrightarrow> wnet w1 h' = wnet w h'" using con by (simp add: confined_def)
  show ?thesis
  proof (cases a)
    case True
    with r run Some have "m' = map_assign h s' m" "w' = w1" by (simp_all add: dispatch_def)
    with cr True dash others net show ?thesis
      by (auto simp: fleet_ok_def std_map.lookup_assign ok connection_ok_def split: if_splits)
  next
    case False
    have "map_find (map_assign h s' m) h = Some s'" by (simp add: std_map.lookup_assign ok)
    note rem = removeSession_found [OF this h' s(2), of w1]
    from r run Some False have m': "m' = map_erase h (map_assign h s' m)"
      "w' = w1\<lparr>wnet := (wnet w1)(h := (wnet w1 h)\<lparr>shut_all := True, closes := closes (wnet w1 h) + 1\<rparr>)\<rparr>"
      by (simp_all add: dispatch_def rem)
    have "map_find m' = map_find (map_erase h m)" unfolding m' by (rule erase_assign [OF ok])
    with m'(2) cr(1) dash others net show ?thesis
      by (auto simp: fleet_ok_def std_map.lookup_erase ok split: if_splits)
  qed
qed

end

end
