(* ===== verification/Server_Loop.thy ===== *)
theory Server_Loop
  imports Session_Handlers
begin

text \<open>
  \<open>serverThreadMain\<close> of \<open>server/ground_server.cpp\<close>: the phases of one iteration (weather request,
  disconnect request, timeouts, \<open>select\<close> with accept and the ready sessions), the final close,
  and their interleaving with the operator's frames as a step relation. What the kernel and the
  other thread decide (the answers of \<open>select\<close> and \<open>accept\<close>, the value of \<open>running\<close>) is input.
\<close>

subsection \<open>The operator's requests\<close>

definition weather_phase :: "host \<Rightarrow> SessionMap \<Rightarrow> world \<Rightarrow> bool \<times> SessionMap \<times> world" where
  "weather_phase E sessions w =
     (case consumeWeatherRequest w of (request, w1) \<Rightarrow>
        if request = [] then (True, sessions, w1)
        else (case findSessionByAircraftId sessions request of
                None \<Rightarrow> (True, sessions, w1)
              | Some h \<Rightarrow>
                  (case map_find sessions h of
                     None \<Rightarrow> (True, sessions, w1)
                   | Some session \<Rightarrow>
                       if \<not> isVerifiedSessionState (session_state session)
                       then (False, sessions, logIgnoredOperatorRequest E session ''weather-map'' w1)
                       else dispatch (weather_op E) h sessions w1)))"

definition disconnect_phase :: "host \<Rightarrow> SessionMap \<Rightarrow> world \<Rightarrow> bool \<times> SessionMap \<times> world" where
  "disconnect_phase E sessions w =
     (case consumeDisconnectRequest w of (request, w1) \<Rightarrow>
        if request = [] then (True, sessions, w1)
        else (case findSessionByAircraftId sessions request of
                None \<Rightarrow> (True, sessions, w1)
              | Some h \<Rightarrow>
                  (case map_find sessions h of
                     None \<Rightarrow> (True, sessions, w1)
                   | Some session \<Rightarrow>
                       if \<not> isVerifiedSessionState (session_state session)
                       then (False, sessions, logIgnoredOperatorRequest E session ''disconnect'' w1)
                       else dispatch (disconnect_op E) h sessions w1)))"

subsection \<open>Timeouts\<close>

fun refresh_dashboard :: "host \<Rightarrow> SessionMap \<Rightarrow> world \<Rightarrow> world" where
  "refresh_dashboard E [] w = w"
| "refresh_dashboard E ((h, session) # m) w =
     refresh_dashboard E m (updateDashboardAircraft E session [] w)"

definition timed_out_sessions :: "SessionMap \<Rightarrow> time \<Rightarrow> handle list" where
  "timed_out_sessions sessions now = map fst (filter (\<lambda>(h, session). timedOut session now) sessions)"

fun expire_all :: "host \<Rightarrow> handle list \<Rightarrow> SessionMap \<Rightarrow> world \<Rightarrow> SessionMap \<times> world" where
  "expire_all E [] sessions w = (sessions, w)"
| "expire_all E (h # hs) sessions w =
     (case dispatch (timeout_op E) h sessions w of
        (alive, sessions1, w1) \<Rightarrow> expire_all E hs sessions1 w1)"

definition timeout_phase :: "host \<Rightarrow> SessionMap \<Rightarrow> world \<Rightarrow> SessionMap \<times> world" where
  "timeout_phase E sessions w =
     (let now = steady_now E w;
          w1 = refresh_dashboard E sessions (steady_tick w)
      in expire_all E (timed_out_sessions sessions now) sessions w1)"

subsection \<open>Select, accept, read\<close>

text \<open>
  \<open>io_result\<close> and \<open>io_errno\<close> are \<open>select\<close>'s, \<open>io_listen\<close> and \<open>io_ready\<close> its ready set,
  \<open>io_accept\<close> the handle from \<open>accept\<close> with the traffic of the new connection in \<open>io_sock\<close>,
  \<open>io_running\<close> the flag as read where an error is logged, and \<open>io_continue h\<close> as read after the
  session at \<open>h\<close> was given up.
\<close>

record io_input =
  io_result :: int
  io_errno :: int
  io_running :: bool
  io_listen :: bool
  io_accept :: handle
  io_sock :: sock
  io_ready :: "handle \<Rightarrow> bool"
  io_continue :: "handle \<Rightarrow> bool"

definition watched :: "SessionMap \<Rightarrow> handle list" where
  "watched sessions =
     map (\<lambda>(h, session). socketHandle session)
       (filter (\<lambda>(h, session). socketHandle session \<noteq> INVALID_SOCK) sessions)"

definition accepted_socket :: "sock \<Rightarrow> sock" where
  "accepted_socket k = k\<lparr>outb := [], shut_all := False, shut_wr := False, closes := 0\<rparr>"

definition accept_client :: "host \<Rightarrow> io_input \<Rightarrow> SessionMap \<Rightarrow> world \<Rightarrow> SessionMap \<times> world" where
  "accept_client E inp sessions w =
     (if io_accept inp \<noteq> INVALID_SOCK
      then (let w0 = w\<lparr>wnet := (wnet w)(io_accept inp := accepted_socket (io_sock inp))\<rparr>;
                session = new_session (io_accept inp) (steady_now E w0);
                w1 = steady_tick w0;
                session1 = touch session (steady_now E w1);
                w2 = steady_tick w1;
                session2 = snd (session_transition session1 HANDSHAKE_PENDING)
            in (map_emplace (io_accept inp) session2 sessions, w2))
      else (sessions, if io_running inp
                      then log_info E (socketErrorString ''accept() failed'' (io_errno inp)) w else w))"

fun read_ready ::
  "host \<Rightarrow> (handle \<Rightarrow> bool) \<Rightarrow> handle list \<Rightarrow> SessionMap \<Rightarrow> world \<Rightarrow> SessionMap \<times> world" where
  "read_ready E continue [] sessions w = (sessions, w)"
| "read_ready E continue (h # hs) sessions w =
     (case dispatch (read_op E) h sessions w of
        (alive, sessions1, w1) \<Rightarrow>
          if \<not> alive \<and> \<not> continue h then (sessions1, w1)
          else read_ready E continue hs sessions1 w1)"

definition io_phase :: "host \<Rightarrow> io_input \<Rightarrow> SessionMap \<Rightarrow> world \<Rightarrow> SessionMap \<times> world" where
  "io_phase E inp sessions w =
     (if io_result inp < 0
      then (sessions, if io_running inp
                      then log_info E (socketErrorString ''select() failed'' (io_errno inp)) w else w)
      else if io_result inp = 0 then (sessions, w)
      else (case (if io_listen inp then accept_client E inp sessions w else (sessions, w)) of
              (sessions1, w1) \<Rightarrow>
                read_ready E (io_continue inp)
                  (filter (\<lambda>h. h \<in> set (watched sessions) \<and> io_ready inp h) (map_keys sessions1))
                  sessions1 w1))"

subsection \<open>The end of the loop\<close>

fun close_all :: "SessionMap \<Rightarrow> world \<Rightarrow> SessionMap \<times> world" where
  "close_all [] w = ([], w)"
| "close_all ((h, session) # m) w =
     (case session_close (wnet w) session of
        (session', n) \<Rightarrow>
          (case close_all m (w\<lparr>wnet := n\<rparr>) of (m', w') \<Rightarrow> ((h, session') # m', w')))"

subsection \<open>The interleaving with the operator\<close>

text \<open>
  The server thread as a machine that does one phase per step; between any two phases the dashboard
  thread may draw a frame. \<open>accepted\<close> is a history variable: the handles \<open>accept\<close> has returned.
\<close>

datatype pc = At_Weather | At_Disconnect | At_Timeouts | At_Select | At_Exit | Finished

record server =
  phase :: pc
  sessions :: SessionMap
  sworld :: world
  accepted :: "handle list"

definition start_server :: "Logger \<Rightarrow> net \<Rightarrow> server" where
  "start_server lg n =
     \<lparr> phase = At_Weather, sessions = [],
       sworld = \<lparr> logger = lg, shared = new_dashboard, wnet = n, steady_reads = 0, system_reads = 0 \<rparr>,
       accepted = [] \<rparr>"

definition accepts :: "io_input \<Rightarrow> handle list" where
  "accepts inp =
     (if 0 < io_result inp \<and> io_listen inp \<and> io_accept inp \<noteq> INVALID_SOCK then [io_accept inp] else [])"

text \<open>
  \<open>accept\<close> returns a descriptor that is not open: the one fact about the kernel that the relation
  takes for granted (POSIX gives the lowest-numbered descriptor not currently open).
\<close>

definition kernel_fresh :: "SessionMap \<Rightarrow> io_input \<Rightarrow> bool" where
  "kernel_fresh m inp \<longleftrightarrow> (\<forall>h\<in>set (accepts inp). map_find m h = None)"

inductive server_step :: "host \<Rightarrow> server \<Rightarrow> server \<Rightarrow> bool" for E where
  stop: "phase sv = At_Weather \<Longrightarrow> server_step E sv (sv\<lparr>phase := At_Exit\<rparr>)"
| weather: "phase sv = At_Weather \<Longrightarrow> weather_phase E (sessions sv) (sworld sv) = (go, m, w) \<Longrightarrow>
    server_step E sv (sv\<lparr>phase := (if go then At_Disconnect else At_Weather), sessions := m, sworld := w\<rparr>)"
| disconnect: "phase sv = At_Disconnect \<Longrightarrow> disconnect_phase E (sessions sv) (sworld sv) = (go, m, w) \<Longrightarrow>
    server_step E sv (sv\<lparr>phase := (if go then At_Timeouts else At_Weather), sessions := m, sworld := w\<rparr>)"
| timeouts: "phase sv = At_Timeouts \<Longrightarrow> timeout_phase E (sessions sv) (sworld sv) = (m, w) \<Longrightarrow>
    server_step E sv (sv\<lparr>phase := (if running then At_Select else At_Exit), sessions := m, sworld := w\<rparr>)"
| io: "phase sv = At_Select \<Longrightarrow> kernel_fresh (sessions sv) inp \<Longrightarrow>
    io_phase E inp (sessions sv) (sworld sv) = (m, w) \<Longrightarrow>
    server_step E sv (sv\<lparr>phase := At_Weather, sessions := m, sworld := w, accepted := accepts inp @ accepted sv\<rparr>)"
| exit: "phase sv = At_Exit \<Longrightarrow> close_all (sessions sv) (sworld sv) = (m, w) \<Longrightarrow>
    server_step E sv (sv\<lparr>phase := Finished, sessions := m, sworld := w\<rparr>)"
| operator: "server_step E sv
    (sv\<lparr>sworld := (sworld sv)\<lparr>shared := renderDashboard ui (shared (sworld sv))\<rparr>\<rparr>)"

inductive reachable :: "host \<Rightarrow> server \<Rightarrow> server \<Rightarrow> bool" for E and init where
  init: "reachable E init init"
| step: "reachable E init sv \<Longrightarrow> server_step E sv sv' \<Longrightarrow> reachable E init sv'"

inductive_cases server_stepE: "server_step E sv sv'"

subsection \<open>Every phase keeps the invariant\<close>

lemma server_inv_frame:
  assumes "server_inv m w" "wnet w' = wnet w" "aircraft (shared w') = aircraft (shared w)"
    "length (recentLogEntries (shared w')) \<le> 20"
  shows "server_inv m w'"
  using assms by (simp add: server_inv_def dashboard_ok_def dashboard_mirrors_def shown_def)

lemma server_inv_log: "server_inv m w \<Longrightarrow> server_inv m (log_info E msg w)"
  by (simp add: server_inv_def)

lemma server_inv_tick: "server_inv m w \<Longrightarrow> server_inv m (steady_tick w)"
  by (simp add: server_inv_def)

lemma server_inv_consume:
  assumes "server_inv m w"
  shows "server_inv m (snd (consumeWeatherRequest w))" "server_inv m (snd (consumeDisconnectRequest w))"
  by (rule server_inv_frame [OF assms];
      use assms in \<open>simp add: consumeWeatherRequest_def consumeDisconnectRequest_def server_inv_def
        dashboard_ok_def\<close>)+

lemma findSession_found:
  "findSessionByAircraftId m i = Some h \<Longrightarrow> map_ok m \<Longrightarrow> \<exists>s. map_find m h = Some s \<and> session_id s = i"
proof (induction m i rule: findSessionByAircraftId.induct)
  case (2 h' s m i)
  then show ?case
    by (force simp: map_find_def split: if_splits dest: map_of_SomeD)
qed simp

lemma findSession_complete:
  "map_ok m \<Longrightarrow> map_find m h = Some s \<Longrightarrow> findSessionByAircraftId m (session_id s) \<noteq> None"
  by (induction m "session_id s" rule: findSessionByAircraftId.induct)
     (auto simp: map_find_def split: if_splits)

text \<open>A request that names a session finds it, and finds it verified.\<close>

lemma requested_session:
  assumes "server_inv m w" "i \<noteq> []" "findSessionByAircraftId m i = Some h"
  obtains s where "map_find m h = Some s" "session_id s = i" "isVerifiedSessionState (session_state s)"
proof -
  from assms(1) have m: "sessions_ok m" by (simp add: server_inv_def)
  then obtain s where s: "map_find m h = Some s" "session_id s = i"
    using findSession_found [OF assms(3)] by (auto simp: sessions_ok_def)
  have "isVerifiedSessionState (session_state s)"
    using sessions_okD(3) [OF m s(1)] s(2) assms(2) by (auto simp: session_ok_def)
  from s this show ?thesis by (rule that)
qed

text \<open>
  \<open>shrinks\<close>: no session was added, and each one that is gone had its socket closed exactly once,
  while the sockets outside the map were not closed again.
\<close>

definition shrinks :: "SessionMap \<Rightarrow> world \<Rightarrow> SessionMap \<Rightarrow> world \<Rightarrow> bool" where
  "shrinks m w m' w' \<longleftrightarrow>
     (\<forall>h. map_find m h = None \<longrightarrow>
          map_find m' h = None \<and> closes (wnet w' h) = closes (wnet w h)) \<and>
     (\<forall>h s. map_find m h = Some s \<longrightarrow> map_find m' h = None \<longrightarrow> closes (wnet w' h) = 1)"

lemma shrinks_refl [simp]: "shrinks m w m w"
  by (simp add: shrinks_def)

lemma shrinks_net: "wnet w' = wnet w \<Longrightarrow> shrinks m w m w'"
  by (simp add: shrinks_def)

lemma shrinks_trans: "shrinks m w m1 w1 \<Longrightarrow> shrinks m1 w1 m2 w2 \<Longrightarrow> shrinks m w m2 w2"
  unfolding shrinks_def by (metis not_None_eq)

lemma shrinks_frame: "wnet w1 = wnet w \<Longrightarrow> shrinks m w1 m' w' \<Longrightarrow> shrinks m w m' w'"
  by (simp add: shrinks_def)

context session_handler
begin

lemma dispatch_shrinks:
  assumes "server_inv m w" "dispatch op h m w = (alive, m', w')"
  shows "server_inv m' w'" "shrinks m w m' w'"
proof -
  note d = dispatch_inv [OF assms]
  show "server_inv m' w'" using d by simp
  have "map_find m' h' = map_find m h' \<and> closes (wnet w' h') = closes (wnet w h')" if "h' \<noteq> h" for h'
    using d that by simp
  moreover have "map_find m h = None \<longrightarrow> map_find m' h = None \<and> closes (wnet w' h) = closes (wnet w h)"
    "map_find m h \<noteq> None \<longrightarrow> map_find m' h = None \<longrightarrow> closes (wnet w' h) = 1"
    using d by (auto split: if_splits)
  ultimately show "shrinks m w m' w'" unfolding shrinks_def by (metis option.distinct(1))
qed

end

lemma weather_phase_inv:
  assumes "server_inv m w" "weather_phase E m w = (go, m', w')"
  shows "server_inv m' w' \<and> shrinks m w m' w'"
proof -
  obtain i w1 where c: "consumeWeatherRequest w = (i, w1)" by (cases "consumeWeatherRequest w")
  have w1: "server_inv m w1" "wnet w1 = wnet w"
    using server_inv_consume(1) [OF assms(1)] consume_frame(1) [of w] by (simp_all add: c)
  show ?thesis
  proof (cases "i = [] \<or> findSessionByAircraftId m i = None")
    case True
    with assms(2) have "m' = m" "w' = w1" by (simp_all add: weather_phase_def c split: if_splits)
    with w1 shrinks_net [OF w1(2)] show ?thesis by simp
  next
    case False
    then obtain h where h: "findSessionByAircraftId m i = Some h" and i: "i \<noteq> []" by auto
    obtain s where "map_find m h = Some s" "isVerifiedSessionState (session_state s)"
      using requested_session [OF w1(1) i h] by blast
    with assms(2) h i have "dispatch (weather_op E) h m w1 = (go, m', w')"
      by (simp add: weather_phase_def c)
    from weather_handler.dispatch_shrinks [OF w1(1) this] shrinks_frame [OF w1(2)]
    show ?thesis by blast
  qed
qed

lemma disconnect_phase_inv:
  assumes "server_inv m w" "disconnect_phase E m w = (go, m', w')"
  shows "server_inv m' w' \<and> shrinks m w m' w'"
proof -
  obtain i w1 where c: "consumeDisconnectRequest w = (i, w1)" by (cases "consumeDisconnectRequest w")
  have w1: "server_inv m w1" "wnet w1 = wnet w"
    using server_inv_consume(2) [OF assms(1)] consume_frame(2) [of w] by (simp_all add: c)
  show ?thesis
  proof (cases "i = [] \<or> findSessionByAircraftId m i = None")
    case True
    with assms(2) have "m' = m" "w' = w1" by (simp_all add: disconnect_phase_def c split: if_splits)
    with w1 shrinks_net [OF w1(2)] show ?thesis by simp
  next
    case False
    then obtain h where h: "findSessionByAircraftId m i = Some h" and i: "i \<noteq> []" by auto
    obtain s where "map_find m h = Some s" "isVerifiedSessionState (session_state s)"
      using requested_session [OF w1(1) i h] by blast
    with assms(2) h i have "dispatch (disconnect_op E) h m w1 = (go, m', w')"
      by (simp add: disconnect_phase_def c)
    from disconnect_handler.dispatch_shrinks [OF w1(1) this] shrinks_frame [OF w1(2)]
    show ?thesis by blast
  qed
qed

lemma expire_all_inv:
  assumes "server_inv m w"
  shows "server_inv (fst (expire_all E hs m w)) (snd (expire_all E hs m w)) \<and>
    shrinks m w (fst (expire_all E hs m w)) (snd (expire_all E hs m w))"
  using assms
proof (induction E hs m w rule: expire_all.induct)
  case (2 E h hs m w)
  obtain a m1 w1 where d: "dispatch (timeout_op E) h m w = (a, m1, w1)"
    by (cases "dispatch (timeout_op E) h m w") auto
  note dd = timeout_handler.dispatch_shrinks [OF "2.prems" d]
  from "2.IH" [OF d [symmetric] refl dd(1)] shrinks_trans [OF dd(2)] show ?case by (simp add: d)
qed simp

lemma read_ready_inv:
  assumes "server_inv m w"
  shows "server_inv (fst (read_ready E c hs m w)) (snd (read_ready E c hs m w)) \<and>
    shrinks m w (fst (read_ready E c hs m w)) (snd (read_ready E c hs m w))"
  using assms
proof (induction E c hs m w rule: read_ready.induct)
  case (2 E c h hs m w)
  obtain a m1 w1 where d: "dispatch (read_op E) h m w = (a, m1, w1)"
    by (cases "dispatch (read_op E) h m w") auto
  note dd = read_handler.dispatch_shrinks [OF "2.prems" d]
  from "2.IH" [OF d [symmetric] refl _ dd(1)] shrinks_trans [OF dd(2)] dd show ?case by (simp add: d)
qed simp

text \<open>Refreshing an entry that is shown already changes nothing but the alert.\<close>

lemma update_shown:
  assumes "server_inv m w" "map_find m h = Some s"
  shows "server_inv m (updateDashboardAircraft E s a w)"
proof -
  have m: "sessions_ok m" and d: "dashboard_ok (shared w)" and mir: "dashboard_mirrors m (shared w)"
    using assms(1) by (simp_all add: server_inv_def)
  have con: "confined (session_id s) h w (updateDashboardAircraft E s a w)"
    by (rule confined_update [OF confined_refl refl])
  have "map_ok m" using m by (simp add: sessions_ok_def)
  then have same: "map_find (map_assign h s m) = map_find m"
    using assms(2) by (simp add: fun_eq_iff std_map.lookup_assign)
  have "dashboard_mirrors (map_assign h s m) (shared (updateDashboardAircraft E s a w))"
    by (rule mirrors_step(1) [OF m assms(2) update_ok [OF d] mir _ shown_update [OF d]])
       (use con d in \<open>simp_all add: confined_def\<close>)
  then show ?thesis
    using assms(1) update_ok [OF d] by (simp add: server_inv_def dashboard_mirrors_def same)
qed

lemma refresh_inv:
  assumes "server_inv m w" "\<And>h s. (h, s) \<in> set l \<Longrightarrow> map_find m h = Some s"
  shows "server_inv m (refresh_dashboard E l w)" "wnet (refresh_dashboard E l w) = wnet w"
    "logger (refresh_dashboard E l w) = logger w"
proof -
  have "server_inv m (refresh_dashboard E l w) \<and> wnet (refresh_dashboard E l w) = wnet w \<and>
    logger (refresh_dashboard E l w) = logger w"
    using assms
  proof (induction E l w rule: refresh_dashboard.induct)
    case (2 E h session l w)
    have "server_inv m (updateDashboardAircraft E session [] w)"
      using "2.prems" by (intro update_shown [where h = h]) simp_all
    with "2.IH" [OF this] "2.prems"(2) show ?case by simp
  qed simp
  then show "server_inv m (refresh_dashboard E l w)" "wnet (refresh_dashboard E l w) = wnet w"
    "logger (refresh_dashboard E l w) = logger w" by simp_all
qed

lemma timeout_phase_inv:
  assumes "server_inv m w" "timeout_phase E m w = (m', w')"
  shows "server_inv m' w' \<and> shrinks m w m' w'"
proof -
  have ok: "map_ok m" using assms(1) by (simp add: server_inv_def sessions_ok_def)
  let ?w1 = "refresh_dashboard E m (steady_tick w)"
  have w1: "server_inv m ?w1" "wnet ?w1 = wnet w"
    using refresh_inv [of m "steady_tick w" m E] assms(1) map_find_set [OF ok]
    by (simp_all add: server_inv_tick)
  from assms(2) expire_all_inv [OF w1(1), of E "timed_out_sessions m (steady_now E w)"]
  show ?thesis using shrinks_frame [OF w1(2)] by (simp add: timeout_phase_def Let_def)
qed

lemma accept_client_inv:
  assumes "server_inv m w" "io_accept inp \<noteq> INVALID_SOCK \<Longrightarrow> map_find m (io_accept inp) = None"
    and "accept_client E inp m w = (m', w')"
  shows "server_inv m' w' \<and>
    (\<forall>h. h \<noteq> io_accept inp \<or> io_accept inp = INVALID_SOCK \<longrightarrow>
       map_find m' h = map_find m h \<and> wnet w' h = wnet w h) \<and>
    (io_accept inp \<noteq> INVALID_SOCK \<longrightarrow>
       map_find m' (io_accept inp) \<noteq> None \<and> closes (wnet w' (io_accept inp)) = 0)"
proof (cases "io_accept inp = INVALID_SOCK")
  case True
  with assms show ?thesis by (auto simp: accept_client_def server_inv_log)
next
  case False
  let ?h = "io_accept inp"
  have inv: "sessions_ok m" "dashboard_ok (shared w)" "dashboard_mirrors m (shared w)"
    "sockets_open m (wnet w)"
    using assms(1) by (simp_all add: server_inv_def)
  have ok: "map_ok m" using inv by (simp add: sessions_ok_def)
  have new: "map_find m ?h = None" using assms(2) False by simp
  obtain s where s: "m' = map_emplace ?h s m" "socketHandle s = ?h" "session_id s = []"
    "session_state s = HANDSHAKE_PENDING"
    and w': "shared w' = shared w" "wnet w' = (wnet w)(?h := accepted_socket (io_sock inp))"
    using assms(3) False by (auto simp: accept_client_def Let_def machine_simps)
  have m': "m' = map_assign ?h s m" using s(1) new by (simp add: map_emplace_def)
  have "sessions_ok m'" unfolding m'
    using inv(1) _ s(2) False by (rule sessions_ok_assign) (simp_all add: session_ok_def s)
  moreover have "shown s2 (shared w')" if "map_find m' h2 = Some s2" for h2 s2
    using that inv(3) s(3) w'
    by (auto simp: m' std_map.lookup_assign ok dashboard_mirrors_def shown_def split: if_splits)
  moreover have "dash_state a = DISCONNECTED \<or> (\<exists>h2 s2. map_find m' h2 = Some s2 \<and> session_id s2 = k)"
    if "map_find (aircraft (shared w')) k = Some a" for k a
  proof -
    have "dash_state a = DISCONNECTED \<or> (\<exists>h2 s2. map_find m h2 = Some s2 \<and> session_id s2 = k)"
      using that inv(3) w' by (simp add: dashboard_mirrors_def)
    moreover have "map_find m' h1 = Some s1" if "map_find m h1 = Some s1" for h1 s1
      using that new by (auto simp: m' std_map.lookup_assign ok)
    ultimately show ?thesis by blast
  qed
  ultimately have "dashboard_mirrors m' (shared w')" by (simp add: dashboard_mirrors_def)
  with \<open>sessions_ok m'\<close> inv w' new False show ?thesis
    by (auto simp: server_inv_def sockets_open_def m' std_map.lookup_assign ok accepted_socket_def)
qed

lemma io_phase_inv:
  assumes inv: "server_inv m w" and fresh: "kernel_fresh m inp" and run: "io_phase E inp m w = (m', w')"
  shows "server_inv m' w' \<and>
    (\<forall>h. if h \<in> set (accepts inp)
         then closes (wnet w' h) = (if map_find m' h = None then 1 else 0)
         else (map_find m h = None \<longrightarrow> map_find m' h = None \<and> closes (wnet w' h) = closes (wnet w h)) \<and>
              (map_find m h \<noteq> None \<and> map_find m' h = None \<longrightarrow> closes (wnet w' h) = 1))"
proof (cases "io_result inp \<le> 0")
  case True
  with run inv show ?thesis
    by (auto simp: io_phase_def accepts_def server_inv_log split: if_splits)
next
  case False
  obtain m1 w1 where acc: "(if io_listen inp then accept_client E inp m w else (m, w)) = (m1, w1)"
    by (cases "if io_listen inp then accept_client E inp m w else (m, w)")
  have a: "server_inv m1 w1 \<and>
    (\<forall>h. if h \<in> set (accepts inp) then map_find m1 h \<noteq> None \<and> closes (wnet w1 h) = 0
         else map_find m1 h = map_find m h \<and> wnet w1 h = wnet w h)"
  proof (cases "io_listen inp")
    case True
    with acc have c: "accept_client E inp m w = (m1, w1)" by simp
    have "io_accept inp \<noteq> INVALID_SOCK \<Longrightarrow> map_find m (io_accept inp) = None"
      using fresh False True by (simp add: kernel_fresh_def accepts_def)
    from accept_client_inv [OF inv this c] False True show ?thesis by (auto simp: accepts_def)
  next
    case no: False
    with acc inv show ?thesis by (simp add: accepts_def)
  qed
  from run False acc have r: "read_ready E (io_continue inp)
      (filter (\<lambda>h. h \<in> set (watched m) \<and> io_ready inp h) (map_keys m1)) m1 w1 = (m', w')"
    by (simp add: io_phase_def)
  from a have "server_inv m1 w1" by simp
  from read_ready_inv [OF this, of E "io_continue inp"] r have b: "server_inv m' w'" "shrinks m1 w1 m' w'"
    by (metis fst_conv snd_conv)+
  have "if h \<in> set (accepts inp)
         then closes (wnet w' h) = (if map_find m' h = None then 1 else 0)
         else (map_find m h = None \<longrightarrow> map_find m' h = None \<and> closes (wnet w' h) = closes (wnet w h)) \<and>
              (map_find m h \<noteq> None \<and> map_find m' h = None \<longrightarrow> closes (wnet w' h) = 1)" for h
  proof -
    from a have ah: "if h \<in> set (accepts inp) then map_find m1 h \<noteq> None \<and> closes (wnet w1 h) = 0
         else map_find m1 h = map_find m h \<and> wnet w1 h = wnet w h" by blast
    have open0: "closes (wnet w' h) = 0" if "map_find m' h \<noteq> None"
      using b(1) that by (auto simp: server_inv_def sockets_open_def)
    have sh: "map_find m1 h = None \<longrightarrow> map_find m' h = None \<and> closes (wnet w' h) = closes (wnet w1 h)"
      "map_find m1 h \<noteq> None \<longrightarrow> map_find m' h = None \<longrightarrow> closes (wnet w' h) = 1"
      using b(2) by (auto simp: shrinks_def)
    show ?thesis
    proof (cases "h \<in> set (accepts inp)")
      case True
      with ah sh(2) open0 show ?thesis by simp
    next
      case no: False
      with ah sh show ?thesis by simp
    qed
  qed
  with b(1) show ?thesis by blast
qed

lemma close_all_closes:
  assumes "map_ok m" "\<And>h s. map_find m h = Some s \<Longrightarrow> socketHandle s = h \<and> h \<noteq> INVALID_SOCK"
    and "close_all m w = (m', w')"
  shows "closes (wnet w' h) = closes (wnet w h) + (if map_find m h = None then 0 else 1)
    \<and> shared w' = shared w \<and> logger w' = logger w \<and> map_keys m' = map_keys m
    \<and> (\<forall>s\<in>snd ` set m'. socketHandle s = INVALID_SOCK)"
  using assms
proof (induction m w arbitrary: m' w' rule: close_all.induct)
  case (1 w)
  then show ?case by (simp add: map_find_def map_keys_def)
next
  case (2 k s m w)
  have k: "socketHandle s = k" "k \<noteq> INVALID_SOCK" using "2.prems"(2) [of k s] by (auto simp: map_find_def)
  obtain s' n where c: "session_close (wnet w) s = (s', n)" by (cases "session_close (wnet w) s")
  have n: "n = (wnet w)(k := (wnet w k)\<lparr>shut_all := True, closes := closes (wnet w k) + 1\<rparr>)"
    using session_close_net [of "wnet w" s] c k by simp
  have s': "socketHandle s' = INVALID_SOCK" using c by (auto simp: session_close_def Let_def)
  obtain m1 w1 where r: "close_all m (w\<lparr>wnet := n\<rparr>) = (m1, w1)" by (cases "close_all m (w\<lparr>wnet := n\<rparr>)")
  have out: "map_find m k = None" using "2.prems"(1) by (auto simp: map_find_def map_of_eq_None_iff)
  then have sub: "map_find m h' = Some s2 \<Longrightarrow> socketHandle s2 = h' \<and> h' \<noteq> INVALID_SOCK" for h' s2
    using "2.prems"(2) [of h' s2] by (cases "h' = k") (auto simp: map_find_def)
  have mok: "map_ok m" using "2.prems"(1) by simp
  note IH = "2.IH" [OF c [symmetric] mok sub r]
  from "2.prems"(3) c r have "m' = (k, s') # m1" "w' = w1" by auto
  with IH out n s' show ?case by (auto simp: map_find_def map_keys_def)
qed

subsection \<open>Reachable states\<close>

text \<open>
  \<open>machine_inv\<close>: until the thread finishes, the server's invariant, every session an accepted
  connection, and an accepted handle closed (once) exactly when its session is gone; when it has
  finished, every accepted handle closed once.
\<close>

definition machine_inv :: "server \<Rightarrow> bool" where
  "machine_inv sv \<longleftrightarrow>
     dashboard_ok (shared (sworld sv)) \<and>
     (if phase sv = Finished
      then (\<forall>h\<in>set (accepted sv). closes (wnet (sworld sv) h) = 1)
      else server_inv (sessions sv) (sworld sv) \<and>
           (\<forall>h\<in>set (accepted sv). map_find (sessions sv) h = None \<longrightarrow> closes (wnet (sworld sv) h) = 1) \<and>
           (\<forall>h s. map_find (sessions sv) h = Some s \<longrightarrow> h \<in> set (accepted sv)))"

lemma machine_inv_start: "machine_inv (start_server lg n)"
  by (simp add: machine_inv_def start_server_def server_inv_def dashboard_mirrors_def sockets_open_def
      map_find_def new_dashboard_def [THEN arg_cong [where f = aircraft]])

lemma machine_inv_phase:
  assumes "machine_inv sv" "phase sv \<noteq> Finished" "p \<noteq> Finished"
    and "server_inv m w" "shrinks (sessions sv) (sworld sv) m w"
  shows "machine_inv (sv\<lparr>phase := p, sessions := m, sworld := w\<rparr>)"
proof -
  have old: "\<And>h. h \<in> set (accepted sv) \<Longrightarrow> map_find (sessions sv) h = None \<Longrightarrow> closes (wnet (sworld sv) h) = 1"
    "\<And>h s. map_find (sessions sv) h = Some s \<Longrightarrow> h \<in> set (accepted sv)"
    using assms(1,2) by (auto simp: machine_inv_def)
  have "closes (wnet w h) = 1" if "h \<in> set (accepted sv)" "map_find m h = None" for h
    using old(1) [OF that(1)] that assms(5) unfolding shrinks_def by (metis not_None_eq)
  moreover have "h \<in> set (accepted sv)" if "map_find m h = Some s" for h s
    using old(2) that assms(5) unfolding shrinks_def by (metis not_None_eq)
  ultimately show ?thesis
    using assms(3,4) by (simp add: machine_inv_def) (simp add: server_inv_def)
qed

lemma machine_inv_step:
  assumes "server_step E sv sv'" "machine_inv sv"
  shows "machine_inv sv'"
  using assms
proof (induction rule: server_step.induct)
  case (stop sv)
  then show ?case by (simp add: machine_inv_def)
next
  case (weather sv go m w)
  then have "server_inv (sessions sv) (sworld sv)" by (simp add: machine_inv_def)
  from weather_phase_inv [OF this weather(2)] weather show ?case
    by (intro machine_inv_phase) simp_all
next
  case (disconnect sv go m w)
  then have "server_inv (sessions sv) (sworld sv)" by (simp add: machine_inv_def)
  from disconnect_phase_inv [OF this disconnect(2)] disconnect show ?case
    by (intro machine_inv_phase) simp_all
next
  case (timeouts sv m w running)
  then have "server_inv (sessions sv) (sworld sv)" by (simp add: machine_inv_def)
  from timeout_phase_inv [OF this timeouts(2)] timeouts show ?case
    by (intro machine_inv_phase) simp_all
next
  case (io sv inp m w)
  then have inv: "server_inv (sessions sv) (sworld sv)"
    and old: "\<And>h. h \<in> set (accepted sv) \<Longrightarrow> map_find (sessions sv) h = None \<Longrightarrow> closes (wnet (sworld sv) h) = 1"
      "\<And>h s. map_find (sessions sv) h = Some s \<Longrightarrow> h \<in> set (accepted sv)"
    by (auto simp: machine_inv_def)
  note r = io_phase_inv [OF inv io(2,3)]
  have rh: "if h \<in> set (accepts inp)
      then closes (wnet w h) = (if map_find m h = None then 1 else 0)
      else (map_find (sessions sv) h = None \<longrightarrow>
              map_find m h = None \<and> closes (wnet w h) = closes (wnet (sworld sv) h)) \<and>
           (map_find (sessions sv) h \<noteq> None \<and> map_find m h = None \<longrightarrow> closes (wnet w h) = 1)" for h
    using r by blast
  have "closes (wnet w h) = 1" if "h \<in> set (accepts inp @ accepted sv)" "map_find m h = None" for h
    using rh [of h] old(1) [of h] that
    by (cases "h \<in> set (accepts inp)"; cases "map_find (sessions sv) h") simp_all
  moreover have "h \<in> set (accepts inp @ accepted sv)" if "map_find m h = Some s" for h s
    using rh [of h] old(2) [of h] that
    by (cases "h \<in> set (accepts inp)"; cases "map_find (sessions sv) h") simp_all
  ultimately show ?case
    using r by (simp add: machine_inv_def) (simp add: server_inv_def)
next
  case (exit sv m w)
  then have inv: "sessions_ok (sessions sv)" "dashboard_ok (shared (sworld sv))"
      "sockets_open (sessions sv) (wnet (sworld sv))"
    and old: "\<And>h. h \<in> set (accepted sv) \<Longrightarrow> map_find (sessions sv) h = None \<Longrightarrow> closes (wnet (sworld sv) h) = 1"
    by (auto simp: machine_inv_def server_inv_def)
  have ok: "map_ok (sessions sv)" using inv(1) by (simp add: sessions_ok_def)
  have hs: "socketHandle s = h \<and> h \<noteq> INVALID_SOCK" if "map_find (sessions sv) h = Some s" for h s
    using sessions_okD [OF inv(1) that] by simp
  note c = close_all_closes [OF ok hs exit(2)]
  have "closes (wnet w h) = 1" if "h \<in> set (accepted sv)" for h
    using c [of h] old [OF that] inv(3) by (cases "map_find (sessions sv) h") (auto simp: sockets_open_def)
  with c inv(2) show ?case by (simp add: machine_inv_def)
next
  case (operator sv ui)
  then show ?case
    by (auto simp: machine_inv_def dashboard_ok_def intro: server_inv_frame)
qed

lemma reachable_inv: "reachable E sv0 sv \<Longrightarrow> machine_inv sv0 \<Longrightarrow> machine_inv sv"
  by (induction rule: reachable.induct) (auto intro: machine_inv_step)

subsection \<open>Exact effects\<close>

lemma dispatch_gone:
  assumes "sessions_ok m" "map_find m h = Some s" "\<not> fst (op m s w)"
  shows "\<not> fst (dispatch op h m w)"
  using assms by (auto simp: dispatch_def Let_def split: prod.splits)

text \<open>Expiring a list of handles removes exactly the sessions at them.\<close>

lemma expire_all_exact:
  assumes "server_inv m w"
  shows "map_find (fst (expire_all E hs m w)) h = (if h \<in> set hs then None else map_find m h)"
  using assms
proof (induction E hs m w rule: expire_all.induct)
  case (2 E k hs m w)
  obtain a m1 w1 where d: "dispatch (timeout_op E) k m w = (a, m1, w1)"
    by (cases "dispatch (timeout_op E) k m w") auto
  note inv = timeout_handler.dispatch_inv [OF "2.prems" d]
  have "map_find m1 k = None"
  proof (cases "map_find m k")
    case None
    with d show ?thesis by (simp add: dispatch_def)
  next
    case (Some s)
    have "\<not> a"
      using dispatch_gone [OF _ Some, of "timeout_op E" w] "2.prems" d
      by (simp add: timeout_op_def server_inv_def)
    with inv show ?thesis by simp
  qed
  with "2.IH" [OF d [symmetric] refl] inv show ?case by (simp add: d)
qed simp

lemma timed_out_sessions_iff:
  "map_ok m \<Longrightarrow> h \<in> set (timed_out_sessions m now) \<longleftrightarrow>
     (\<exists>s. map_find m h = Some s \<and> timedOut s now)"
  by (force simp: timed_out_sessions_def map_find_set)

lemma timeout_phase_exact:
  assumes "server_inv m w" "timeout_phase E m w = (m', w')"
  shows "map_find m' h = (case map_find m h of
      Some s \<Rightarrow> if timedOut s (steady_now E w) then None else Some s | None \<Rightarrow> None)"
proof -
  have ok: "map_ok m" using assms(1) by (simp add: server_inv_def sessions_ok_def)
  let ?w1 = "refresh_dashboard E m (steady_tick w)"
  have "server_inv m ?w1"
    using refresh_inv [of m "steady_tick w" m E] assms(1) map_find_set [OF ok]
    by (simp_all add: server_inv_tick)
  from expire_all_exact [OF this, of E "timed_out_sessions m (steady_now E w)" h] assms(2)
  show ?thesis
    by (auto simp: timeout_phase_def Let_def timed_out_sessions_iff ok split: option.splits)
qed

lemma weather_request_dispatched:
  assumes "server_inv m w" "weatherRequestAircraftId (shared w) = i" "i \<noteq> []"
    and "findSessionByAircraftId m i = Some h"
  shows "\<exists>s. map_find m h = Some s \<and> session_id s = i \<and> isVerifiedSessionState (session_state s) \<and>
    weather_phase E m w = dispatch (weather_op E) h m
      (w\<lparr>shared := (shared w)\<lparr>weatherRequestAircraftId := []\<rparr>\<rparr>)"
  using requested_session [OF assms(1,3,4)] assms(2-4)
  by (fastforce simp: weather_phase_def consumeWeatherRequest_def)

lemma disconnect_request_dispatched:
  assumes "server_inv m w" "disconnectRequestAircraftId (shared w) = i" "i \<noteq> []"
    and "findSessionByAircraftId m i = Some h"
  shows "\<exists>s. map_find m h = Some s \<and> session_id s = i \<and> isVerifiedSessionState (session_state s) \<and>
    disconnect_phase E m w = dispatch (disconnect_op E) h m
      (w\<lparr>shared := (shared w)\<lparr>disconnectRequestAircraftId := []\<rparr>\<rparr>)"
  using requested_session [OF assms(1,3,4)] assms(2-4)
  by (fastforce simp: disconnect_phase_def consumeDisconnectRequest_def)

end
