(* ===== verification/Server_Run.thy ===== *)
theory Server_Run
  imports Server_Loop Delivery
begin

text \<open>
  Runs of the server thread: an executable next-state function inside the step relation, a concrete
  run (connect, handshake, telemetry), and the properties of all reachable states.
\<close>

subsection \<open>Running the machine\<close>

datatype choice = Go | Halt | Io io_input | Frame ui_input

definition server_next :: "host \<Rightarrow> choice \<Rightarrow> server \<Rightarrow> server" where
  "server_next E c sv =
     (case c of
        Frame ui \<Rightarrow> sv\<lparr>sworld := (sworld sv)\<lparr>shared := renderDashboard ui (shared (sworld sv))\<rparr>\<rparr>
      | Halt \<Rightarrow>
          (case phase sv of
             At_Weather \<Rightarrow> sv\<lparr>phase := At_Exit\<rparr>
           | At_Timeouts \<Rightarrow> (case timeout_phase E (sessions sv) (sworld sv) of
               (m, w) \<Rightarrow> sv\<lparr>phase := At_Exit, sessions := m, sworld := w\<rparr>)
           | At_Exit \<Rightarrow> (case close_all (sessions sv) (sworld sv) of
               (m, w) \<Rightarrow> sv\<lparr>phase := Finished, sessions := m, sworld := w\<rparr>)
           | _ \<Rightarrow> sv)
      | Go \<Rightarrow>
          (case phase sv of
             At_Weather \<Rightarrow> (case weather_phase E (sessions sv) (sworld sv) of
               (go, m, w) \<Rightarrow> sv\<lparr>phase := (if go then At_Disconnect else At_Weather), sessions := m, sworld := w\<rparr>)
           | At_Disconnect \<Rightarrow> (case disconnect_phase E (sessions sv) (sworld sv) of
               (go, m, w) \<Rightarrow> sv\<lparr>phase := (if go then At_Timeouts else At_Weather), sessions := m, sworld := w\<rparr>)
           | At_Timeouts \<Rightarrow> (case timeout_phase E (sessions sv) (sworld sv) of
               (m, w) \<Rightarrow> sv\<lparr>phase := At_Select, sessions := m, sworld := w\<rparr>)
           | _ \<Rightarrow> sv)
      | Io inp \<Rightarrow>
          (if phase sv = At_Select \<and> list_all (\<lambda>h. h \<notin> set (map_keys (sessions sv))) (accepts inp)
           then (case io_phase E inp (sessions sv) (sworld sv) of
                   (m, w) \<Rightarrow> sv\<lparr>phase := At_Weather, sessions := m, sworld := w,
                                accepted := accepts inp @ accepted sv\<rparr>)
           else sv))"

lemma server_next_step: "server_next E c sv = sv \<or> server_step E sv (server_next E c sv)"
proof (cases c)
  case Go
  obtain g1 m1 w1 where w: "weather_phase E (sessions sv) (sworld sv) = (g1, m1, w1)"
    by (cases "weather_phase E (sessions sv) (sworld sv)") auto
  obtain g2 m2 w2 where d: "disconnect_phase E (sessions sv) (sworld sv) = (g2, m2, w2)"
    by (cases "disconnect_phase E (sessions sv) (sworld sv)") auto
  obtain m3 w3 where t: "timeout_phase E (sessions sv) (sworld sv) = (m3, w3)"
    by (cases "timeout_phase E (sessions sv) (sworld sv)")
  show ?thesis
    using server_step.weather [OF _ w] server_step.disconnect [OF _ d]
      server_step.timeouts [OF _ t, of True]
    by (cases "phase sv") (simp_all add: server_next_def Go w d t)
next
  case Halt
  then show ?thesis
    using server_step.timeouts [of sv E _ _ False]
    by (cases "phase sv")
       (auto simp: server_next_def intro: server_step.stop server_step.exit split: prod.split)
next
  case (Io inp)
  have fresh: "kernel_fresh (sessions sv) inp"
    if "list_all (\<lambda>h. h \<notin> set (map_keys (sessions sv))) (accepts inp)"
    using that by (simp add: kernel_fresh_def list_all_iff map_keys_def map_find_def map_of_eq_None_iff)
  show ?thesis
  proof (cases "phase sv = At_Select \<and> list_all (\<lambda>h. h \<notin> set (map_keys (sessions sv))) (accepts inp)")
    case True
    then show ?thesis
      using fresh server_step.io [of sv inp E]
      by (cases "io_phase E inp (sessions sv) (sworld sv)") (simp add: server_next_def Io)
  next
    case False
    then show ?thesis by (auto simp: server_next_def Io)
  qed
next
  case (Frame ui)
  then show ?thesis by (simp add: server_next_def server_step.operator)
qed

lemma reachable_run: "reachable E sv0 (fold (server_next E) cs sv0)"
proof (induction cs rule: rev_induct)
  case Nil
  then show ?case by (simp add: reachable.init)
next
  case (snoc c cs)
  then show ?case
    using server_next_step [of E c "fold (server_next E) cs sv0"]
    by (auto simp del: fold_append simp: fold_append [of _ cs] intro: reachable.step)
qed

subsection \<open>A concrete run\<close>

definition example_traffic :: sock where
  "example_traffic =
     \<lparr> rx = [RecvBytes (header_bytes (makeHeader HANDSHAKE_REQUEST ''AC-001'' 1 0 0)),
             RecvBytes (header_bytes (makeHeader TELEMETRY_PACKET ''AC-001'' 2 (word_of_nat telemetry_size) 0)
                        @ telemetry_bytes zero_telemetry)],
       tx = replicate 8 (Accepts 65536), outb = [], shut_all = False, shut_wr = False, closes = 0 \<rparr>"

definition example_io :: "bool \<Rightarrow> io_input" where
  "example_io listen =
     \<lparr> io_result = 1, io_errno = 0, io_running = True, io_listen = listen, io_accept = 4,
       io_sock = example_traffic, io_ready = (\<lambda>h. \<not> listen), io_continue = (\<lambda>h. True) \<rparr>"

definition iteration :: "io_input \<Rightarrow> choice list" where
  "iteration inp = [Go, Go, Go, Io inp]"

definition example_start :: server where
  "example_start = start_server (new_logger ''groundctrl'' ''logs'' 0 1) (\<lambda>h. example_traffic)"

definition example_run :: "nat \<Rightarrow> server" where
  "example_run n = fold (server_next example_host)
     (iteration (example_io True) @ concat (replicate n (iteration (example_io False)))) example_start"

lemma example_run_0:
  "phase (example_run 0) = At_Weather" "map_keys (sessions (example_run 0)) = [4]"
  "accepted (example_run 0) = [4]"
  by code_simp+

lemma example_reachable: "reachable example_host example_start (example_run n)"
  unfolding example_run_def by (rule reachable_run)

lemma start_inv: "reachable E (start_server lg n) sv \<Longrightarrow> machine_inv sv"
  by (rule reachable_inv [OF _ machine_inv_start])

subsection \<open>Properties of all reachable states\<close>

text \<open>
  C1. Whatever clients, operator, clock and kernel do, at every point between two phases of the
  server thread the session map is consistent: each session is stored under its own valid handle,
  it either awaits its handshake without an id or is connected or streaming under a well-formed
  id (and has telemetry on record when streaming), and no two sessions have the same id.
\<close>

theorem session_map_consistent:
  assumes "reachable E (start_server lg n) sv" "phase sv \<noteq> Finished"
  shows "map_ok (sessions sv) \<and>
    (\<forall>h s. map_find (sessions sv) h = Some s \<longrightarrow>
       socketHandle s = h \<and> h \<noteq> INVALID_SOCK \<and> h \<in> set (accepted sv) \<and>
       (session_state s = HANDSHAKE_PENDING \<and> session_id s = [] \<or>
        session_state s = CONNECTED \<and> validateAircraftId (session_id s) \<or>
        session_state s = TELEMETRY \<and> validateAircraftId (session_id s) \<and> telemetryValid s)) \<and>
    (\<forall>h1 s1 h2 s2. map_find (sessions sv) h1 = Some s1 \<longrightarrow> map_find (sessions sv) h2 = Some s2 \<longrightarrow>
       h1 \<noteq> h2 \<longrightarrow> session_id s1 \<noteq> [] \<longrightarrow> session_id s1 \<noteq> session_id s2)"
proof -
  have inv: "sessions_ok (sessions sv)"
    and acc: "\<And>h s. map_find (sessions sv) h = Some s \<Longrightarrow> h \<in> set (accepted sv)"
    using start_inv [OF assms(1)] assms(2) by (auto simp: machine_inv_def server_inv_def)
  have "socketHandle s = h \<and> h \<noteq> INVALID_SOCK \<and> h \<in> set (accepted sv) \<and>
       (session_state s = HANDSHAKE_PENDING \<and> session_id s = [] \<or>
        session_state s = CONNECTED \<and> validateAircraftId (session_id s) \<or>
        session_state s = TELEMETRY \<and> validateAircraftId (session_id s) \<and> telemetryValid s)"
    if "map_find (sessions sv) h = Some s" for h s
    using sessions_okD [OF inv that] acc [OF that]
    by (auto simp: session_ok_def isVerifiedSessionState_def)
  then show ?thesis using inv unfolding sessions_ok_def ids_unique_def by blast
qed

theorem session_map_consistent_witness:
  "\<exists>s. map_find (sessions (example_run 0)) 4 = Some s \<and> socketHandle s = 4 \<and>
     (session_id s = [] \<or> validateAircraftId (session_id s))"
proof -
  have "map_find (sessions (example_run 0)) 4 \<noteq> None"
    using example_run_0(2) list.set_map [of fst "sessions (example_run 0)", symmetric]
    by (simp add: map_find_def map_keys_def map_of_eq_None_iff)
  then obtain s where s: "map_find (sessions (example_run 0)) 4 = Some s" by blast
  from session_map_consistent [OF example_reachable [of 0, unfolded example_start_def]] example_run_0(1) s
  show ?thesis by (intro exI [of _ s]) auto
qed

text \<open>
  C2. The dashboard never lies about who is there: between two phases it shows every session that has
  an id with the session's own state, telemetry and validity flag, and every other aircraft it
  lists as disconnected; each entry is filed under its own non-empty id, its connected flag agrees
  with its state, and the log holds at most twenty entries.
\<close>

theorem dashboard_faithful:
  assumes "reachable E (start_server lg n) sv" "phase sv \<noteq> Finished"
  shows "(\<forall>h s. map_find (sessions sv) h = Some s \<longrightarrow> session_id s \<noteq> [] \<longrightarrow>
       (\<exists>a. map_find (aircraft (shared (sworld sv))) (session_id s) = Some a \<and>
            dash_state a = session_state s \<and> dash_telemetry a = latestTelemetry s \<and>
            dash_telemetryValid a = telemetryValid s)) \<and>
    (\<forall>k a. map_find (aircraft (shared (sworld sv))) k = Some a \<longrightarrow>
       k \<noteq> [] \<and> dash_id a = k \<and> (dash_connected a \<longleftrightarrow> isVerifiedSessionState (dash_state a)) \<and>
       (dash_state a = DISCONNECTED \<or>
        (\<exists>h s. map_find (sessions sv) h = Some s \<and> session_id s = k))) \<and>
    length (recentLogEntries (shared (sworld sv))) \<le> 20"
proof -
  have d: "dashboard_ok (shared (sworld sv))"
    and mir: "dashboard_mirrors (sessions sv) (shared (sworld sv))"
    using start_inv [OF assms(1)] assms(2) by (simp_all add: machine_inv_def server_inv_def)
  have "dash_entry_ok k a" if "map_find (aircraft (shared (sworld sv))) k = Some a" for k a
    using d that by (auto simp: dashboard_ok_def map_find_set)
  with d mir show ?thesis
    unfolding dashboard_mirrors_def shown_def dash_entry_ok_def dashboard_ok_def by blast
qed

theorem dashboard_faithful_witness:
  "phase (example_run 0) = At_Weather \<and> length (recentLogEntries (shared (sworld (example_run 0)))) \<le> 20"
  using dashboard_faithful [OF example_reachable [of 0, unfolded example_start_def]] example_run_0(1)
  by auto

text \<open>
  C3. No connection is leaked and none is closed twice: while the server runs, an accepted connection
  is open as long as its session is in the map and has been closed exactly once when it is not;
  and when the server thread has finished, every connection it ever accepted has been closed
  exactly once.
\<close>

theorem connections_closed_once:
  assumes "reachable E (start_server lg n) sv" "h \<in> set (accepted sv)"
  shows "closes (wnet (sworld sv) h) =
    (if phase sv \<noteq> Finished \<and> map_find (sessions sv) h \<noteq> None then 0 else 1)"
proof (cases "phase sv = Finished")
  case True
  then show ?thesis using start_inv [OF assms(1)] assms(2) by (simp add: machine_inv_def)
next
  case False
  then have "sockets_open (sessions sv) (wnet (sworld sv))"
    "map_find (sessions sv) h = None \<longrightarrow> closes (wnet (sworld sv) h) = 1"
    using start_inv [OF assms(1)] assms(2) by (simp_all add: machine_inv_def server_inv_def)
  with False show ?thesis by (cases "map_find (sessions sv) h") (auto simp: sockets_open_def)
qed

theorem connections_closed_once_witness:
  "closes (wnet (sworld (example_run 0)) 4) =
     (if map_find (sessions (example_run 0)) 4 \<noteq> None then 0 else 1)"
  using connections_closed_once [OF example_reachable [of 0, unfolded example_start_def], of 4] example_run_0
  by simp

subsection \<open>What the phases do\<close>

text \<open>A server with one connected aircraft, which the operator wants disconnected and mapped.\<close>

definition example_requests :: world where
  "example_requests =
     (example_world [] [Accepts 29])\<lparr>shared :=
        (syncDashboardAircraft new_dashboard example_session [])\<lparr>
           disconnectRequestAircraftId := ''AC-001'', weatherRequestAircraftId := ''AC-001''\<rparr>\<rparr>"

lemma example_requests_frame [simp]:
  "wnet example_requests = wnet (example_world [] [Accepts 29])"
  "weatherRequestAircraftId (shared example_requests) = ''AC-001''"
  "disconnectRequestAircraftId (shared example_requests) = ''AC-001''"
  by (simp_all add: example_requests_def)

lemma example_requests_inv: "server_inv [(4, example_session)] example_requests"
proof -
  let ?d = "syncDashboardAircraft new_dashboard example_session []"
  let ?m = "[(4, example_session)] :: SessionMap"
  have "sessions_ok ?m"
    by (simp add: sessions_ok_def ids_unique_def map_find_def INVALID_SOCK_def)
  moreover have d: "dashboard_ok ?d" by (rule sync_ok) simp
  have n: "map_ok (aircraft new_dashboard)" "aircraft new_dashboard = []"
    by (simp_all add: new_dashboard_def)
  have "dashboard_mirrors ?m ?d"
    unfolding dashboard_mirrors_def shown_def sync_entry [OF n(1)]
    by (auto simp: map_find_def n split: if_splits)
  moreover have "sockets_open ?m (wnet example_requests)"
    by (simp add: sockets_open_def example_world_def)
  ultimately have "server_inv ?m ((example_world [] [Accepts 29])\<lparr>shared := ?d\<rparr>)"
    using d by (simp add: server_inv_def)
  then show ?thesis
    by (rule server_inv_frame) (use d in \<open>simp_all add: example_requests_def dashboard_ok_def\<close>)
qed

lemma findSession_unique:
  assumes "sessions_ok m" "map_find m h = Some s" "session_id s \<noteq> []"
  shows "findSessionByAircraftId m (session_id s) = Some h"
proof -
  have ok: "map_ok m" and u: "ids_unique m" using assms(1) by (simp_all add: sessions_ok_def)
  obtain h' where h': "findSessionByAircraftId m (session_id s) = Some h'"
    using findSession_complete [OF ok assms(2)] by blast
  obtain s' where "map_find m h' = Some s'" "session_id s' = session_id s"
    using findSession_found [OF h' ok] by blast
  with u assms(2,3) have "h' = h" unfolding ids_unique_def by metis
  with h' show ?thesis by simp
qed

text \<open>
  C24. The operator's commands reach only verified sessions: whatever clients, operator, clock and kernel
  have done since the server started, a session of the map that has an id (the only kind a request
  can name) has completed its handshake, a pending request with its id finds it and no other, and
  the request is dispatched to it with the request slot cleared. The branch that logs an ignored
  request for an unverified session is never taken.
\<close>

theorem operator_commands_verified:
  assumes "reachable E (start_server lg n) sv" "phase sv \<noteq> Finished"
    and "map_find (sessions sv) h = Some s" "session_id s = i" "i \<noteq> []"
  shows "isVerifiedSessionState (session_state s) \<and>
    findSessionByAircraftId (sessions sv) i = Some h \<and>
    (weatherRequestAircraftId (shared (sworld sv)) = i \<longrightarrow>
       weather_phase E (sessions sv) (sworld sv) = dispatch (weather_op E) h (sessions sv)
         ((sworld sv)\<lparr>shared := (shared (sworld sv))\<lparr>weatherRequestAircraftId := []\<rparr>\<rparr>)) \<and>
    (disconnectRequestAircraftId (shared (sworld sv)) = i \<longrightarrow>
       disconnect_phase E (sessions sv) (sworld sv) = dispatch (disconnect_op E) h (sessions sv)
         ((sworld sv)\<lparr>shared := (shared (sworld sv))\<lparr>disconnectRequestAircraftId := []\<rparr>\<rparr>))"
proof -
  have inv: "server_inv (sessions sv) (sworld sv)"
    using start_inv [OF assms(1)] assms(2) by (simp add: machine_inv_def)
  have f: "findSessionByAircraftId (sessions sv) i = Some h"
    using findSession_unique [of "sessions sv" h s] assms(3-5) inv by (simp add: server_inv_def)
  obtain s' where "map_find (sessions sv) h = Some s'" "isVerifiedSessionState (session_state s')"
    by (rule requested_session [OF inv assms(5) f])
  then show ?thesis
    using weather_request_dispatched [OF inv _ assms(5) f, of E]
      disconnect_request_dispatched [OF inv _ assms(5) f, of E] assms(3) f
    by auto
qed

lemma operator_disconnect_sent:
  assumes "operator_disconnect E s w = (s', w')"
  shows "\<exists>k. outgoing w' s = outgoing w s @
    take k (header_bytes (makeHeader DISCONNECT (session_id s) (nextServerSequence s) 0 0))"
proof -
  let ?hdr = "makeHeader DISCONNECT (session_id s) (nextServerSequence s) 0 0"
  obtain b w1 where snd: "send_bytes (socketHandle s) (header_bytes ?hdr) w = (b, w1)"
    by (cases "send_bytes (socketHandle s) (header_bytes ?hdr) w")
  have "wnet w' = wnet w1"
    using assms snd
    by (cases b) (auto simp: operator_disconnect_def Let_def consumeServerSequence_def sendPacket_empty
        dest: handleFault_eqD(4) split: if_splits)
  then show ?thesis using send_bytes_prefix [OF snd] by metis
qed

lemma operator_disconnect_telemetry:
  assumes "operator_disconnect E s w = (s', w')"
  shows "latestTelemetry s' = latestTelemetry s \<and> telemetryValid s' = telemetryValid s"
  using assms
  by (auto simp: operator_disconnect_def Let_def handleFault_def consumeServerSequence_def
      split: if_splits prod.splits bool.splits)

lemma dispatch_given_up:
  assumes "sessions_ok m" "map_find m h = Some s" "op m s w = (False, s', w1)" "socketHandle s' = h"
  shows "dispatch op h m w = (False, map_erase h (map_assign h s' m),
     w1\<lparr>wnet := (wnet w1)(h := (wnet w1 h)\<lparr>shut_all := True, closes := closes (wnet w1 h) + 1\<rparr>)\<rparr>)"
proof -
  have "map_ok m" using assms(1) by (simp add: sessions_ok_def)
  then have "map_find (map_assign h s' m) h = Some s'" by (simp add: std_map.lookup_assign)
  from removeSession_found [OF this assms(4) sessions_okD(2) [OF assms(1,2)], of w1]
  show ?thesis by (simp add: dispatch_def assms(2,3))
qed

text \<open>How the operator's disconnect is written and logged, as its one send turns out.\<close>

lemma operator_disconnect_outcome:
  assumes "operator_disconnect E s w = (s', w')" "session_ok s" "session_id s \<noteq> []"
    and hdr: "hdr = makeHeader DISCONNECT (session_id s) (nextServerSequence s) 0 0"
    and snd: "send_bytes (socketHandle s) (header_bytes hdr) w = (ok, w1)"
  shows "wnet w' = wnet w1"
    "logger w' = (if ok then logPacket (system_now E w) (logger w) ''TX'' hdr
       else logFault (system_now E w) (logger w) ''DisconnectSendFailure'' (stateToString CONNECTED)
              (lastClientSequenceNumber s))"
proof -
  define s2 where "s2 = snd (consumeServerSequence (if session_state s = TELEMETRY
                      then snd (session_transition s CONNECTED) else s))"
  have s2: "socketHandle s2 = socketHandle s" "session_state s2 = CONNECTED"
    "lastClientSequenceNumber s2 = lastClientSequenceNumber s"
    by (rule session_ok_cases [OF assms(2)];
        simp add: s2_def machine_simps consumeServerSequence_def assms(3))+
  have od: "operator_disconnect E s w =
      (if ok then (let w3 = dash_packet E ''TX'' hdr (log_packet E ''TX'' hdr w1);
                       s4 = snd (session_transition (touch s2 (steady_now E w3)) DISCONNECTED)
                   in (s4, updateDashboardAircraft E s4 [] (steady_tick w3)))
       else handleFault E ''DisconnectSendFailure'' s2 w1)"
    using snd unfolding hdr s2_def
    by (cases ok)
       (simp_all add: operator_disconnect_def Let_def case_prod_beta consumeServerSequence_def sendPacket_empty)
  have sn: "system_now E w1 = system_now E w" "logger w1 = logger w"
    using snd by (auto simp: send_bytes_def system_now_def Let_def case_prod_beta)
  show "wnet w' = wnet w1" "logger w' = (if ok then logPacket (system_now E w) (logger w) ''TX'' hdr
       else logFault (system_now E w) (logger w) ''DisconnectSendFailure'' (stateToString CONNECTED)
              (lastClientSequenceNumber s))"
    using assms(1) sn s2 handleFault_logger [of E "''DisconnectSendFailure''" s2 w1] unfolding od
    by (cases ok; auto simp: Let_def log_packet_def dest: handleFault_eqD(4))+
qed

text \<open>
  C23. An operator's disconnect is carried out, once and on nobody else: the phase makes one send of the
  session's DISCONNECT packet (\<open>send_bytes\<close>, the program's \<open>sendAll\<close> against the kernel), and what is
  on the socket is what that send put there: the whole packet where it reports success, logged as
  sent, and a proper prefix where it fails, logged as \<open>DisconnectSendFailure\<close>. Either way the
  session is removed, its socket closed once, and its aircraft shown as disconnected with its last
  telemetry; this request is cleared and no other; every other session, socket and dashboard entry
  and the operator's selection stay as they are; and the next iteration starts.
\<close>

theorem operator_disconnect_effect:
  assumes "server_inv m w" "map_find m h = Some s" "session_id s = i" "i \<noteq> []"
    and "disconnectRequestAircraftId (shared w) = i" "disconnect_phase E m w = (go, m', w')"
    and "hdr = makeHeader DISCONNECT i (nextServerSequence s) 0 0"
    and "send_bytes h (header_bytes hdr) w = (ok, w1)"
  shows "\<not> go \<and> map_find m' h = None \<and> closes (wnet w' h) = 1 \<and>
    outb (wnet w' h) = outb (wnet w1 h) \<and>
    (ok \<longrightarrow> outb (wnet w' h) = outb (wnet w h) @ header_bytes hdr) \<and>
    (\<not> ok \<longrightarrow> (\<exists>k<header_size. outb (wnet w' h) = outb (wnet w h) @ take k (header_bytes hdr))) \<and>
    logger w' = (if ok then logPacket (system_now E w) (logger w) ''TX'' hdr
       else logFault (system_now E w) (logger w) ''DisconnectSendFailure'' (stateToString CONNECTED)
              (lastClientSequenceNumber s)) \<and>
    (\<exists>a. map_find (aircraft (shared w')) i = Some a \<and> dash_state a = DISCONNECTED \<and>
       dash_telemetry a = latestTelemetry s \<and> dash_telemetryValid a = telemetryValid s) \<and>
    (\<forall>h'. h' \<noteq> h \<longrightarrow> map_find m' h' = map_find m h' \<and> wnet w' h' = wnet w h') \<and>
    (\<forall>k. k \<noteq> i \<longrightarrow> map_find (aircraft (shared w')) k = map_find (aircraft (shared w)) k) \<and>
    (selectedAircraftId (shared w) \<noteq> [] \<longrightarrow> selectedAircraftId (shared w') = selectedAircraftId (shared w)) \<and>
    disconnectRequestAircraftId (shared w') = [] \<and>
    weatherRequestAircraftId (shared w') = weatherRequestAircraftId (shared w)"
proof -
  let ?w0 = "w\<lparr>shared := (shared w)\<lparr>disconnectRequestAircraftId := []\<rparr>\<rparr>"
  have m: "sessions_ok m" using assms(1) by (simp add: server_inv_def)
  have inv1: "server_inv m ?w0"
    using server_inv_consume(2) [OF assms(1)] by (simp add: consumeDisconnectRequest_def)
  have f: "findSessionByAircraftId m i = Some h" using findSession_unique [OF m assms(2)] assms(3,4) by simp
  have ph: "dispatch (disconnect_op E) h m ?w0 = (go, m', w')"
    using disconnect_request_dispatched [OF assms(1,5,4) f, of E] assms(6) by auto
  note inv = disconnect_handler.dispatch_inv [OF inv1 ph]
  obtain s' w2 where od: "operator_disconnect E s ?w0 = (s', w2)" by (cases "operator_disconnect E s ?w0")
  then have op: "disconnect_op E m s ?w0 = (False, s', w2)" by (simp add: disconnect_op_def)
  note e = disconnect_handler.dispatch_entries [OF inv1 ph assms(2) op]
  note s = sessions_okD [OF m assms(2)]
  from operator_disconnect_run_ok [OF s(3), of m ?w0 E] assms(3,4)
  have han: "handled s ?w0 s' w2" and id: "session_id s' = i" and st: "session_state s' = DISCONNECTED"
    by (auto simp: run_ok_def od)
  have "socketHandle s' = h" using han s(1) by (simp add: handled_def)
  from dispatch_given_up [where op = "disconnect_op E", OF m assms(2) op this] ph
  have w': "\<not> go" "outb (wnet w' h) = outb (wnet w2 h)" "logger w' = logger w2" by auto
  have snd: "send_bytes (socketHandle s) (header_bytes hdr) ?w0 =
      (ok, w1\<lparr>shared := (shared w)\<lparr>disconnectRequestAircraftId := []\<rparr>\<rparr>)"
    using assms(8) s(1) by (auto simp: send_bytes_def Let_def case_prod_beta)
  note o = operator_disconnect_outcome [OF od s(3) _ _ snd, unfolded assms(3), OF assms(4,7)]
  have lt: "latestTelemetry s' = latestTelemetry s \<and> telemetryValid s' = telemetryValid s"
    using operator_disconnect_telemetry [OF od] .
  have "shown s' (shared w2)" using han inv1 by (simp add: handled_def server_inv_def)
  then have entry: "\<exists>a. map_find (aircraft (shared w')) i = Some a \<and> dash_state a = DISCONNECTED \<and>
       dash_telemetry a = latestTelemetry s \<and> dash_telemetryValid a = telemetryValid s"
    using id st assms(4) e(4) lt by (auto simp: shown_def)
  have "outb (wnet w' h) = outb (wnet w1 h)" using o(1) w'(2) by simp
  moreover obtain k where "k \<le> length (header_bytes hdr)" "ok \<longleftrightarrow> k = length (header_bytes hdr)"
    "outb (wnet w1 h) = outb (wnet w h) @ take k (header_bytes hdr)"
    using send_bytes_prefix [OF assms(8)] by metis
  moreover have "length (header_bytes hdr) = header_size" by (simp add: assms(7) wf_type_def length_header_bytes)
  moreover have lg: "logger w' = (if ok then logPacket (system_now E w) (logger w) ''TX'' hdr
       else logFault (system_now E w) (logger w) ''DisconnectSendFailure'' (stateToString CONNECTED)
              (lastClientSequenceNumber s))"
    using o(2) w'(3) by (simp add: system_now_def)
  moreover have others: "\<forall>k. k \<noteq> i \<longrightarrow> map_find (aircraft (shared w')) k = map_find (aircraft (shared w)) k"
    using e(1) id by simp
  moreover have sel: "selectedAircraftId (shared w) \<noteq> [] \<longrightarrow>
      selectedAircraftId (shared w') = selectedAircraftId (shared w)"
    using e(2) by simp
  ultimately have "outb (wnet w' h) = outb (wnet w1 h)"
    "ok \<longrightarrow> outb (wnet w' h) = outb (wnet w h) @ header_bytes hdr"
    "\<not> ok \<longrightarrow> (\<exists>k<header_size. outb (wnet w' h) = outb (wnet w h) @ take k (header_bytes hdr))"
    by (auto simp: le_less)
  with entry lg others sel inv w'(1) show ?thesis by (simp add: requests_def)
qed

theorem operator_disconnect_effect_witness:
  "map_find (fst (snd (disconnect_phase example_host [(4, example_session)] example_requests))) 4 = None \<and>
   outb (wnet (snd (snd (disconnect_phase example_host [(4, example_session)] example_requests))) 4) =
     header_bytes (makeHeader DISCONNECT ''AC-001'' 1 0 0) \<and>
   weatherRequestAircraftId (shared (snd (snd
     (disconnect_phase example_host [(4, example_session)] example_requests)))) = ''AC-001''"
proof -
  let ?hdr = "makeHeader DISCONNECT ''AC-001'' 1 0 0"
  have m: "map_find [(4, example_session)] (4 :: handle) = Some example_session" by (simp add: map_find_def)
  have l: "length (header_bytes ?hdr) = 29" by (simp add: wf_type_def length_header_bytes header_size_def)
  then have ne: "header_bytes ?hdr \<noteq> []" by (metis list.size(3) zero_neq_numeral)
  have tx: "tx (wnet example_requests 4) = Accepts 29 # []" by (simp add: example_world_def)
  obtain w1 where s: "send_bytes 4 (header_bytes ?hdr) example_requests = (True, w1)"
    using net_sendAll_whole [where n = "wnet example_requests" and h = 4, OF tx _ ne] l by (simp add: send_bytes_def max_chunk_def)
  have n: "nextServerSequence example_session = 1" by (simp add: example_session_def new_session_def)
  have o: "outb (wnet example_requests 4) = []" by (simp add: example_world_def)
  obtain go m' w' where d: "disconnect_phase example_host [(4, example_session)] example_requests = (go, m', w')"
    by (cases "disconnect_phase example_host [(4, example_session)] example_requests") auto
  have h: "session_id example_session = ''AC-001''" "''AC-001'' \<noteq> []"
    "disconnectRequestAircraftId (shared example_requests) = ''AC-001''"
    "?hdr = makeHeader DISCONNECT ''AC-001'' (nextServerSequence example_session) 0 0"
    using n by (simp_all add: example_session_def)
  note e = operator_disconnect_effect [OF example_requests_inv m h(1-3) d h(4) s]
  have "map_find m' 4 = None" "weatherRequestAircraftId (shared w') = ''AC-001''" using e by simp_all
  moreover have "outb (wnet w' 4) = header_bytes ?hdr" using e unfolding o append_Nil by blast
  ultimately show ?thesis by (simp add: d)
qed

text \<open>
  C30. The timeout phase removes exactly the sessions that are overdue at its clock reading: every
  other session is kept as it was, and the socket of each one removed is closed, once.
\<close>

theorem timeouts_exact:
  assumes "server_inv m w" "timeout_phase E m w = (m', w')"
  shows "map_find m' h = (case map_find m h of
      Some s \<Rightarrow> if timedOut s (steady_now E w) then None else Some s | None \<Rightarrow> None) \<and>
    (map_find m h \<noteq> None \<longrightarrow> closes (wnet w' h) = (if map_find m' h = None then 1 else 0))"
proof -
  have p: "server_inv m' w'" "shrinks m w m' w'" using timeout_phase_inv [OF assms] by simp_all
  have "closes (wnet w' h) = 0" if "map_find m' h \<noteq> None"
    using p(1) that by (auto simp: server_inv_def sockets_open_def)
  moreover have "closes (wnet w' h) = 1" if "map_find m h \<noteq> None" "map_find m' h = None"
    using p(2) that by (auto simp: shrinks_def)
  ultimately show ?thesis using timeout_phase_exact [OF assms, of h] by auto
qed

theorem timeouts_exact_witness:
  "map_find (fst (timeout_phase example_host [(4, example_session)] example_requests)) 4 =
     (if timedOut example_session 1000 then None else Some example_session)"
proof -
  have "steady_now example_host example_requests = 1000"
    by (simp add: steady_now_def example_host_def example_requests_def example_world_def)
  with timeouts_exact [OF example_requests_inv surjective_pairing, where E = example_host and h = 4]
  show ?thesis by (simp add: map_find_def)
qed

text \<open>
  The aircraft ids a session may write under on the dashboard: its own or, while it has none, the one
  in the header that stands first on its stream.
\<close>

definition announced_id :: "byte list \<Rightarrow> string" where
  "announced_id bs = extractAircraftId (aircraft_id (header_of_bytes (take header_size bs)))"

definition own_ids :: "SessionMap \<Rightarrow> net \<Rightarrow> handle \<Rightarrow> string list" where
  "own_ids m n h =
     (case map_find m h of
        None \<Rightarrow> []
      | Some s \<Rightarrow> [if session_id s = [] then announced_id (sock_readable (n h)) else session_id s])"

lemma handshake_id:
  assumes "processHandshake E m hdr s w = (a, s', w')"
  shows "session_id s' = session_id s \<or> session_id s' = extractAircraftId (aircraft_id hdr)"
  using assms
  by (auto simp: processHandshake_def Let_def dest: handleFault_eqD(2) split: if_splits prod.splits bool.splits)

lemma pending_id:
  assumes "processReadableSession E m s w = (a, s', w')" "session_state s = HANDSHAKE_PENDING"
  shows "session_id s' = session_id s \<or> session_id s' = announced_id (sock_readable (wnet w (socketHandle s)))"
proof -
  obtain r w1 where r: "recv_bytes (socketHandle s) header_size w = (r, w1)"
    by (cases "recv_bytes (socketHandle s) header_size w")
  have v: "r = Some hb \<Longrightarrow> hb = take header_size (sock_readable (wnet w (socketHandle s)))" for hb
    using net_recvAll_value [of "wnet w" "socketHandle s" header_size] r
    by (auto simp: recv_bytes_def Let_def split: prod.splits if_splits)
  show ?thesis
  proof (cases r)
    case None
    with assms r show ?thesis
      by (auto simp: processReadableSession_def dest: handleFault_eqD(2))
  next
    case (Some hb)
    with assms r handshake_id v [OF Some] show ?thesis
      by (force simp: processReadableSession_def Let_def announced_id_def)
  qed
qed

text \<open>
  C22. Clients are isolated: handling whatever one session sends, faults and removal included,
  changes no other session and no other socket, leaves the operator's two requests alone, and the
  selected aircraft too where one is selected. On the dashboard no entry changes in any field,
  departed aircraft included, but the one under the session's own id or, while it has none, under
  the id its first header announces; and that is never the id of another session. (The log of
  recent packets, which all sessions share, is the one thing left: it gets this session's lines.)
\<close>

theorem sessions_isolated:
  assumes "server_inv m w" "dispatch (read_op E) h m w = (alive, m', w')"
  shows "(\<forall>h'. h' \<noteq> h \<longrightarrow> map_find m' h' = map_find m h' \<and> wnet w' h' = wnet w h') \<and>
    weatherRequestAircraftId (shared w') = weatherRequestAircraftId (shared w) \<and>
    disconnectRequestAircraftId (shared w') = disconnectRequestAircraftId (shared w) \<and>
    (selectedAircraftId (shared w) \<noteq> [] \<longrightarrow> selectedAircraftId (shared w') = selectedAircraftId (shared w)) \<and>
    (\<forall>k. k \<notin> set (own_ids m (wnet w) h) \<longrightarrow>
       map_find (aircraft (shared w')) k = map_find (aircraft (shared w)) k) \<and>
    (\<forall>h' s. h' \<noteq> h \<longrightarrow> map_find m h' = Some s \<longrightarrow> session_id s \<noteq> [] \<longrightarrow>
       map_find (aircraft (shared w')) (session_id s) = map_find (aircraft (shared w)) (session_id s))"
proof -
  note d = read_handler.dispatch_inv [OF assms]
  have m: "sessions_ok m" and dok: "dashboard_ok (shared w)" "dashboard_ok (shared w')"
    using assms(1) d by (simp_all add: server_inv_def)
  have "(selectedAircraftId (shared w) \<noteq> [] \<longrightarrow> selectedAircraftId (shared w') = selectedAircraftId (shared w)) \<and>
    (\<forall>k. k \<notin> set (own_ids m (wnet w) h) \<longrightarrow>
       map_find (aircraft (shared w')) k = map_find (aircraft (shared w)) k) \<and>
    (\<forall>h' s. h' \<noteq> h \<longrightarrow> map_find m h' = Some s \<longrightarrow> session_id s \<noteq> [] \<longrightarrow>
       map_find (aircraft (shared w')) (session_id s) = map_find (aircraft (shared w)) (session_id s))"
  proof (cases "map_find m h")
    case None
    with assms(2) show ?thesis by (simp add: dispatch_def)
  next
    case (Some s)
    obtain a s' w1 where r: "read_op E m s w = (a, s', w1)" by (cases "read_op E m s w") auto
    note e = read_handler.dispatch_entries [OF assms Some r]
    note s = sessions_okD [OF m Some]
    have no_entry: "map_find (aircraft d) [] = None" if "dashboard_ok d" for d
      using dashboard_key [OF that] by (cases "map_find (aircraft d) []") auto
    have own: "session_id s' = [] \<or> session_id s' \<in> set (own_ids m (wnet w) h)"
    proof (rule session_ok_cases [OF s(3)])
      assume "session_state s = HANDSHAKE_PENDING" "session_id s = []"
      with pending_id [OF r [unfolded read_op_def]] s(1) Some show ?thesis by (auto simp: own_ids_def)
    qed (use e(3) Some in \<open>auto simp: own_ids_def\<close>)
    have "map_find (aircraft (shared w')) k = map_find (aircraft (shared w)) k"
      if "k \<notin> set (own_ids m (wnet w) h)" for k
      using e(1) [of k] own that no_entry [OF dok(1)] no_entry [OF dok(2)] by (cases "k = session_id s'") auto
    moreover have "map_find (aircraft (shared w')) (session_id s2) = map_find (aircraft (shared w)) (session_id s2)"
      if "h2 \<noteq> h" "map_find m h2 = Some s2" "session_id s2 \<noteq> []" for h2 s2
    proof -
      have "session_id s2 \<noteq> session_id s'"
        using e(3) that Some m ids_unique_free [of m h s] unfolding sessions_ok_def id_free_def by metis
      then show ?thesis by (rule e(1))
    qed
    ultimately show ?thesis using e(2) by blast
  qed
  with d show ?thesis unfolding requests_def by simp
qed

theorem sessions_isolated_witness:
  "wnet (snd (snd (dispatch (read_op example_host) 4 [(4, example_session)] example_requests))) 5 =
     wnet example_requests 5 \<and>
   map_find (aircraft (shared (snd (snd
     (dispatch (read_op example_host) 4 [(4, example_session)] example_requests))))) ''AC-002'' =
     map_find (aircraft (shared example_requests)) ''AC-002''"
proof -
  have "''AC-002'' \<notin> set (own_ids [(4, example_session)] (wnet example_requests) 4)"
    by (simp add: own_ids_def map_find_def)
  with sessions_isolated [OF example_requests_inv, of example_host 4] show ?thesis
    by (cases "dispatch (read_op example_host) 4 [(4, example_session)] example_requests") auto
qed

end
