(* ===== verification/Server_Wire.thy ===== *)
theory Server_Wire
  imports Server_Run "HOL-Library.Sublist"
begin

text \<open>
  What the server puts on the wire, over all its runs: to every connection a refusal, or an
  acknowledgement followed by weather maps, numbered from one, and a farewell; of the last of these
  possibly only a beginning. The locale \<open>talking_handler\<close> extends the contract of the handlers by
  what they write.
\<close>

subsection \<open>The language of a connection\<close>

definition answer :: "string \<Rightarrow> u32 \<Rightarrow> byte list" where
  "answer i n = header_bytes (makeHeader HANDSHAKE_ACK i n 0 0)"

definition refusal :: "string \<Rightarrow> u32 \<Rightarrow> byte list" where
  "refusal i n = header_bytes (makeHeader HANDSHAKE_FAIL i n 0 0)"

definition farewell :: "string \<Rightarrow> u32 \<Rightarrow> byte list" where
  "farewell i n = header_bytes (makeHeader DISCONNECT i n 0 0)"

definition map_head :: "string \<Rightarrow> u32 \<Rightarrow> byte list \<Rightarrow> PacketHeader" where
  "map_head i n d = makeHeader LARGE_FILE i n (word_of_nat (length d)) (computeChecksum d (word_of_nat (length d)))"

definition map_packet :: "string \<Rightarrow> u32 \<Rightarrow> byte list \<Rightarrow> byte list" where
  "map_packet i n d = header_bytes (map_head i n d) @ d"

text \<open>Maps sent one after the other, and all that is sent to an aircraft before the farewell.\<close>

fun maps_from :: "string \<Rightarrow> u32 \<Rightarrow> byte list list \<Rightarrow> byte list" where
  "maps_from i n [] = []"
| "maps_from i n (d # ds) = map_packet i n d @ maps_from i (n + 1) ds"

definition server_talk :: "string \<Rightarrow> u32 \<Rightarrow> byte list list \<Rightarrow> byte list" where
  "server_talk i n ds = answer i n @ maps_from i 1 ds"

definition next_number :: "byte list list \<Rightarrow> u32" where
  "next_number ds = 1 + word_of_nat (length ds)"

text \<open>
  A map's data: what was read back from the file that the map generated for this aircraft and this
  number was written to (all of it, below 4 GiB).
\<close>

definition genuine_map :: "host \<Rightarrow> string \<Rightarrow> u32 \<Rightarrow> byte list \<Rightarrow> bool" where
  "genuine_map E i n d \<longleftrightarrow>
     length d < 2 ^ 32 \<and>
     (\<exists>path ctx bytes. ctx_id ctx = i \<and> disk E path (written_map E ctx n) = Some bytes \<and>
        d = take (length d) bytes \<and> (length bytes < 2 ^ 32 \<longrightarrow> d = bytes))"

fun genuine_maps :: "host \<Rightarrow> string \<Rightarrow> u32 \<Rightarrow> byte list list \<Rightarrow> bool" where
  "genuine_maps E i n [] = True"
| "genuine_maps E i n (d # ds) = (genuine_map E i n d \<and> genuine_maps E i (n + 1) ds)"

definition server_line :: "host \<Rightarrow> byte list \<Rightarrow> bool" where
  "server_line E bs \<longleftrightarrow>
     (\<exists>i n. prefix bs (refusal i n)) \<or>
     (\<exists>i n ds. validateAircraftId i \<and> genuine_maps E i 1 ds \<and>
        prefix bs (server_talk i n ds @ farewell i (next_number ds)))"

lemma maps_from_snoc: "maps_from i n (ds @ [d]) = maps_from i n ds @ map_packet i (n + word_of_nat (length ds)) d"
  by (induction ds arbitrary: n) (simp_all add: add.assoc)

lemma server_talk_snoc: "server_talk i n (ds @ [d]) = server_talk i n ds @ map_packet i (next_number ds) d"
  by (simp add: server_talk_def maps_from_snoc next_number_def)

lemma genuine_maps_snoc:
  "genuine_maps E i n (ds @ [d]) \<longleftrightarrow> genuine_maps E i n ds \<and> genuine_map E i (n + word_of_nat (length ds)) d"
  by (induction ds arbitrary: n) (auto simp: add.assoc)

lemma next_number_snoc: "next_number (ds @ [d]) = next_number ds + 1"
  by (simp add: next_number_def)

lemma server_line_Nil [simp]: "server_line E []"
  by (simp add: server_line_def)

subsection \<open>A session and its wire\<close>

definition talks :: "host \<Rightarrow> ClientSession \<Rightarrow> byte list \<Rightarrow> bool" where
  "talks E s bs \<longleftrightarrow>
     (if session_state s = HANDSHAKE_PENDING then bs = [] \<and> nextServerSequence s = 1
      else (\<exists>n ds. genuine_maps E (session_id s) 1 ds \<and> bs = server_talk (session_id s) n ds \<and>
              nextServerSequence s = next_number ds))"

definition talk_result :: "host \<Rightarrow> ClientSession \<Rightarrow> bool \<times> ClientSession \<times> world \<Rightarrow> bool" where
  "talk_result E s r \<longleftrightarrow>
     (case r of (alive, s', w') \<Rightarrow>
        if alive then talks E s' (outgoing w' s) else server_line E (outgoing w' s))"

lemma talks_line:
  assumes "talks E s bs" "session_ok s"
  shows "server_line E bs"
proof (cases "session_state s = HANDSHAKE_PENDING")
  case True
  with assms(1) show ?thesis by (simp add: talks_def)
next
  case False
  then have "validateAircraftId (session_id s)" using assms(2) by (auto simp: session_ok_def)
  with assms(1) False show ?thesis
    unfolding server_line_def talks_def by (auto intro!: exI simp: prefix_def)
qed

text \<open>What a line can still be given: a beginning of the next map, or of the farewell.\<close>

lemma line_map:
  assumes "validateAircraftId i" "genuine_maps E i 1 ds" "genuine_map E i (next_number ds) d"
    "prefix b (map_packet i (next_number ds) d)"
  shows "server_line E (server_talk i n ds @ b)"
proof -
  have "genuine_maps E i 1 (ds @ [d])" using assms(2,3) by (simp add: genuine_maps_snoc next_number_def)
  moreover have "prefix (server_talk i n ds @ b) (server_talk i n (ds @ [d]) @ farewell i (next_number (ds @ [d])))"
    using assms(4) by (simp add: server_talk_snoc prefix_prefix)
  ultimately show ?thesis using assms(1) unfolding server_line_def by blast
qed

lemma line_farewell:
  assumes "validateAircraftId i" "genuine_maps E i 1 ds" "prefix b (farewell i (next_number ds))"
  shows "server_line E (server_talk i n ds @ b)"
  unfolding server_line_def using assms by (intro disjI2 exI [of _ i] exI [of _ n] exI [of _ ds]) simp

lemma line_answer:
  assumes "validateAircraftId i" "prefix b (answer i n)"
  shows "server_line E b"
proof -
  have "prefix b (server_talk i n [] @ farewell i (next_number []))"
    using assms(2) by (simp add: server_talk_def prefix_prefix)
  then show ?thesis
    using assms(1) unfolding server_line_def by (intro disjI2 exI [of _ i] exI [of _ n] exI [of _ "[]"]) simp
qed

lemma talks_more:
  assumes "session_state s' \<noteq> HANDSHAKE_PENDING" "session_id s' = i" "nextServerSequence s' = next_number ds + 1"
    "genuine_maps E i 1 ds" "genuine_map E i (next_number ds) d"
  shows "talks E s' (server_talk i n ds @ map_packet i (next_number ds) d)"
proof -
  have "genuine_maps E i 1 (ds @ [d])" using assms(4,5) by (simp add: genuine_maps_snoc next_number_def)
  with assms(1-3) show ?thesis
    unfolding talks_def by (auto simp: server_talk_snoc next_number_snoc intro!: exI [of _ "ds @ [d]"])
qed


subsection \<open>What the handlers write\<close>

lemma talk_fault:
  "server_line E (outgoing w1 s) \<Longrightarrow> talk_result E s (fail_with E' c s1 w1)"
  using handleFault_net [of E' c s1 w1] by (cases "handleFault E' c s1 w1") (simp add: talk_result_def fail_with_def)

lemma recv_bytes_out: "recv_bytes h k w = (r, w') \<Longrightarrow> outb (wnet w' h') = outb (wnet w h')"
  by (auto simp: recv_bytes_def net_recvAll_outb split: prod.splits)

lemma payload_out: "receivePacketPayload h hdr w = (r, w') \<Longrightarrow> outb (wnet w' h') = outb (wnet w h')"
  by (auto simp: receivePacketPayload_def recv_bytes_out split: if_splits)

lemma send_chunks_out:
  "send_chunks h data (length data) off w = (ok, w') \<Longrightarrow>
     \<exists>b. prefix b (drop off data) \<and> outb (wnet w' h) = outb (wnet w h) @ b"
proof (induction "length data - off" arbitrary: off w rule: less_induct)
  case less
  show ?case
  proof (cases "off < length data")
    case False
    with less.prems show ?thesis by (simp add: send_chunks.simps [of h data "length data" off])
  next
    case True
    let ?c = "take (min kChunkSize (length data - off)) (drop off data)"
    obtain b w1 where s: "send_bytes h ?c w = (b, w1)" by (cases "send_bytes h ?c w")
    obtain k where k: "k \<le> length ?c" "b \<longleftrightarrow> k = length ?c" "outb (wnet w1 h) = outb (wnet w h) @ take k ?c"
      using s by (rule send_bytes_prefix)
    show ?thesis
    proof (cases b)
      case False
      with less.prems True s have "w' = w1" by (simp add: send_chunks.simps [of h data "length data" off])
      moreover have "prefix (take k ?c) (drop off data)" by (simp add: take_is_prefix)
      ultimately show ?thesis using k(3) by blast
    next
      case b: True
      with less.prems True s have rec: "send_chunks h data (length data) (off + kChunkSize) w1 = (ok, w')"
        by (simp add: send_chunks.simps [of h data "length data" off])
      have "length data - (off + kChunkSize) < length data - off" using True by (simp add: kChunkSize_def)
      from less.hyps [OF this rec] obtain b' where
        b': "prefix b' (drop (off + kChunkSize) data)" "outb (wnet w' h) = outb (wnet w1 h) @ b'" by blast
      have "?c @ drop (off + kChunkSize) data = drop off data"
      proof (cases "kChunkSize \<le> length data - off")
        case True
        then have "?c = take kChunkSize (drop off data)" by simp
        then show ?thesis by (metis append_take_drop_id drop_drop add.commute)
      qed simp
      then have "prefix (?c @ b') (drop off data)" using b'(1) by (metis same_prefix_prefix)
      moreover have "outb (wnet w' h) = outb (wnet w h) @ ?c @ b'" using b'(2) k b by simp
      ultimately show ?thesis by blast
    qed
  qed
qed

lemma transmit_map_out:
  assumes "transmit_map h hdr data w = (r, w')"
  shows "\<exists>b. prefix b (header_bytes hdr @ data) \<and> outb (wnet w' h) = outb (wnet w h) @ b"
proof -
  obtain b w1 where s: "send_bytes h (header_bytes hdr) w = (b, w1)" by (cases "send_bytes h (header_bytes hdr) w")
  obtain k where k: "k \<le> length (header_bytes hdr)" "b \<longleftrightarrow> k = length (header_bytes hdr)"
    "outb (wnet w1 h) = outb (wnet w h) @ take k (header_bytes hdr)"
    using s by (rule send_bytes_prefix)
  show ?thesis
  proof (cases b)
    case False
    with assms s have "w' = w1" by (simp add: transmit_map_def)
    with k(3) show ?thesis by (intro exI [of _ "take k (header_bytes hdr)"]) (simp add: prefix_prefix take_is_prefix)
  next
    case True
    obtain c w2 where c: "send_chunks h data (length data) 0 w1 = (c, w2)"
      by (cases "send_chunks h data (length data) 0 w1")
    with assms s True have "w' = w2" by (simp add: transmit_map_def split: bool.splits)
    with send_chunks_out [OF c] k True show ?thesis by auto
  qed
qed

text \<open>A transfer: nothing, or a beginning of the next map, all of it if it succeeds.\<close>

lemma sendWeatherMap_out:
  assumes "sendWeatherMap E s w = (ok, s', w')"
  shows "\<not> ok \<and> outgoing w' s = outgoing w s \<or>
    (\<exists>d b. genuine_map E (session_id s) (nextServerSequence s) d \<and>
       prefix b (map_packet (session_id s) (nextServerSequence s) d) \<and> outgoing w' s = outgoing w s @ b \<and>
       (ok \<longrightarrow> b = map_packet (session_id s) (nextServerSequence s) d))"
proof -
  obtain t s1 where st: "transfer_start s = (t, s1)" by (cases "transfer_start s")
  note s1 = transfer_start_eqD [OF st]
  show ?thesis
  proof (cases t)
    case False
    with assms st handleFault_net [of E "''IllegalFileTransferTransition''" s1 w] show ?thesis
      by (simp add: sendWeatherMap_def)
  next
    case True
    let ?n = "nextServerSequence s" and ?w1 = "updateDashboardAircraft E s1 [] w"
    have n: "serverSequence s1 = ?n" using s1(3) by (simp add: serverSequence_def)
    obtain r w2 where ld: "load_map E s1 ?n ?w1 = (r, w2)" by (cases "load_map E s1 ?n ?w1")
    note l = load_map_eqD [OF ld]
    show ?thesis
    proof (cases r)
      case (Inl c)
      with assms st True ld n handleFault_net [of E c s1 w2] l(2) show ?thesis
        by (simp add: sendWeatherMap_def Let_def)
    next
      case (Inr pd)
      obtain path d where pd: "pd = (path, d)" by (cases pd)
      from l(4) [of path d] Inr pd s1(4) have g: "genuine_map E (session_id s) ?n d"
        unfolding genuine_map_def
        by (auto simp: weatherMapContextFor_def intro!: exI [of _ path] exI [of _ "weatherMapContextFor s"])
      let ?s2 = "snd (consumeServerSequence s1)" and ?hdr = "map_header s1 ?n d"
      have hd: "?hdr = map_head (session_id s) ?n d" using s1(2) by (simp add: map_header_def map_head_def Let_def)
      obtain q w3 where tr: "transmit_map (socketHandle ?s2) ?hdr d w2 = (q, w3)"
        by (cases "transmit_map (socketHandle ?s2) ?hdr d w2")
      obtain b where b: "prefix b (map_packet (session_id s) ?n d)" "outgoing w3 s = outgoing w s @ b"
        using transmit_map_out [OF tr] l(2) s1(1) by (auto simp: map_packet_def hd)
      show ?thesis
      proof (cases q)
        case (Some c)
        with assms st True ld n Inr pd tr have "\<not> ok" "wnet w' = wnet w3"
          by (auto simp: sendWeatherMap_def Let_def dest: handleFault_eqD(4))
        with g b show ?thesis by auto
      next
        case None
        have "b = map_packet (session_id s) ?n d"
          using transmit_map_data [OF tr [unfolded None]] b(2) l(2) s1(1) by (simp add: map_packet_def hd)
        moreover have "wnet w' = wnet w3"
        proof -
          obtain s'' w'' where d: "transfer_done E ?s2 path ?hdr w3 = (s'', w'')"
            by (cases "transfer_done E ?s2 path ?hdr w3")
          with assms st True ld n Inr pd tr None have "w' = w''" by (simp add: sendWeatherMap_def Let_def)
          with transfer_done_eqD(5) [OF d] show ?thesis by simp
        qed
        ultimately show ?thesis using g b by auto
      qed
    qed
  qed
qed

lemma sendWeatherMap_talk:
  assumes "session_ok s" "talks E s (outgoing w s)"
  shows "talk_result E s (sendWeatherMap E s w)"
proof -
  obtain ok s' w' where r: "sendWeatherMap E s w = (ok, s', w')" by (cases "sendWeatherMap E s w") auto
  note out = sendWeatherMap_out [OF r] and fr = sendWeatherMap_frame [OF r]
  show ?thesis
  proof (cases "session_state s = HANDSHAKE_PENDING")
    case True
    then have "\<not> ok" using fr by (auto simp: active_states_def)
    moreover have "outgoing w s = []" using assms(2) True by (simp add: talks_def)
    moreover have "outgoing w' s = outgoing w s"
    proof -
      obtain t s1 where st: "transfer_start s = (t, s1)" by (cases "transfer_start s")
      with transfer_start_eqD(5) [OF st] True have "\<not> t" by (simp add: active_states_def)
      with r st show ?thesis by (auto simp: sendWeatherMap_def dest: handleFault_eqD(4))
    qed
    ultimately have "outgoing w' s = []" by simp
    with r \<open>\<not> ok\<close> show ?thesis by (simp add: talk_result_def)
  next
    case False
    then obtain n ds where ds: "genuine_maps E (session_id s) 1 ds" "outgoing w s = server_talk (session_id s) n ds"
      "nextServerSequence s = next_number ds"
      using assms(2) by (auto simp: talks_def)
    have v: "validateAircraftId (session_id s)" using assms(1) False by (auto simp: session_ok_def)
    show ?thesis
    proof (cases ok)
      case True
      with out ds obtain d where "genuine_map E (session_id s) (next_number ds) d"
        "outgoing w' s = server_talk (session_id s) n ds @ map_packet (session_id s) (next_number ds) d" by auto
      with talks_more [of s' "session_id s" ds E d n] fr True ds transfer_sent [of E s w s' w'] r show ?thesis
        by (auto simp: talk_result_def)
    next
      case no: False
      from out ds v have "server_line E (outgoing w' s)"
        using talks_line [OF assms(2,1)] line_map [OF v ds(1)] by auto
      with r no show ?thesis by (simp add: talk_result_def)
    qed
  qed
qed


lemma sendPacket_out:
  assumes "sendPacket h hdr [] w = (ok, w')" "payload_size hdr = 0"
  shows "\<exists>b. prefix b (header_bytes hdr) \<and> outb (wnet w' h) = outb (wnet w h) @ b \<and> (ok \<longrightarrow> b = header_bytes hdr)"
proof -
  have "send_bytes h (header_bytes hdr) w = (ok, w')" using assms by (simp add: sendPacket_empty)
  then obtain k where "k \<le> length (header_bytes hdr)" "ok \<longleftrightarrow> k = length (header_bytes hdr)"
    "outb (wnet w' h) = outb (wnet w h) @ take k (header_bytes hdr)"
    by (rule send_bytes_prefix)
  then show ?thesis by (intro exI [of _ "take k (header_bytes hdr)"]) (simp add: take_is_prefix)
qed

lemma handshake_talk:
  assumes "session_state s = HANDSHAKE_PENDING" "talks E s (outgoing w s)"
  shows "talk_result E s (processHandshake E m hdr s w)"
proof -
  let ?i = "extractAircraftId (aircraft_id hdr)"
  let ?used = "aircraftIdInUse (activeSessionSummaries m) (socketHandle s) ?i"
  have o: "outgoing w s = []" "nextServerSequence s = 1" using assms by (simp_all add: talks_def)
  show ?thesis
  proof (cases "isValidHandshakeRequest hdr ?i ?used")
    case False
    let ?f = "makeHeader HANDSHAKE_FAIL ?i (sequence_number hdr) 0 0"
    obtain b w1 where snd: "sendPacket (socketHandle s) ?f [] w = (b, w1)" by (cases "sendPacket (socketHandle s) ?f [] w")
    have "server_line E (outgoing w1 s)"
      using sendPacket_out [OF snd] o unfolding server_line_def refusal_def by auto
    with False snd show ?thesis by (simp add: processHandshake_def Let_def talk_result_def)
  next
    case True
    then have v: "validateAircraftId ?i" by (simp add: isValidHandshakeRequest_def)
    let ?n = "sequence_number hdr"
    define s2 where "s2 = markPacketReceived (setAircraftId s ?i) ?n (steady_now E w)"
    have s2: "socketHandle s2 = socketHandle s" "session_id s2 = ?i" "session_state s2 = HANDSHAKE_PENDING"
      "nextServerSequence s2 = 1"
      using assms(1) o by (simp_all add: s2_def)
    let ?a = "makeHeader HANDSHAKE_ACK ?i ?n 0 0"
    obtain b w2 where snd: "sendPacket (socketHandle s) ?a [] (steady_tick w) = (b, w2)"
      by (cases "sendPacket (socketHandle s) ?a [] (steady_tick w)")
    have out: "prefix (outgoing w2 s) (answer ?i ?n)" "b \<Longrightarrow> outgoing w2 s = answer ?i ?n"
      using sendPacket_out [OF snd] o by (auto simp: answer_def)
    show ?thesis
    proof (cases b)
      case False
      have "processHandshake E m hdr s w = fail_with E ''HandshakeAckSendFailure'' s2 w2"
        using True False snd s2(1) by (simp add: processHandshake_def Let_def s2_def)
      with talk_fault [OF line_answer [OF v out(1)]] show ?thesis by simp
    next
      case b: True
      define w4 where "w4 = dash_packet E ''TX'' ?a (log_packet E ''TX'' ?a w2)"
      define s4 where "s4 = snd (session_transition (touch s2 (steady_now E w4)) CONNECTED)"
      have "processHandshake E m hdr s w = (True, s4, updateDashboardAircraft E s4 [] (steady_tick w4))"
        using True b snd s2(1) by (simp add: processHandshake_def Let_def s2_def s4_def w4_def)
      moreover have "session_state s4 = CONNECTED" "session_id s4 = ?i" "nextServerSequence s4 = 1"
        using s2 by (simp_all add: s4_def machine_simps)
      moreover have "outgoing w4 s = server_talk ?i ?n []" using out(2) b by (simp add: w4_def server_talk_def)
      ultimately show ?thesis
        by (auto simp: talk_result_def talks_def next_number_def intro!: exI [of _ ?n] exI [of _ "[]"])
    qed
  qed
qed

lemma process_telemetry_out:
  assumes "process_telemetry E hdr p s w = (alive, s', w')"
  shows "wnet w' = wnet w" "alive \<Longrightarrow> session_state s' = TELEMETRY" "session_id s' = session_id s"
    "alive \<Longrightarrow> nextServerSequence s' = nextServerSequence s"
  using assms
  by (auto simp: process_telemetry_def Let_def split: if_splits dest: handleFault_eqD)

lemma packet_talk:
  assumes "session_ok s" "session_state s \<noteq> HANDSHAKE_PENDING" "talks E s (outgoing w s)"
  shows "talk_result E s (process_packet E hdr p s w)"
proof -
  note line = talks_line [OF assms(3,1)]
  have d: "talk_result E s (process_disconnect E s w)"
    using line by (simp add: process_disconnect_def Let_def talk_result_def)
  obtain alive s' w' where t: "process_telemetry E hdr p s w = (alive, s', w')"
    by (cases "process_telemetry E hdr p s w") auto
  note o = process_telemetry_out [OF t]
  have "talk_result E s (process_telemetry E hdr p s w)"
    using assms(2,3) line o by (auto simp: t talk_result_def talks_def)
  with d line sendWeatherMap_talk [OF assms(1,3)] show ?thesis
    by (auto simp: process_packet_def talk_fault split: PacketType.split)
qed

lemma talk_result_same:
  "talk_result E s1 r \<Longrightarrow> socketHandle s1 = socketHandle s \<Longrightarrow> talk_result E s r"
  by (cases r) (auto simp: talk_result_def split: if_splits)

lemma read_talk:
  assumes "session_ok s" "talks E s (outgoing w s)"
  shows "talk_result E s (processReadableSession E m s w)"
proof -
  obtain r w1 where rd: "recv_bytes (socketHandle s) header_size w = (r, w1)"
    by (cases "recv_bytes (socketHandle s) header_size w")
  have o1: "outgoing w1 s = outgoing w s" using recv_bytes_out [OF rd] .
  note line = talks_line [OF assms(2,1)]
  show ?thesis
  proof (cases r)
    case None
    with rd o1 line show ?thesis by (simp add: processReadableSession_def talk_fault)
  next
    case (Some hb)
    let ?hdr = "header_of_bytes hb"
    define w3 where "w3 = dash_packet E ''RX'' ?hdr (log_packet E ''RX'' ?hdr w1)"
    have o3: "outgoing w3 s = outgoing w s" using o1 by (simp add: w3_def)
    show ?thesis
    proof (cases "session_state s = HANDSHAKE_PENDING")
      case True
      have "processReadableSession E m s w = processHandshake E m ?hdr s w3"
        using rd Some True by (simp add: processReadableSession_def Let_def w3_def [symmetric])
      with handshake_talk [OF True, of E w3] assms(2) o3 show ?thesis by simp
    next
      case False
      define s1 where "s1 = markPacketReceived s (sequence_number ?hdr) (steady_now E w3)"
      have s1: "socketHandle s1 = socketHandle s" "session_ok s1" "session_state s1 \<noteq> HANDSHAKE_PENDING"
        using assms(1) False by (simp_all add: s1_def session_ok_def)
      obtain q w5 where pl: "receivePacketPayload (socketHandle s) ?hdr (steady_tick w3) = (q, w5)"
        by (cases "receivePacketPayload (socketHandle s) ?hdr (steady_tick w3)")
      have o5: "outgoing w5 s = outgoing w s" using payload_out [OF pl] o3 by simp
      have "talks E s1 (outgoing w5 s1)" using assms(2) o5 by (simp add: s1_def talks_def)
      note pk = talk_result_same [OF packet_talk [OF s1(2,3) this] s1(1)]
      have "processReadableSession E m s w =
          (case q of None \<Rightarrow> fail_with E ''PayloadReceiveFailure'' s1 w5
           | Some payload \<Rightarrow> process_packet E ?hdr payload s1 w5)"
        using rd Some False pl by (simp add: processReadableSession_def Let_def w3_def s1_def split: option.split)
      with pk line o5 show ?thesis by (simp add: talk_fault split: option.split)
    qed
  qed
qed

lemma operator_disconnect_talk:
  assumes "session_ok s" "session_state s \<noteq> HANDSHAKE_PENDING" "talks E s (outgoing w s)"
  shows "talk_result E s (False, operator_disconnect E s w)"
proof -
  obtain s' w' where r: "operator_disconnect E s w = (s', w')" by (cases "operator_disconnect E s w")
  obtain k where k: "outgoing w' s = outgoing w s @ take k (farewell (session_id s) (nextServerSequence s))"
    using operator_disconnect_sent [OF r] by (auto simp: farewell_def)
  have v: "validateAircraftId (session_id s)" using assms(1,2) by (auto simp: session_ok_def)
  obtain n ds where ds: "genuine_maps E (session_id s) 1 ds" "outgoing w s = server_talk (session_id s) n ds"
    "nextServerSequence s = next_number ds"
    using assms(2,3) by (auto simp: talks_def)
  have "server_line E (outgoing w' s)"
    unfolding k ds(2,3) by (rule line_farewell [OF v ds(1) take_is_prefix])
  with r show ?thesis by (simp add: talk_result_def)
qed

subsection \<open>The contract and its clients\<close>

locale talking_handler = session_handler +
  fixes E :: host and pre :: "ClientSession \<Rightarrow> bool"
  assumes talk_run:
    "session_ok s \<Longrightarrow> pre s \<Longrightarrow> talks E s (outgoing w s) \<Longrightarrow> talk_result E s (op m s w)"

interpretation talking_weather: talking_handler "weather_op E" E "\<lambda>s. True"
  by unfold_locales (simp add: weather_op_def sendWeatherMap_talk)

interpretation talking_disconnect: talking_handler "disconnect_op E" E "\<lambda>s. session_state s \<noteq> HANDSHAKE_PENDING"
  by unfold_locales (simp add: disconnect_op_def operator_disconnect_talk)

interpretation talking_timeout: talking_handler "timeout_op E" E "\<lambda>s. True"
  by unfold_locales (use talk_fault talks_line in \<open>simp add: timeout_op_def fail_with_def [symmetric]\<close>)

interpretation talking_read: talking_handler "read_op E" E "\<lambda>s. True"
  by unfold_locales (simp add: read_op_def read_talk)

text \<open>Every connection ever accepted: open ones as their session says, the others at rest.\<close>

definition lines_ok :: "host \<Rightarrow> handle list \<Rightarrow> SessionMap \<Rightarrow> world \<Rightarrow> bool" where
  "lines_ok E hs m w \<longleftrightarrow>
     (\<forall>h s. map_find m h = Some s \<longrightarrow> talks E s (outb (wnet w h))) \<and>
     (\<forall>h\<in>set hs. map_find m h = None \<longrightarrow> server_line E (outb (wnet w h)))"

lemma lines_frame: "lines_ok E hs m w \<Longrightarrow> wnet w' = wnet w \<Longrightarrow> lines_ok E hs m w'"
  by (simp add: lines_ok_def)

context talking_handler
begin

lemma dispatch_talk:
  assumes inv: "server_inv m w" and lines: "lines_ok E hs m w" and run: "dispatch op h m w = (alive, m', w')"
    and p: "\<And>s. map_find m h = Some s \<Longrightarrow> pre s"
  shows "lines_ok E hs m' w'"
proof (cases "map_find m h")
  case None
  with run lines show ?thesis by (simp add: dispatch_def)
next
  case (Some s)
  have mok: "sessions_ok m" using inv by (simp add: server_inv_def)
  have ok: "map_ok m" using mok by (simp add: sessions_ok_def)
  note s = sessions_okD [OF mok Some] and d = dispatch_inv [OF inv run]
  obtain a s' w1 where r: "op m s w = (a, s', w1)" by (cases "op m s w") auto
  have "run_ok m s w (op m s w)" using mok Some s by (intro contract) simp_all
  then have h': "socketHandle s' = h" using s(1) by (auto simp: run_ok_def handled_def r)
  have "talks E s (outgoing w s)" using lines Some s(1) by (simp add: lines_ok_def)
  from talk_run [OF s(3) p [OF Some] this, of m] have t: "talk_result E s (a, s', w1)" by (simp add: r)
  have same: "map_find m' h2 = map_find m h2" "wnet w' h2 = wnet w h2" if "h2 \<noteq> h" for h2
    using d that by simp_all
  have here: "map_find m' h = Some s2 \<Longrightarrow> talks E s2 (outb (wnet w' h))" "map_find m' h = None \<Longrightarrow> server_line E (outb (wnet w' h))" for s2
  proof -
    have "(\<forall>s2. map_find m' h = Some s2 \<longrightarrow> talks E s2 (outb (wnet w' h))) \<and>
        (map_find m' h = None \<longrightarrow> server_line E (outb (wnet w' h)))"
    proof (cases a)
      case True
      with r run Some have "m' = map_assign h s' m" "w' = w1" by (simp_all add: dispatch_def)
      with t True s(1) show ?thesis by (simp add: std_map.lookup_assign ok talk_result_def)
    next
      case False
      have "map_find (map_assign h s' m) h = Some s'" by (simp add: std_map.lookup_assign ok)
      note rem = removeSession_found [OF this h' s(2), of w1]
      from r run Some False rem have "\<not> alive" "outb (wnet w' h) = outb (wnet w1 h)"
        by (auto simp: dispatch_def)
      with t False s(1) d show ?thesis by (simp add: talk_result_def)
    qed
    then show "map_find m' h = Some s2 \<Longrightarrow> talks E s2 (outb (wnet w' h))"
      "map_find m' h = None \<Longrightarrow> server_line E (outb (wnet w' h))" by simp_all
  qed
  show ?thesis
    unfolding lines_ok_def
  proof (intro conjI allI ballI impI)
    fix h2 s2 assume "map_find m' h2 = Some s2"
    with here(1) same lines show "talks E s2 (outb (wnet w' h2))" by (cases "h2 = h") (auto simp: lines_ok_def)
  next
    fix h2 assume "h2 \<in> set hs" "map_find m' h2 = None"
    with here(2) same lines show "server_line E (outb (wnet w' h2))" by (cases "h2 = h") (auto simp: lines_ok_def)
  qed
qed

end


subsection \<open>Every reachable state\<close>

lemma weather_phase_lines:
  assumes "server_inv m w" "lines_ok E hs m w" "weather_phase E m w = (go, m', w')"
  shows "lines_ok E hs m' w'"
proof -
  obtain i w1 where c: "consumeWeatherRequest w = (i, w1)" by (cases "consumeWeatherRequest w")
  have w1: "server_inv m w1" "lines_ok E hs m w1"
    using server_inv_consume(1) [OF assms(1)] lines_frame [OF assms(2), of w1] consume_frame(1) [of w] by (simp_all add: c)
  show ?thesis
  proof (cases "i = [] \<or> findSessionByAircraftId m i = None")
    case True
    with assms(3) w1 show ?thesis by (auto simp: weather_phase_def c split: if_splits)
  next
    case False
    then obtain h where h: "findSessionByAircraftId m i = Some h" and i: "i \<noteq> []" by auto
    obtain s where s: "map_find m h = Some s" "isVerifiedSessionState (session_state s)"
      using requested_session [OF w1(1) i h] by blast
    with assms(3) h i have "dispatch (weather_op E) h m w1 = (go, m', w')" by (simp add: weather_phase_def c)
    from talking_weather.dispatch_talk [OF w1 this] show ?thesis by simp
  qed
qed

lemma disconnect_phase_lines:
  assumes "server_inv m w" "lines_ok E hs m w" "disconnect_phase E m w = (go, m', w')"
  shows "lines_ok E hs m' w'"
proof -
  obtain i w1 where c: "consumeDisconnectRequest w = (i, w1)" by (cases "consumeDisconnectRequest w")
  have w1: "server_inv m w1" "lines_ok E hs m w1"
    using server_inv_consume(2) [OF assms(1)] lines_frame [OF assms(2), of w1] consume_frame(2) [of w] by (simp_all add: c)
  show ?thesis
  proof (cases "i = [] \<or> findSessionByAircraftId m i = None")
    case True
    with assms(3) w1 show ?thesis by (auto simp: disconnect_phase_def c split: if_splits)
  next
    case False
    then obtain h where h: "findSessionByAircraftId m i = Some h" and i: "i \<noteq> []" by auto
    obtain s where s: "map_find m h = Some s" "isVerifiedSessionState (session_state s)"
      using requested_session [OF w1(1) i h] by blast
    with assms(3) h i have "dispatch (disconnect_op E) h m w1 = (go, m', w')" by (simp add: disconnect_phase_def c)
    from talking_disconnect.dispatch_talk [OF w1 this] s show ?thesis by (auto simp: isVerifiedSessionState_def)
  qed
qed

lemma expire_all_lines:
  assumes "server_inv m w" "lines_ok E hs m w"
  shows "lines_ok E hs (fst (expire_all E l m w)) (snd (expire_all E l m w))"
  using assms
proof (induction E l m w rule: expire_all.induct)
  case (2 E h l m w)
  obtain a m1 w1 where d: "dispatch (timeout_op E) h m w = (a, m1, w1)"
    by (cases "dispatch (timeout_op E) h m w") auto
  note dd = timeout_handler.dispatch_shrinks [OF "2.prems"(1) d]
  have "lines_ok E hs m1 w1" using talking_timeout.dispatch_talk [OF "2.prems" d] by simp
  from "2.IH" [OF d [symmetric] refl dd(1) this] show ?case by (simp add: d)
qed simp

lemma timeout_phase_lines:
  assumes "server_inv m w" "lines_ok E hs m w" "timeout_phase E m w = (m', w')"
  shows "lines_ok E hs m' w'"
proof -
  have ok: "map_ok m" using assms(1) by (simp add: server_inv_def sessions_ok_def)
  let ?w1 = "refresh_dashboard E m (steady_tick w)"
  note r = refresh_inv [OF server_inv_tick [OF assms(1)], of m E]
  have "server_inv m ?w1" "wnet ?w1 = wnet w" using r(1,2) map_find_set [OF ok] by simp_all
  with expire_all_lines [of m ?w1 E hs "timed_out_sessions m (steady_now E w)"] lines_frame [OF assms(2), of ?w1] assms(3)
  show ?thesis by (simp add: timeout_phase_def Let_def)
qed

lemma read_ready_lines:
  assumes "server_inv m w" "lines_ok E hs m w"
  shows "lines_ok E hs (fst (read_ready E c l m w)) (snd (read_ready E c l m w))"
  using assms
proof (induction E c l m w rule: read_ready.induct)
  case (2 E c h l m w)
  obtain a m1 w1 where d: "dispatch (read_op E) h m w = (a, m1, w1)"
    by (cases "dispatch (read_op E) h m w") auto
  note dd = read_handler.dispatch_shrinks(1) [OF "2.prems"(1) d]
  have f: "lines_ok E hs m1 w1" using talking_read.dispatch_talk [OF "2.prems" d] by simp
  from "2.IH" [OF d [symmetric] refl _ dd f] f show ?case by (simp add: d)
qed simp

lemma accept_lines:
  assumes "map_ok m" "lines_ok E hs m w" "io_accept inp \<noteq> INVALID_SOCK \<Longrightarrow> map_find m (io_accept inp) = None"
    and "accept_client E inp m w = (m', w')"
  shows "lines_ok E (if io_accept inp = INVALID_SOCK then hs else io_accept inp # hs) m' w'"
proof (cases "io_accept inp = INVALID_SOCK")
  case True
  with assms(2,4) lines_frame [OF assms(2), of "log_info E msg w" for msg] show ?thesis
    by (auto simp: accept_client_def)
next
  case False
  let ?h = "io_accept inp"
  obtain s where s: "m' = map_emplace ?h s m" "session_state s = HANDSHAKE_PENDING" "nextServerSequence s = 1"
    and w': "wnet w' = (wnet w)(?h := accepted_socket (io_sock inp))"
    using assms(4) False by (auto simp: accept_client_def Let_def machine_simps new_session_def touch_def)
  have m': "m' = map_assign ?h s m" using s(1) assms(3) False by (simp add: map_emplace_def)
  have "talks E s (outb (wnet w' ?h))" using s w' by (simp add: talks_def accepted_socket_def)
  with assms(1,2) w' False show ?thesis
    by (auto simp: lines_ok_def m' std_map.lookup_assign split: if_splits)
qed

lemma io_phase_lines:
  assumes "server_inv m w" "lines_ok E hs m w" "kernel_fresh m inp" "io_phase E inp m w = (m', w')"
  shows "lines_ok E (accepts inp @ hs) m' w'"
proof (cases "io_result inp \<le> 0")
  case True
  with assms(2,4) lines_frame [OF assms(2), of "log_info E msg w" for msg] show ?thesis
    by (auto simp: io_phase_def accepts_def split: if_splits)
next
  case False
  have ok: "map_ok m" using assms(1) by (simp add: server_inv_def sessions_ok_def)
  obtain m1 w1 where acc: "(if io_listen inp then accept_client E inp m w else (m, w)) = (m1, w1)"
    by (cases "if io_listen inp then accept_client E inp m w else (m, w)")
  have "server_inv m1 w1 \<and> lines_ok E (accepts inp @ hs) m1 w1"
  proof (cases "io_listen inp")
    case True
    then have a: "accept_client E inp m w = (m1, w1)" using acc by simp
    have new: "map_find m (io_accept inp) = None" if "io_accept inp \<noteq> INVALID_SOCK"
      using assms(3) that True False by (simp add: kernel_fresh_def accepts_def)
    from accept_client_inv [OF assms(1) new a] accept_lines [OF ok assms(2) new a] True False show ?thesis
      by (auto simp: accepts_def split: if_splits)
  next
    case no: False
    with acc assms(1,2) show ?thesis by (simp add: accepts_def)
  qed
  with read_ready_lines [of m1 w1 E "accepts inp @ hs" "io_continue inp"] assms(4) False acc show ?thesis
    by (simp add: io_phase_def) (metis fst_conv snd_conv)
qed

lemma close_all_out: "close_all m w = (m', w') \<Longrightarrow> outb (wnet w' h) = outb (wnet w h)"
proof (induction m w arbitrary: m' w' rule: close_all.induct)
  case (2 k s m w)
  obtain s1 n where c: "session_close (wnet w) s = (s1, n)" by (cases "session_close (wnet w) s")
  have "outb (n h) = outb (wnet w h)" using session_close_net [of "wnet w" s] c by (simp split: if_splits)
  obtain m1 w1 where r: "close_all m (w\<lparr>wnet := n\<rparr>) = (m1, w1)" by (cases "close_all m (w\<lparr>wnet := n\<rparr>)")
  from "2.IH" [OF c [symmetric] r] "2.prems" c r \<open>outb (n h) = outb (wnet w h)\<close> show ?case by auto
qed simp

definition talk_inv :: "host \<Rightarrow> server \<Rightarrow> bool" where
  "talk_inv E sv \<longleftrightarrow>
     machine_inv sv \<and>
     (if phase sv = Finished then (\<forall>h\<in>set (accepted sv). server_line E (outb (wnet (sworld sv) h)))
      else lines_ok E (accepted sv) (sessions sv) (sworld sv))"

lemma talk_inv_line:
  assumes "talk_inv E sv" "h \<in> set (accepted sv)"
  shows "server_line E (outb (wnet (sworld sv) h))"
proof (cases "phase sv = Finished \<or> map_find (sessions sv) h = None")
  case True
  with assms show ?thesis by (auto simp: talk_inv_def lines_ok_def split: if_splits)
next
  case False
  then obtain s where s: "map_find (sessions sv) h = Some s" by auto
  with False assms(1) have "talks E s (outb (wnet (sworld sv) h))" "session_ok s"
    by (auto simp: talk_inv_def lines_ok_def machine_inv_def server_inv_def intro: sessions_okD)
  then show ?thesis by (rule talks_line)
qed

lemma talk_inv_step:
  assumes "server_step E sv sv'" "talk_inv E sv"
  shows "talk_inv E sv'"
proof -
  have mi: "machine_inv sv'" using machine_inv_step [OF assms(1)] assms(2) by (simp add: talk_inv_def)
  have inv: "server_inv (sessions sv) (sworld sv)" "lines_ok E (accepted sv) (sessions sv) (sworld sv)"
    if "phase sv \<noteq> Finished"
    using assms(2) that by (simp_all add: talk_inv_def machine_inv_def)
  show ?thesis
    using assms(1)
  proof cases
    case stop
    with inv mi show ?thesis by (simp add: talk_inv_def)
  next
    case (weather go m w)
    with weather_phase_lines [OF inv] mi show ?thesis by (simp add: talk_inv_def)
  next
    case (disconnect go m w)
    with disconnect_phase_lines [OF inv] mi show ?thesis by (simp add: talk_inv_def)
  next
    case (timeouts m w running)
    with timeout_phase_lines [OF inv] mi show ?thesis by (simp add: talk_inv_def)
  next
    case (io inp m w)
    with io_phase_lines [OF inv io(3,4)] mi show ?thesis by (simp add: talk_inv_def)
  next
    case (exit m w)
    with talk_inv_line [OF assms(2)] close_all_out [OF exit(3)] mi show ?thesis by (simp add: talk_inv_def)
  next
    case (operator ui)
    with assms(2) mi lines_frame [of E "accepted sv" "sessions sv" "sworld sv" "sworld sv'"] show ?thesis
      by (auto simp: talk_inv_def)
  qed
qed

lemma talk_inv_reachable: "reachable E sv0 sv \<Longrightarrow> talk_inv E sv0 \<Longrightarrow> talk_inv E sv"
  by (induction rule: reachable.induct) (auto intro: talk_inv_step)

lemma talk_inv_start: "talk_inv E (start_server lg n)"
  using machine_inv_start by (simp add: talk_inv_def lines_ok_def start_server_def map_find_def)

text \<open>
  C8. Whatever clients, operator, clock, disk and kernel do, what the server has written to a
  connection is a beginning of a refusal, or of an acknowledgement of a well-formed id followed by
  complete weather maps, numbered 1, 2, 3, ..., each the content of the file generated for that
  aircraft and number with its length and checksum, and at most one farewell with the next number.
\<close>

theorem server_writes_genuine:
  assumes "reachable E (start_server lg n) sv" "h \<in> set (accepted sv)"
  shows "server_line E (outb (wnet (sworld sv) h))"
  using talk_inv_line [OF talk_inv_reachable [OF assms(1) talk_inv_start] assms(2)] .

theorem server_writes_genuine_witness:
  "accepted (example_run 0) = [4] \<and> server_line example_host (outb (wnet (sworld (example_run 0)) 4))"
  using server_writes_genuine [OF example_reachable [of 0, unfolded example_start_def], of 4] example_run_0(3)
  by simp

end
