(* ===== verification/Client_Reception.thy ===== *)
theory Client_Reception
  imports Client_Run Fleet_Handlers Server_Wire
begin

text \<open>
  What an aircraft makes of what the server writes: when every connection of the client carries what
  a server has written, the receiver stays in step with the stream over all interleavings of the
  three threads, so that every file it saves is a map the server sent, and neither a checksum
  mismatch nor an unexpected packet is ever met.
\<close>

subsection \<open>The stream between two messages, and inside a map\<close>

text \<open>The stream \<open>T\<close> of a connection read up to a message boundary, with \<open>R\<close> still to come.\<close>

definition rest_ok :: "host \<Rightarrow> string \<Rightarrow> u32 \<Rightarrow> byte list \<Rightarrow> bool" where
  "rest_ok H i n R \<longleftrightarrow>
     (\<exists>ds. genuine_maps H i n ds \<and> prefix R (maps_from i n ds @ farewell i (n + word_of_nat (length ds))))"

definition boundary :: "host \<Rightarrow> byte list \<Rightarrow> byte list \<Rightarrow> bool" where
  "boundary H T R \<longleftrightarrow>
     (\<exists>i n ds. T = server_talk i n ds @ R \<and> rest_ok H i (next_number ds) R)"

text \<open>Inside the map whose header is \<open>h\<close>, with \<open>data\<close> received.\<close>

definition inside :: "host \<Rightarrow> byte list \<Rightarrow> byte list \<Rightarrow> PacketHeader \<Rightarrow> byte list \<Rightarrow> bool" where
  "inside H T R h data \<longleftrightarrow>
     (\<exists>i n ds d d' R'. T = server_talk i n ds @ header_bytes h @ data @ R \<and> h = map_head i (next_number ds) d \<and>
        genuine_map H i (next_number ds) d \<and> d = data @ d' \<and>
        prefix R (d' @ R') \<and> rest_ok H i (next_number ds + 1) R')"

text \<open>A map that was sent whole: its packet stands on the stream after whole maps numbered before it.\<close>

definition sent_on :: "host \<Rightarrow> byte list \<Rightarrow> byte list \<Rightarrow> bool" where
  "sent_on H T d \<longleftrightarrow>
     (\<exists>i n ds R. T = server_talk i n ds @ map_packet i (next_number ds) d @ R \<and> genuine_map H i (next_number ds) d)"

lemma rest_prefix: "rest_ok H i n R' \<Longrightarrow> prefix R R' \<Longrightarrow> rest_ok H i n R"
  unfolding rest_ok_def by (meson prefix_order.trans)

lemma map_head_simps [simp]:
  "wf_header (map_head i n d)" "packet_type (map_head i n d) = LARGE_FILE"
  "payload_size (map_head i n d) = word_of_nat (length d)"
  "checksum (map_head i n d) = computeChecksum d (word_of_nat (length d))"
  by (simp_all add: map_head_def wf_type_def)

lemma map_size: "genuine_map H i n d \<Longrightarrow> unat (payload_size (map_head i n d)) = length d"
  by (simp add: genuine_map_def unat_of_nat)

lemma header_prefix:
  assumes "prefix R (header_bytes h @ X)" "wf_header h" "header_size \<le> length R"
  shows "R = header_bytes h @ drop header_size R" "prefix (drop header_size R) X"
    "header_of_bytes (take header_size R) = h"
proof -
  have l: "length (header_bytes h) = header_size" using length_header_bytes [OF assms(2)] .
  obtain Y where Y: "header_bytes h @ X = R @ Y" using assms(1) by (auto simp: prefix_def)
  have t: "take header_size R = header_bytes h"
    using arg_cong [OF Y, of "take header_size"] l assms(3) by simp
  then show "R = header_bytes h @ drop header_size R" by (metis append_take_drop_id)
  have "X = drop header_size R @ Y" using arg_cong [OF Y, of "drop header_size"] l assms(3) by simp
  then show "prefix (drop header_size R) X" by simp
  show "header_of_bytes (take header_size R) = h" using t header_of_header_bytes [OF assms(2)] by simp
qed

text \<open>At a boundary the next header is a map's or the farewell's.\<close>

lemma boundary_header:
  assumes "boundary H T R" "header_size \<le> length R"
  shows "let h = header_of_bytes (take header_size R)
    in packet_type h = LARGE_FILE \<and> inside H T (drop header_size R) h [] \<or> packet_type h = DISCONNECT"
proof -
  obtain i n ds where b: "T = server_talk i n ds @ R" "rest_ok H i (next_number ds) R"
    using assms(1) by (auto simp: boundary_def)
  let ?k = "next_number ds"
  obtain es where es: "genuine_maps H i ?k es" "prefix R (maps_from i ?k es @ farewell i (?k + word_of_nat (length es)))"
    using b(2) by (auto simp: rest_ok_def)
  show ?thesis
  proof (cases es)
    case Nil
    have wf: "wf_header (makeHeader DISCONNECT i ?k 0 0)" by (simp add: wf_type_def)
    have "prefix R (header_bytes (makeHeader DISCONNECT i ?k 0 0) @ [])" using es(2) Nil by (simp add: farewell_def)
    from header_prefix(3) [OF this wf assms(2)] show ?thesis by simp
  next
    case (Cons d es')
    let ?X = "maps_from i (?k + 1) es' @ farewell i (?k + 1 + word_of_nat (length es'))"
    have p: "prefix R (header_bytes (map_head i ?k d) @ d @ ?X)"
      using es(2) Cons by (simp add: map_packet_def add.commute add.left_commute)
    note hp = header_prefix [OF p map_head_simps(1) assms(2)]
    have g: "genuine_map H i ?k d" "rest_ok H i (?k + 1) ?X"
      using es(1) Cons by (auto simp: rest_ok_def)
    have "T = server_talk i n ds @ header_bytes (map_head i ?k d) @ [] @ drop header_size R"
      using b(1) hp(1) by simp
    then have "inside H T (drop header_size R) (map_head i ?k d) []"
      unfolding inside_def using hp(2) g
      by (intro exI [of _ i] exI [of _ n] exI [of _ ds] exI [of _ d] exI [of _ d] exI [of _ ?X]) simp
    with hp(3) show ?thesis by simp
  qed
qed

text \<open>Inside a map: more data, and its end.\<close>

lemma inside_size: "inside H T R h data \<Longrightarrow> length data \<le> unat (payload_size h)"
  unfolding inside_def using map_size by (metis length_append le_add1)

lemma inside_more:
  assumes "inside H T (bs @ R) h data" "length bs \<le> unat (payload_size h) - length data"
  shows "inside H T R h (data @ bs)"
proof -
  obtain i n ds d d' R' where b: "T = server_talk i n ds @ header_bytes h @ data @ bs @ R"
    "h = map_head i (next_number ds) d" "genuine_map H i (next_number ds) d" "d = data @ d'"
    "prefix (bs @ R) (d' @ R')" "rest_ok H i (next_number ds + 1) R'"
    using assms(1) by (auto simp: inside_def)
  have "length bs \<le> length d'" using assms(2) b(4) map_size [OF b(3)] unfolding b(2) by simp
  moreover obtain Y where Y: "d' @ R' = bs @ R @ Y" using b(5) by (auto simp: prefix_def)
  ultimately obtain d'' where d: "d' = bs @ d''" by (metis append_eq_append_conv_if append_take_drop_id)
  with Y have "prefix R (d'' @ R')" by simp
  with b d show ?thesis
    unfolding inside_def
    by (intro exI [of _ i] exI [of _ n] exI [of _ ds] exI [of _ d] exI [of _ d''] exI [of _ R']) simp
qed

lemma inside_whole:
  assumes "inside H T R h data" "length data = unat (payload_size h)"
  shows "sent_on H T data" "boundary H T R" "computeChecksum data (payload_size h) = checksum h"
proof -
  obtain i n ds d d' R' where b: "T = server_talk i n ds @ header_bytes h @ data @ R"
    "h = map_head i (next_number ds) d" "genuine_map H i (next_number ds) d" "d = data @ d'"
    "prefix R (d' @ R')" "rest_ok H i (next_number ds + 1) R'"
    using assms(1) by (auto simp: inside_def)
  have d: "d' = []" "d = data" using b(4) assms(2) map_size [OF b(3)] unfolding b(2) by simp_all
  show "computeChecksum data (payload_size h) = checksum h" unfolding b(2) using d by simp
  have T: "T = server_talk i n ds @ map_packet i (next_number ds) data @ R"
    using b(1) unfolding b(2) by (simp add: map_packet_def d)
  then show "sent_on H T data" using b(3) d unfolding sent_on_def by blast
  have "T = server_talk i n (ds @ [data]) @ R" using T by (simp add: server_talk_snoc)
  moreover have "rest_ok H i (next_number (ds @ [data])) R"
    using rest_prefix [OF b(6), of R] b(5) d by (simp add: next_number_snoc)
  ultimately show "boundary H T R" unfolding boundary_def by blast
qed


text \<open>The stream begins with the answer: from a server that acknowledged, a boundary follows.\<close>

lemma boundary_start:
  assumes "server_line H T" "header_size \<le> length T"
    "packet_type (header_of_bytes (take header_size T)) = HANDSHAKE_ACK"
  shows "boundary H T (drop header_size T)"
proof -
  have wf: "wf_header (makeHeader HANDSHAKE_FAIL i n 0 0)" "wf_header (makeHeader HANDSHAKE_ACK i n 0 0)" for i n
    by (simp_all add: wf_type_def)
  from assms(1) consider (fail) i n where "prefix T (refusal i n)"
    | (ack) i n ds where "genuine_maps H i 1 ds" "prefix T (server_talk i n ds @ farewell i (next_number ds))"
    by (auto simp: server_line_def)
  then show ?thesis
  proof cases
    case fail
    then have "prefix T (header_bytes (makeHeader HANDSHAKE_FAIL i n 0 0) @ [])" by (simp add: refusal_def)
    from header_prefix(3) [OF this wf(1) assms(2)] assms(3) show ?thesis by simp
  next
    case ack
    let ?X = "maps_from i 1 ds @ farewell i (next_number ds)"
    have p: "prefix T (header_bytes (makeHeader HANDSHAKE_ACK i n 0 0) @ ?X)"
      using ack(2) by (simp add: server_talk_def answer_def)
    note hp = header_prefix [OF p wf(2) assms(2)]
    have "T = server_talk i n [] @ drop header_size T" using hp(1) by (simp add: server_talk_def answer_def)
    moreover have "rest_ok H i (next_number []) (drop header_size T)"
      unfolding rest_ok_def using ack(1) hp(2) by (intro exI [of _ ds]) (simp add: next_number_def)
    ultimately show ?thesis unfolding boundary_def by blast
  qed
qed

lemma server_line_prefix: "server_line H bs \<Longrightarrow> prefix b bs \<Longrightarrow> server_line H b"
  unfolding server_line_def by (meson prefix_order.trans)

subsection \<open>What an aircraft logs\<close>

text \<open>The faults of a connection that was lost, and the lines of the communication log that are faults.\<close>

definition link_causes :: "string list" where
  "link_causes = [''TelemetrySendFailure'', ''ReceiveFailure'', ''LargeFileReceiveFailure'']"

definition is_fault_line :: "string \<Rightarrow> bool" where
  "is_fault_line l \<longleftrightarrow> prefix ''] [FAULT] '' (dropWhile (\<lambda>c. c \<noteq> CHR '']'') l)"

definition link_line :: "string \<Rightarrow> bool" where
  "link_line l \<longleftrightarrow> (is_fault_line l \<longrightarrow> fault_cause l \<in> set link_causes)"

definition link_faults :: "client \<Rightarrow> bool" where
  "link_faults c \<longleftrightarrow> list_all link_line (commsLog (clogger c))"

lemma stamped_rest: "dropWhile (\<lambda>c. c \<noteq> CHR '']'') (''['' @ timestampUtc ms @ CHR '']'' # r) = CHR '']'' # r"
  using stamp_no_bracket [of ms] by (auto simp: dropWhile_append)

lemma link_lines:
  "d = ''TX'' \<or> d = ''RX'' \<Longrightarrow> link_line (packet_line (timestampUtc ms) d hdr)"
  "link_line (''['' @ timestampUtc ms @ ''] '' @ ''[INFO] '' @ m)"
  "cause \<in> set link_causes \<Longrightarrow> link_line (fault_line (timestampUtc ms) cause st n)"
proof -
  show "d = ''TX'' \<or> d = ''RX'' \<Longrightarrow> link_line (packet_line (timestampUtc ms) d hdr)"
    using stamped_rest [of ms "'' ['' @ d @ ''] '' @ ''['' @ packetTypeToString (packet_type hdr) @ ''] ''
       @ ''Aircraft='' @ extractAircraftId (aircraft_id hdr) @ '' '' @ ''Seq='' @ pad0 4 (dec (unat (sequence_number hdr)))
       @ '' '' @ ''PayloadSize='' @ dec (unat (payload_size hdr))"]
    by (auto simp: link_line_def is_fault_line_def packet_line_def)
  show "link_line (''['' @ timestampUtc ms @ ''] '' @ ''[INFO] '' @ m)"
    using stamped_rest [of ms "'' [INFO] '' @ m"] by (simp add: link_line_def is_fault_line_def)
  assume c: "cause \<in> set link_causes"
  then have "CHR '' '' \<notin> set cause" by (auto simp: link_causes_def)
  with c show "link_line (fault_line (timestampUtc ms) cause st n)" by (simp add: link_line_def fault_cause_line)
qed

subsection \<open>Operations that leave the stream alone\<close>

text \<open>At most they lose the socket or clear the flag.\<close>

definition same_stream :: "client \<Rightarrow> client \<Rightarrow> bool" where
  "same_stream c c' \<longleftrightarrow>
     socket_calls c' = socket_calls c \<and> saved c' = saved c \<and> (running c' \<longrightarrow> running c) \<and>
     (\<forall>h. sock_readable (cnet c' h) = sock_readable (cnet c h)) \<and>
     (socket_live c' \<longrightarrow> socket_live c \<and> csocket c' = csocket c) \<and> (link_faults c \<longrightarrow> link_faults c')"

lemma same_stream_refl [simp]: "same_stream c c"
  by (simp add: same_stream_def)

lemma same_stream_trans: "same_stream c c1 \<Longrightarrow> same_stream c1 c2 \<Longrightarrow> same_stream c c2"
  by (auto simp: same_stream_def)

lemma same_stream_small [simp]:
  "same_stream c (setState s m c)" "same_stream c (printLine l c)" "same_stream c (printStatus s c)"
  "same_stream c (c\<lparr>nextSequence := n\<rparr>)" "same_stream c (c\<lparr>running := False\<rparr>)"
  "same_stream c (c\<lparr>fileTransferActive := b\<rparr>)" "same_stream c (c\<lparr>receiverAlive := b\<rparr>)"
  "same_stream c (c\<lparr>polls := k, polled_dead := b\<rparr>)" "same_stream c (c\<lparr>flightSim := f, ticks := k\<rparr>)"
  "same_stream c (clock_tick c)"
  by (simp_all add: same_stream_def socket_live_def link_faults_def setState_def printLine_def printStatus_def Let_def
      clock_tick_def)

lemma same_stream_log [simp]:
  "d = ''TX'' \<or> d = ''RX'' \<Longrightarrow> same_stream c (client_logPacket E d hdr c)"
  "same_stream c (client_logInfo E l c)"
  "cause \<in> set link_causes \<Longrightarrow> same_stream c (client_logFault E cause st n c)"
  using link_lines
  by (simp_all add: same_stream_def socket_live_def link_faults_def client_logPacket_def client_logInfo_def
      client_logFault_def clock_tick_def)

lemma same_stream_close [simp]: "same_stream c (do_close c)" "same_stream c (closeSocketIfOpen c)"
  by (auto simp: same_stream_def do_close_def closeSocketIfOpen_def closeSocket_def socket_live_def link_faults_def
      sock_readable_def)

lemma same_stream_sendAll: "client_sendAll bs c = (ok, c') \<Longrightarrow> same_stream c c'"
  using net_sendAll_readable [of "cnet c" "csocket c" bs] net_closes(2) [of "cnet c" "csocket c" bs]
  by (auto simp: client_sendAll_def same_stream_def socket_live_def link_faults_def split: if_splits prod.splits)

lemma same_stream_sendPacket: "sendPacketLocked hdr p c = (ok, c') \<Longrightarrow> same_stream c c'"
  by (auto simp: sendPacketLocked_def split: prod.splits bool.splits if_splits
      intro: same_stream_trans dest!: same_stream_sendAll)

fun op_fine :: "op \<Rightarrow> bool" where
  "op_fine (Store_Running b) \<longleftrightarrow> \<not> b"
| "op_fine (Log_Packet d hdr) \<longleftrightarrow> d = ''TX'' \<or> d = ''RX''"
| "op_fine (Log_Fault cause st n) \<longleftrightarrow> cause \<in> set link_causes"
| "op_fine _ \<longleftrightarrow> True"

lemma same_stream_perform: "op_fine oper \<Longrightarrow> same_stream c (perform E oper c)"
  by (cases oper)
     (auto simp: same_stream_def [of c "c\<lparr>csocket := b\<rparr>" for b] same_stream_def [of c "c\<lparr>cnet := b\<rparr>" for b]
       socket_live_def link_faults_def shutdownSocket_def shutdownSocketSend_def sock_readable_def)

lemma same_stream_received:
  assumes "client_recvAll k c = (Some bs, c')"
  shows "socket_live c" "csocket c' = csocket c" "k \<le> length (sock_readable (cnet c (csocket c)))"
    "bs = take k (sock_readable (cnet c (csocket c)))"
    "sock_readable (cnet c' (csocket c)) = drop k (sock_readable (cnet c (csocket c)))"
proof -
  show l: "socket_live c" using assms by (auto simp: client_recvAll_def split: if_splits)
  then obtain n where n: "net_recvAll (cnet c) (csocket c) k = (Some bs, n)" "c' = c\<lparr>cnet := n\<rparr>"
    using assms by (auto simp: client_recvAll_def split: prod.splits)
  from net_recvAll_Some [OF n(1)] n(2) show "csocket c' = csocket c"
    "k \<le> length (sock_readable (cnet c (csocket c)))"
    "bs = take k (sock_readable (cnet c (csocket c)))"
    "sock_readable (cnet c' (csocket c)) = drop k (sock_readable (cnet c (csocket c)))"
    by auto
qed

text \<open>Reading changes no more than the stream.\<close>

definition reads :: "client \<Rightarrow> client \<Rightarrow> bool" where
  "reads c c' \<longleftrightarrow>
     socket_calls c' = socket_calls c \<and> saved c' = saved c \<and> running c' = running c \<and>
     socket_live c' = socket_live c \<and> csocket c' = csocket c \<and> clogger c' = clogger c"

lemma reads_recvAll: "client_recvAll k c = (r, c') \<Longrightarrow> reads c c'"
  using net_closes(1) [of "cnet c" "csocket c" k]
  by (auto simp: client_recvAll_def reads_def socket_live_def split: if_splits prod.splits)

lemma reads_recv: "client_recv k c = (r, c') \<Longrightarrow> reads c c'"
  using sock_closes(1) [of "cnet c (csocket c)" k]
  by (auto simp: client_recv_def reads_def socket_live_def split: if_splits prod.splits)

subsection \<open>Connecting\<close>

definition greeted :: "byte list \<Rightarrow> bool" where
  "greeted T \<longleftrightarrow>
     header_size \<le> length T \<and> packet_type (header_of_bytes (take header_size T)) = HANDSHAKE_ACK"

text \<open>A client connected on its latest socket, whose stream it has read up to the end of the acknowledgement.\<close>

definition at_start :: "client_host \<Rightarrow> client \<Rightarrow> bool" where
  "at_start E c \<longleftrightarrow>
     (\<exists>j. socket_calls c = Suc j \<and> greeted (sock_readable (ch_traffic E j)) \<and>
        sock_readable (cnet c (csocket c)) = drop header_size (sock_readable (ch_traffic E j)))"

definition attempt_stream :: "client_host \<Rightarrow> client \<Rightarrow> bool option \<times> client \<Rightarrow> bool" where
  "attempt_stream E c = (\<lambda>(r, c'). saved c' = saved c \<and> (link_faults c \<longrightarrow> link_faults c') \<and> (r = Some True \<longrightarrow> at_start E c'))"

lemma same_stream_attempt: "same_stream c c' \<Longrightarrow> r \<noteq> Some True \<Longrightarrow> attempt_stream E c (r, c')"
  by (simp add: same_stream_def attempt_stream_def)

lemma attempt_stream_later:
  "attempt_stream E c1 rc \<Longrightarrow> saved c1 = saved c \<Longrightarrow> (link_faults c \<longrightarrow> link_faults c1) \<Longrightarrow> attempt_stream E c rc"
  by (auto simp: attempt_stream_def)

lemma handshake_answer_stream:
  assumes "packet_type response = HANDSHAKE_ACK \<Longrightarrow> at_start E c"
  shows "attempt_stream E c (handshake_answer E M a response c)"
proof (cases "packet_type response = HANDSHAKE_ACK")
  case True
  with assms show ?thesis
    by (simp add: handshake_answer_def attempt_stream_def at_start_def setState_def link_faults_def)
next
  case False
  let ?c1 = "closeSocketIfOpen c"
  have "same_stream ?c1 (setState s m ?c1)" for s m by simp
  then have "same_stream c (setState s m ?c1)" for s m using same_stream_trans same_stream_close(2) by blast
  moreover have "saved (?c1\<lparr>cid := i\<rparr>) = saved c \<and> (link_faults c \<longrightarrow> link_faults (?c1\<lparr>cid := i\<rparr>))" for i
    using same_stream_close(2) [of c] by (simp add: same_stream_def link_faults_def)
  then have "attempt_stream E c (None, printLine l (?c1\<lparr>cid := i\<rparr>))" for l i
    by (simp add: attempt_stream_def printLine_def link_faults_def)
  ultimately show ?thesis
    using False same_stream_attempt [of c _ "Some False" E] by (simp add: handshake_answer_def Let_def)
qed

lemma handshake_exchange_stream:
  assumes "socket_calls c = Suc j" "sock_readable (cnet c (csocket c)) = sock_readable (ch_traffic E j)"
  shows "attempt_stream E c (handshake_exchange E M a c)"
proof -
  let ?hs = "makeHeader HANDSHAKE_REQUEST (cid c) (nextSequence c) 0 0"
  obtain ok c2 where s: "sendPacketLocked ?hs [] (c\<lparr>nextSequence := nextSequence c + 1\<rparr>) = (ok, c2)"
    by (cases "sendPacketLocked ?hs [] (c\<lparr>nextSequence := nextSequence c + 1\<rparr>)")
  note sc = same_connection_trans [OF same_connection_small(7) same_connection_sendPacket [OF s]]
  have s2: "same_stream c c2" using same_stream_trans [OF same_stream_small(4) same_stream_sendPacket [OF s]] .
  have failed: "attempt_stream E c (Some False, closeSocketIfOpen (setState C_FAULT m c'))"
    if "saved c' = saved c" "link_faults c \<longrightarrow> link_faults c'" for m c'
    using attempt_stream_later [OF same_stream_attempt [OF same_stream_trans [OF same_stream_small(1) same_stream_close(2)]] that]
    by simp
  show ?thesis
  proof (cases ok)
    case False
    then show ?thesis using failed [of c2] s2 s by (simp add: handshake_exchange_def Let_def same_stream_def)
  next
    case True
    let ?c2 = "client_logPacket E ''TX'' ?hs c2"
    have s2': "same_stream c ?c2" "csocket ?c2 = csocket c"
      using same_stream_trans [OF s2 same_stream_log(1)] sc
      by (auto simp: same_connection_def client_logPacket_def clock_tick_def)
    obtain r c3 where r: "client_recvAll header_size ?c2 = (r, c3)" by (cases "client_recvAll header_size ?c2")
    note rd = reads_recvAll [OF r]
    have k3: "saved c3 = saved c" "link_faults c \<longrightarrow> link_faults c3" "socket_calls c3 = Suc j"
      using s2' rd assms(1) by (simp_all add: same_stream_def reads_def link_faults_def)
    show ?thesis
    proof (cases r)
      case None
      then show ?thesis using failed [OF k3(1,2)] s r True by (simp add: handshake_exchange_def Let_def)
    next
      case (Some bs)
      let ?c4 = "client_logPacket E ''RX'' (header_of_bytes bs) c3"
      have "sock_readable (cnet ?c2 (csocket ?c2)) = sock_readable (ch_traffic E j)"
        using s2' assms(2) by (simp add: same_stream_def)
      with same_stream_received [OF r [unfolded Some]] k3(3)
      have "packet_type (header_of_bytes bs) = HANDSHAKE_ACK \<Longrightarrow> at_start E ?c4"
        by (simp add: at_start_def greeted_def client_logPacket_def clock_tick_def)
      from handshake_answer_stream [OF this] have "attempt_stream E ?c4
          (handshake_answer E M a (header_of_bytes bs) ?c4)" .
      moreover have "saved ?c4 = saved c \<and> (link_faults c \<longrightarrow> link_faults ?c4)"
        using k3 same_stream_log(1) [of "''RX''" c3] by (simp add: same_stream_def)
      ultimately show ?thesis
        using attempt_stream_later s r True Some by (simp add: handshake_exchange_def Let_def)
    qed
  qed
qed

lemma connect_attempt_stream: "attempt_stream E c (connect_attempt E M a c)"
proof -
  let ?c1 = "open_socket E (c\<lparr>nextSequence := 1\<rparr>)"
  let ?c2 = "setState C_HANDSHAKE_PENDING ''[PENDING] Connecting to ground control...'' ?c1"
  have k: "saved ?c1 = saved c" "link_faults ?c1 = link_faults c"
    by (simp_all add: open_socket_def Let_def link_faults_def)
  have k2: "saved ?c2 = saved c" "link_faults ?c2 = link_faults c" using k by (simp_all add: setState_def link_faults_def)
  show ?thesis
  proof (cases "csocket ?c1 = INVALID_SOCK")
    case True
    with k show ?thesis
      using attempt_stream_later [OF same_stream_attempt [OF same_stream_small(1) [of ?c1]]]
      by (simp add: connect_attempt_def Let_def)
  next
    case False
    then have "socket_calls ?c2 = Suc (socket_calls c)"
      "sock_readable (cnet ?c2 (csocket ?c2)) = sock_readable (ch_traffic E (socket_calls c))"
      by (auto simp: open_socket_def Let_def setState_def fresh_socket_def sock_readable_def)
    from attempt_stream_later [OF handshake_exchange_stream [OF this]] k2
    have ex: "attempt_stream E c (handshake_exchange E M a ?c2)" by simp
    have "attempt_stream E c (Some False, closeSocketIfOpen (setState C_FAULT m ?c2))" for m
      using attempt_stream_later [OF same_stream_attempt [OF same_stream_trans [OF same_stream_small(1) same_stream_close(2)]]] k2
      by simp
    with False ex show ?thesis by (simp add: connect_attempt_def Let_def)
  qed
qed

lemma connect_loop_stream: "connect_loop E M a c = (ok, c') \<Longrightarrow> attempt_stream E c (Some ok, c')"
proof (induction "M - a" arbitrary: a c rule: less_induct)
  case less
  obtain r c1 where r: "connect_attempt E M a c = (r, c1)" by (cases "connect_attempt E M a c")
  have w: "attempt_stream E c (r, c1)" using connect_attempt_stream [of E c M a] r by simp
  show ?case
  proof (cases "a < M \<and> r = None")
    case True
    with r less.prems have "connect_loop E M (a + 1) c1 = (ok, c')" by (simp add: connect_loop.simps [of E M a])
    moreover have "M - (a + 1) < M - a" using True by auto
    ultimately have "attempt_stream E c1 (Some ok, c')" using less.hyps by blast
    then show ?thesis using attempt_stream_later [of E c1 "(Some ok, c')" c] w by (simp add: attempt_stream_def)
  next
    case False
    with r less.prems w same_stream_attempt [OF same_stream_small(1) [of c], of "Some False" E] show ?thesis
      by (auto simp: connect_loop.simps [of E M a] split: if_splits option.splits)
  qed
qed

lemma connect_stream: "connectSession E c = (ok, c') \<Longrightarrow> attempt_stream E c (Some ok, c')"
  by (simp add: connectSession_def connect_loop_stream)

subsection \<open>The receiver and the stream\<close>

text \<open>
  Where the receiver stands on the stream at each of its points, from what it has still to do; a
  receiver that will find the running flag cleared reads no more.
\<close>

fun sync :: "host \<Rightarrow> byte list \<Rightarrow> byte list \<Rightarrow> bool \<Rightarrow> instr list \<Rightarrow> bool" where
  "sync H T R on [] \<longleftrightarrow> (on \<longrightarrow> boundary H T R)"
| "sync H T R on (i # is) \<longleftrightarrow>
     (case i of
        Do oper \<Rightarrow> sync H T R (on \<and> oper \<noteq> Store_Running False) is
      | Call k \<Rightarrow> sync H T R on is
      | Rcv p \<Rightarrow>
          (case p of
             Recv_While \<Rightarrow> on \<longrightarrow> boundary H T R
           | Recv_Wait \<Rightarrow> boundary H T R
           | Recv_Header \<Rightarrow> boundary H T R
           | Recv_Broken \<Rightarrow> True
           | Recv_Payload h \<Rightarrow> False)
      | File f \<Rightarrow>
          (case f of
             File_Alloc h \<Rightarrow> inside H T R h []
           | File_While h d \<Rightarrow> inside H T R h d
           | File_Recv h d \<Rightarrow> inside H T R h d \<and> length d < unat (payload_size h)
           | File_Broken h \<Rightarrow> True
           | File_Check h d \<Rightarrow> on \<longrightarrow> inside H T R h d \<and> length d = unat (payload_size h)
           | File_Save h d \<Rightarrow> inside H T R h d \<and> length d = unat (payload_size h))
      | _ \<Rightarrow> True)"

lemma sync_stop: "sync H T R on is \<Longrightarrow> (on' \<longrightarrow> on) \<Longrightarrow> sync H T R on' is"
  by (induction H T R on "is" arbitrary: on' rule: sync.induct)
     (auto split: instr.splits rcv_point.splits file_point.splits)

definition map_sent :: "host \<Rightarrow> client_host \<Rightarrow> byte list \<Rightarrow> bool" where
  "map_sent H E d \<longleftrightarrow> (\<exists>j. sent_on H (sock_readable (ch_traffic E j)) d)"

text \<open>What a thread may have still to do.\<close>

fun fine :: "host \<Rightarrow> client_host \<Rightarrow> instr \<Rightarrow> bool" where
  "fine H E (Do oper) \<longleftrightarrow> op_fine oper"
| "fine H E (Call (Fault_Here cause)) \<longleftrightarrow> cause \<in> set link_causes"
| "fine H E (Rcv (Recv_Payload h)) \<longleftrightarrow> False"
| "fine H E (File (File_Save h d)) \<longleftrightarrow> map_sent H E d"
| "fine H E _ \<longleftrightarrow> True"

definition client_inv :: "host \<Rightarrow> client_host \<Rightarrow> client \<Rightarrow> bool" where
  "client_inv H E c \<longleftrightarrow>
     (running c \<longrightarrow> socket_live c) \<and> link_faults c \<and> list_all (\<lambda>(path, d). map_sent H E d) (saved c)"

definition rcv_ok :: "host \<Rightarrow> client_host \<Rightarrow> client \<Rightarrow> instr list \<Rightarrow> bool" where
  "rcv_ok H E c is \<longleftrightarrow>
     (socket_live c \<longrightarrow> (\<exists>j. socket_calls c = Suc j \<and>
        sync H (sock_readable (ch_traffic E j)) (sock_readable (cnet c (csocket c))) (running c) is))"

lemma client_inv_same: "same_stream c c' \<Longrightarrow> (running c' \<longrightarrow> socket_live c') \<Longrightarrow> client_inv H E c \<Longrightarrow> client_inv H E c'"
  by (simp add: client_inv_def same_stream_def)

lemma rcv_ok_same: "same_stream c c' \<Longrightarrow> rcv_ok H E c is \<Longrightarrow> rcv_ok H E c' is"
  by (auto simp: rcv_ok_def same_stream_def intro: sync_stop)

lemma client_inv_reads: "reads c c' \<Longrightarrow> client_inv H E c \<Longrightarrow> client_inv H E c'"
  by (simp add: client_inv_def reads_def link_faults_def)

text \<open>After a read: what there is to show for the stream that remains.\<close>

lemma rcv_ok_read:
  assumes "reads c c'" "rcv_ok H E c is"
    and "\<And>T. sync H T (sock_readable (cnet c (csocket c))) (running c) is \<Longrightarrow>
      sync H T (sock_readable (cnet c' (csocket c))) (running c) js"
  shows "rcv_ok H E c' js"
  using assms(1,2) assms(3) by (auto simp: rcv_ok_def reads_def)

lemma receiver_stream:
  assumes "receiverLoop E p c = (js, c')" "client_inv H E c" "rcv_ok H E c [Rcv p]" "fine H E (Rcv p)"
  shows "client_inv H E c' \<and> rcv_ok H E c' js \<and> list_all (fine H E) js"
proof (cases p)
  case Recv_While
  with assms show ?thesis by (auto simp: rcv_ok_def receiver_ends_def split: if_splits)
next
  case Recv_Wait
  let ?c = "c\<lparr>polls := Suc (polls c), polled_dead := (polled_dead c \<or> \<not> socket_live c)\<rparr>"
  have "client_inv H E ?c" using assms(2) by (simp add: client_inv_def socket_live_def link_faults_def)
  moreover have "rcv_ok H E ?c [Rcv q]" if "q = Recv_Header \<or> q = Recv_While" for q
    using assms(3) Recv_Wait that by (auto simp: rcv_ok_def socket_live_def)
  ultimately show ?thesis using Recv_Wait assms(1) by (auto split: if_splits)
next
  case Recv_Header
  obtain r c1 where r: "client_recvAll header_size c = (r, c1)" by (cases "client_recvAll header_size c")
  have rd: "reads c c1" using reads_recvAll [OF r] .
  have ci: "client_inv H E c1" using client_inv_reads [OF rd assms(2)] .
  show ?thesis
  proof (cases r)
    case None
    have "rcv_ok H E c1 [Rcv Recv_Broken]" by (rule rcv_ok_read [OF rd assms(3)]) simp
    with None Recv_Header assms(1) r ci show ?thesis by auto
  next
    case (Some bs)
    note rc = same_stream_received [OF r [unfolded Some]]
    obtain j where j: "boundary H (sock_readable (ch_traffic E j)) (sock_readable (cnet c (csocket c)))"
      "socket_calls c1 = Suc j"
      using assms(3) Recv_Header rc(1) rd by (auto simp: rcv_ok_def reads_def)
    from boundary_header [OF j(1) rc(3)] rc(4,5)
    have h: "packet_type (header_of_bytes bs) = LARGE_FILE \<and>
        inside H (sock_readable (ch_traffic E j)) (sock_readable (cnet c1 (csocket c))) (header_of_bytes bs) [] \<or>
      packet_type (header_of_bytes bs) = DISCONNECT"
      by (simp add: Let_def)
    with Some Recv_Header assms(1) r ci j(2) rc(2) show ?thesis by (auto simp: Let_def rcv_ok_def)
  qed
next
  case Recv_Broken
  with assms show ?thesis by (auto simp: rcv_ok_def receiver_ends_def link_causes_def)
next
  case (Recv_Payload h)
  with assms(4) show ?thesis by simp
qed

lemma file_stream:
  assumes "receiveLargeFile E f c = (js, c')" "client_inv H E c" "rcv_ok H E c [File f, Rcv Recv_While]"
    "fine H E (File f)"
  shows "client_inv H E c' \<and> rcv_ok H E c' (js @ [Rcv Recv_While]) \<and> list_all (fine H E) js"
proof (cases f)
  case (File_Alloc h)
  with assms show ?thesis by (auto simp: rcv_ok_def split: if_splits)
next
  case (File_While h d)
  have "rcv_ok H E c [File (File_Recv h d), Rcv Recv_While]" if "length d < unat (payload_size h)"
    using assms(3) File_While that by (auto simp: rcv_ok_def)
  moreover have "rcv_ok H E c [File (File_Check h d), Rcv Recv_While]" if "\<not> (length d < unat (payload_size h) \<and> running c)"
    using assms(3) File_While that inside_size by (fastforce simp: rcv_ok_def)
  ultimately show ?thesis using File_While assms(1,2) by (auto split: if_splits)
next
  case (File_Recv h d)
  let ?k = "min 4096 (unat (payload_size h) - length d)"
  obtain r c1 where r: "client_recv ?k c = (r, c1)" by (cases "client_recv ?k c")
  have rd: "reads c c1" using reads_recv [OF r] .
  have ci: "client_inv H E c1" using client_inv_reads [OF rd assms(2)] .
  have broken: "rcv_ok H E c1 [File (File_Broken h), Rcv Recv_While]"
    by (rule rcv_ok_read [OF rd assms(3)]) simp
  show ?thesis
  proof (cases "r = None \<or> r = Some []")
    case True
    with broken ci File_Recv assms(1) r show ?thesis by auto
  next
    case False
    then obtain bs where bs: "r = Some bs" "bs \<noteq> []" by auto
    have "rcv_ok H E c1 [File (File_While h (d @ bs)), Rcv Recv_While]"
    proof (cases "socket_live c")
      case True
      then obtain s where s: "sock_recv (cnet c (csocket c)) ?k = (Some bs, s)" "cnet c1 (csocket c) = s"
        using r bs by (auto simp: client_recv_def split: prod.splits)
      show ?thesis
      proof (rule rcv_ok_read [OF rd assms(3)])
        fix T assume "sync H T (sock_readable (cnet c (csocket c))) (running c) [File f, Rcv Recv_While]"
        then have i: "inside H T (sock_readable (cnet c (csocket c))) h d" "length d < unat (payload_size h)"
          using File_Recv by simp_all
        then have "0 < ?k" by simp
        from kernel.recv_data [OF this s(1) bs(2)] have
          "length bs \<le> ?k" "sock_readable (cnet c (csocket c)) = bs @ sock_readable s" by simp_all
        with inside_more [of H T bs "sock_readable s" h d] i s(2)
        show "sync H T (sock_readable (cnet c1 (csocket c))) (running c) [File (File_While h (d @ bs)), Rcv Recv_While]"
          by simp
      qed
    next
      case False
      with rd show ?thesis by (simp add: rcv_ok_def reads_def)
    qed
    with ci File_Recv assms(1) r bs show ?thesis by (auto simp: rcv_ok_def)
  qed
next
  case (File_Broken h)
  with assms show ?thesis by (auto simp: rcv_ok_def transfer_fault_def link_causes_def split: if_splits)
next
  case (File_Check h d)
  show ?thesis
  proof (cases "running c")
    case False
    with File_Check assms show ?thesis by (auto simp: rcv_ok_def)
  next
    case True
    then obtain j where j: "socket_calls c = Suc j" "length d = unat (payload_size h)"
      "inside H (sock_readable (ch_traffic E j)) (sock_readable (cnet c (csocket c))) h d"
      using File_Check assms(2,3) by (auto simp: rcv_ok_def client_inv_def)
    note w = inside_whole [OF j(3,2)]
    have "map_sent H E d" using w(1) by (auto simp: map_sent_def)
    with w(3) True File_Check assms j show ?thesis by (auto simp: rcv_ok_def)
  qed
next
  case (File_Save h d)
  have "client_inv H E ((clock_tick c)\<lparr>saved := saved c @ [(path, d)]\<rparr>)" for path
    using assms(2,4) File_Save by (simp add: client_inv_def socket_live_def link_faults_def clock_tick_def)
  moreover have "rcv_ok H E ((clock_tick c)\<lparr>saved := saved c @ [(path, d)]\<rparr>) [Rcv Recv_While]" for path
    using assms(3) File_Save inside_whole(2) by (fastforce simp: rcv_ok_def clock_tick_def socket_live_def)
  ultimately show ?thesis using File_Save assms(1) by (auto simp: Let_def rcv_ok_def)
qed

subsection \<open>The other threads\<close>

fun reader :: "instr \<Rightarrow> bool" where
  "reader (Rcv p) = True"
| "reader (File f) = True"
| "reader _ = False"

definition closing :: "instr \<Rightarrow> bool" where
  "closing i \<longleftrightarrow> i = Do Close \<or> i = Do Forget \<or> i = Call Close_If_Open"

text \<open>What a step leaves that does not read: of the client, and what it puts in front of the thread's list.\<close>

definition bystander :: "host \<Rightarrow> client_host \<Rightarrow> client \<Rightarrow> client \<Rightarrow> instr list \<Rightarrow> bool" where
  "bystander H E c c' js \<longleftrightarrow>
     same_stream c c' \<and> (running c' \<longrightarrow> socket_live c') \<and>
     list_all (\<lambda>i. fine H E i \<and> \<not> reader i \<and> (closing i \<longrightarrow> \<not> running c')) js"

lemma bystander_keeps:
  "same_stream c c' \<Longrightarrow> keeps c c' \<Longrightarrow> client_inv H E c \<Longrightarrow>
     list_all (\<lambda>i. fine H E i \<and> \<not> reader i \<and> (closing i \<longrightarrow> \<not> running c')) js \<Longrightarrow> bystander H E c c' js"
  using keeps_live [of c c'] by (simp add: bystander_def client_inv_def keeps_def)

lemma bystander_still:
  "client_inv H E c \<Longrightarrow>
     bystander H E c c js = list_all (\<lambda>i. fine H E i \<and> \<not> reader i \<and> (closing i \<longrightarrow> \<not> running c)) js"
  by (simp add: bystander_def client_inv_def)

lemma op_bystander:
  assumes "op_fine oper" "closing (Do oper) \<longrightarrow> \<not> running c" "client_inv H E c"
  shows "bystander H E c (perform E oper c) []"
proof (cases "closing (Do oper)")
  case True
  then have "running (perform E oper c) = running c" by (auto simp: closing_def do_close_def)
  with True assms(2) same_stream_perform [OF assms(1)] show ?thesis by (simp add: bystander_def)
next
  case False
  then have "worker_op oper" using assms(1) by (auto simp: worker_op_def closing_def)
  from bystander_keeps [OF same_stream_perform [OF assms(1)] keeps_perform [OF this] assms(3)] show ?thesis by simp
qed

lemma after_send_fine:
  "list_all (\<lambda>i. fine H E i \<and> \<not> reader i \<and> \<not> closing i) (after_send p hdr ok)"
  by (cases p; cases ok) (simp_all add: closing_def link_causes_def)

lemma call_bystander:
  assumes "client_call E k c = (js, c')" "fine H E (Call k)" "closing (Call k) \<longrightarrow> \<not> running c" "client_inv H E c"
  shows "bystander H E c c' js"
proof (cases k)
  case (Send_Packet p n)
  obtain hdr pl where h: "packet_for p (cid c) n = (hdr, pl)" by (cases "packet_for p (cid c) n")
  obtain ok c1 where s: "sendPacketLocked hdr pl c = (ok, c1)" by (cases "sendPacketLocked hdr pl c")
  have "js = after_send p hdr ok" "c' = c1" using assms(1) Send_Packet h s by (simp_all del: packet_for.simps)
  with after_send_fine [of H E p hdr ok] show ?thesis
    by (intro bystander_keeps [OF _ _ assms(4)])
       (use same_stream_sendPacket [OF s] keeps_same [OF same_connection_sendPacket [OF s]] in \<open>auto simp: list_all_iff\<close>)
next
  case Disconnect_Exchange
  have "keeps c (c\<lparr>running := False\<rparr>)" by (simp add: keeps_def)
  with Disconnect_Exchange assms show ?thesis
    by (intro bystander_keeps [OF _ _ assms(4)]) (auto simp: closing_def split: if_splits)
qed (use assms in \<open>auto simp: bystander_still closing_def split: if_splits\<close>)

lemma telemetry_bystander:
  assumes "telemetryLoop E p c = (js, c')" "client_inv H E c"
  shows "bystander H E c c' js"
proof (cases p)
  case Tel_Tick
  have "keeps c (c\<lparr>flightSim := f, ticks := k\<rparr>)" for f k by (simp add: keeps_def)
  with Tel_Tick assms show ?thesis
    by (intro bystander_keeps [OF _ _ assms(2)]) (auto simp: Let_def closing_def)
qed (use assms in \<open>auto simp: bystander_still closing_def split: if_splits\<close>)

lemma menu_bystander:
  assumes "menuLoop E m a = (js, a')" "m \<noteq> Menu_Connect" "m \<noteq> Spawn" "m = Menu_Poll \<longrightarrow> \<not> running (cl a)"
    "client_inv H E (cl a)"
  shows "bystander H E (cl a) (cl a') js \<and> prog a' = prog a"
proof -
  have "cl a' = cl a" using assms(1-3) by (cases m) (auto simp: tryPopInput_def Let_def split: if_splits list.splits)
  moreover have "prog a' = prog a"
    using assms(1-3) by (cases m) (auto simp: tryPopInput_def Let_def split: if_splits list.splits)
  moreover have "list_all (\<lambda>i. fine H E i \<and> \<not> reader i \<and> (closing i \<longrightarrow> \<not> running (cl a))) js"
    using assms(1-4)
    by (cases m) (auto simp: closing_def session_over_def tryPopInput_def Let_def split: if_splits list.splits)
  ultimately show ?thesis using bystander_still [OF assms(5)] by simp
qed

subsection \<open>Every reachable state\<close>

definition reception :: "host \<Rightarrow> client_host \<Rightarrow> app \<Rightarrow> bool" where
  "reception H E a \<longleftrightarrow>
     client_inv H E (cl a) \<and> rcv_ok H E (cl a) (prog a Receiver_Thread) \<and>
     (\<forall>t. list_all (fine H E) (prog a t)) \<and>
     (\<forall>t. t \<noteq> Receiver_Thread \<longrightarrow> list_all (\<lambda>i. \<not> reader i) (prog a t)) \<and>
     (\<forall>t. list_all (\<lambda>i. closing i \<longrightarrow> \<not> running (cl a)) (prog a t))"

text \<open>A step of a thread other than the receiver.\<close>

lemma reception_other:
  assumes "reception H E a" "prog a t = i # is" "bystander H E (cl a) c js" "t \<noteq> Receiver_Thread"
    and "cl a' = c" "prog a' = (prog a)(t := js @ is)"
  shows "reception H E a'"
proof -
  have b: "same_stream (cl a) c" "running c \<longrightarrow> socket_live c"
    "list_all (\<lambda>i. fine H E i \<and> \<not> reader i \<and> (closing i \<longrightarrow> \<not> running c)) js"
    using assms(3) by (simp_all add: bystander_def)
  have r: "client_inv H E (cl a)" "rcv_ok H E (cl a) (prog a Receiver_Thread)" "\<And>t. list_all (fine H E) (prog a t)"
    "\<And>t. t \<noteq> Receiver_Thread \<Longrightarrow> list_all (\<lambda>i. \<not> reader i) (prog a t)"
    "\<And>t. list_all (\<lambda>i. closing i \<longrightarrow> \<not> running (cl a)) (prog a t)"
    using assms(1) by (simp_all add: reception_def)
  have run: "running c \<longrightarrow> running (cl a)" using b(1) by (simp add: same_stream_def)
  have "rcv_ok H E c (prog a' Receiver_Thread)" using rcv_ok_same [OF b(1) r(2)] assms(4,6) by simp
  moreover have "client_inv H E c" using client_inv_same [OF b(1,2) r(1)] .
  moreover have "list_all (fine H E) (prog a' t')" for t'
    using r(3) [of t'] r(3) [of t] b(3) assms(2,6) by (auto simp: list_all_iff)
  moreover have "t' \<noteq> Receiver_Thread \<Longrightarrow> list_all (\<lambda>i. \<not> reader i) (prog a' t')" for t'
    using r(4) [of t'] r(4) [of t] b(3) assms(2,6) by (auto simp: list_all_iff)
  moreover have "list_all (\<lambda>i. closing i \<longrightarrow> \<not> running c) (prog a' t')" for t'
    using r(5) [of t'] r(5) [of t] b(3) run assms(2,6) by (auto simp: list_all_iff)
  ultimately show ?thesis using assms(5) by (simp add: reception_def)
qed

text \<open>A step of the receiver.\<close>

lemma rcv_form_closes: "rcv_form is \<Longrightarrow> list_all (\<lambda>i. \<not> closing i) is"
  by (induction rule: rcv_form.induct) (auto simp: closing_def worker_op_def)

lemma receiver_exec:
  assumes "rcv_form (i # is)" "exec E i a = (js, a')" "client_inv H E (cl a)" "rcv_ok H E (cl a) (i # is)" "fine H E i"
  shows "client_inv H E (cl a') \<and> rcv_ok H E (cl a') (js @ is) \<and> list_all (fine H E) js"
  using assms(1)
proof (cases rule: rcv_form.cases)
  case (rcv_op oper)
  then have f: "op_fine oper" "js = []" "cl a' = perform E oper (cl a)" using assms(2,5) by auto
  have "closing (Do oper) \<longrightarrow> \<not> running (cl a)" using rcv_op by (simp add: closing_def worker_op_def)
  from op_bystander [OF f(1) this assms(3)] have b: "same_stream (cl a) (cl a')" "running (cl a') \<longrightarrow> socket_live (cl a')"
    by (simp_all add: bystander_def f(3))
  have "rcv_ok H E (cl a') (Do oper # is)" using rcv_ok_same [OF b(1) assms(4)] rcv_op by simp
  moreover have "oper = Store_Running False \<longrightarrow> \<not> running (cl a')" using f(3) by auto
  ultimately have "rcv_ok H E (cl a') is" by (auto simp: rcv_ok_def intro: sync_stop)
  with client_inv_same [OF b assms(3)] f(2) show ?thesis by simp
next
  case (rcv_fault cause)
  with assms show ?thesis by (auto simp: lift_client_def rcv_ok_def)
next
  case (rcv_point p)
  then obtain c where "receiverLoop E p (cl a) = (js, c)" "a' = a\<lparr>cl := c\<rparr>"
    using lift_clientD assms(2) by (metis exec.simps(4))
  with receiver_stream [OF _ assms(3), of p js c] assms(4,5) rcv_point show ?thesis by simp
next
  case (rcv_file f)
  then obtain c where "receiveLargeFile E f (cl a) = (js, c)" "a' = a\<lparr>cl := c\<rparr>"
    using lift_clientD assms(2) by (metis exec.simps(5))
  with file_stream [OF _ assms(3), of f js c] assms(4,5) rcv_file show ?thesis by simp
qed

lemma reception_receiver:
  assumes "reception H E a" "app_inv a" "prog a Receiver_Thread = i # is" "exec E i a = (js, a')"
  shows "reception H E (a'\<lparr>prog := (prog a')(Receiver_Thread := js @ is)\<rparr>)"
proof -
  have f: "rcv_form (i # is)" using assms(2,3) by (simp add: app_inv_def workers_ok_def)
  have r: "client_inv H E (cl a)" "rcv_ok H E (cl a) (i # is)" "\<And>t. list_all (fine H E) (prog a t)"
    "\<And>t. t \<noteq> Receiver_Thread \<Longrightarrow> list_all (\<lambda>i. \<not> reader i) (prog a t)"
    "\<And>t. list_all (\<lambda>i. closing i \<longrightarrow> \<not> running (cl a)) (prog a t)"
    using assms(1,3) by (simp_all add: reception_def)
  have fi: "fine H E i" "list_all (fine H E) is" using r(3) [of Receiver_Thread] assms(3) by simp_all
  note x = receiver_exec [OF f assms(4) r(1,2) fi(1)]
  have w: "rcv_form (js @ is)" "keeps (cl a) (cl a')" "prog a' = prog a"
    using rcv_exec [OF f assms(4)] by (auto simp: worker_step_def dest: arg_cong [of a' _ prog])
  have "running (cl a') \<longrightarrow> running (cl a)" using w(2) by (simp add: keeps_def)
  with r(5) have "list_all (\<lambda>i. closing i \<longrightarrow> \<not> running (cl a')) (prog a t)" for t
    by (auto simp: list_all_iff)
  moreover have "list_all (\<lambda>i. closing i \<longrightarrow> \<not> running (cl a')) (js @ is)"
    using rcv_form_closes [OF w(1)] by (auto simp: list_all_iff)
  ultimately show ?thesis using x w(3) fi(2) r(3,4) by (simp add: reception_def)
qed

text \<open>The main thread: connecting, starting the workers, and the rest.\<close>

inductive_cases main_at_pointE: "main_at f (Menu m # is)"

lemma main_at_point: "main_at f (Menu m # is) \<Longrightarrow> m \<in> menu_points \<Longrightarrow> is = [] \<and> at_menu f"
  by (erule main_at_pointE) (auto simp: menu_points_def session_points_def joins_def)

lemma main_at_spawn: "main_at f (Menu Spawn # is) \<Longrightarrow> is = [Menu Session_While] \<and> tel_done f \<and> rcv_done f"
  by (erule main_at_pointE) (auto simp: menu_points_def session_points_def joins_def)

definition served :: "host \<Rightarrow> client_host \<Rightarrow> bool" where
  "served H E \<longleftrightarrow> (\<forall>j. server_line H (sock_readable (ch_traffic E j)))"

lemma thread_other: "t \<noteq> Main \<Longrightarrow> t = Telemetry_Thread \<or> t = Receiver_Thread"
  by (cases t) auto

lemma reception_connect:
  assumes "reception H E a" "app_inv a" "served H E" "prog a Main = Menu Menu_Connect # is"
    and "exec E (Menu Menu_Connect) a = (js, a')"
  shows "reception H E (a'\<lparr>prog := (prog a')(Main := js @ is)\<rparr>)"
proof -
  obtain ok c where c: "connectSession E (cl a) = (ok, c)" by (cases "connectSession E (cl a)")
  have m: "is = []" "at_menu (facts_of a)"
    using assms(2,4) main_at_point [of "facts_of a" Menu_Connect "is"] by (auto simp: app_inv_def menu_points_def)
  then have q: "\<not> running (cl a)" "csocket (cl a) = INVALID_SOCK" "t \<noteq> Main \<Longrightarrow> prog a t = []" for t
    using thread_other [of t] by (auto simp: at_menu_def facts_of_def)
  have u: "unconnected (cl a)" using q assms(2) by (simp add: unconnected_def app_inv_def)
  have e: "ended_clean ok c" using connect_ends [OF u c] by simp
  have st: "attempt_stream E (cl a) (Some ok, c)" using connect_stream [OF c] .
  have live: "socket_live c \<longrightarrow> ok" "running c \<longrightarrow> socket_live c"
    using e by (auto simp: ended_clean_def socket_live_def split: if_splits)
  have inv: "client_inv H E c"
    using st assms(1) live by (auto simp: client_inv_def attempt_stream_def reception_def)
  have rcv: "rcv_ok H E c []"
  proof (cases ok)
    case True
    then obtain j where j: "socket_calls c = Suc j" "greeted (sock_readable (ch_traffic E j))"
      "sock_readable (cnet c (csocket c)) = drop header_size (sock_readable (ch_traffic E j))"
      using st by (auto simp: attempt_stream_def at_start_def)
    from boundary_start [of H "sock_readable (ch_traffic E j)"] j assms(3) show ?thesis
      by (simp add: rcv_ok_def served_def greeted_def)
  qed (use live in \<open>simp add: rcv_ok_def\<close>)
  have js: "js = (if ok then [Menu Spawn, Menu Session_While] else [Menu Menu_While])" "cl a' = c" "prog a' = prog a"
    using assms(5) c by (auto split: bool.splits)
  have "list_all (\<lambda>i. fine H E i \<and> \<not> reader i \<and> \<not> closing i) js" by (simp add: js(1) closing_def)
  with inv rcv q(3) m(1) js(2,3) show ?thesis by (auto simp: reception_def list_all_iff)
qed

lemma reception_spawn:
  assumes "reception H E a" "app_inv a" "prog a Main = Menu Spawn # is" "exec E (Menu Spawn) a = (js, a')"
  shows "reception H E (a'\<lparr>prog := (prog a')(Main := js @ is)\<rparr>)"
proof -
  have m: "is = [Menu Session_While]" "prog a Receiver_Thread = []"
    using assms(2,3) main_at_spawn [of "facts_of a" "is"] by (auto simp: app_inv_def facts_of_def)
  have e: "js = []" "cl a' = cl a"
    "prog a' = (prog a)(Telemetry_Thread := [Tel Tel_While], Receiver_Thread := [Do (Store_Alive True), Rcv Recv_While])"
    using assms(4) by auto
  have "rcv_ok H E (cl a) [Do (Store_Alive True), Rcv Recv_While]"
    using assms(1) m(2) by (auto simp: reception_def rcv_ok_def)
  with assms(1) m(1) e show ?thesis by (auto simp: reception_def closing_def)
qed

lemma reception_main:
  assumes "reception H E a" "app_inv a" "served H E" "prog a Main = i # is" "exec E i a = (js, a')"
  shows "reception H E (a'\<lparr>prog := (prog a')(Main := js @ is)\<rparr>)"
proof -
  have c: "client_inv H E (cl a)" and i: "fine H E i" "\<not> reader i" "closing i \<longrightarrow> \<not> running (cl a)"
  proof -
    have "list_all (fine H E) (i # is)" "list_all (\<lambda>i. \<not> reader i) (i # is)"
      "list_all (\<lambda>i. closing i \<longrightarrow> \<not> running (cl a)) (i # is)"
      using assms(1,4) by (metis reception_def thread.distinct(4))+
    then show "client_inv H E (cl a)" "fine H E i" "\<not> reader i" "closing i \<longrightarrow> \<not> running (cl a)"
      using assms(1) by (simp_all add: reception_def)
  qed
  note other = reception_other [OF assms(1,4)]
  have lift: "reception H E (a'\<lparr>prog := (prog a')(Main := js @ is)\<rparr>)"
    if lc: "lift_client f a = (js, a')" "\<And>js c. f (cl a) = (js, c) \<Longrightarrow> bystander H E (cl a) c js" for f
  proof -
    obtain c where "f (cl a) = (js, c)" "a' = a\<lparr>cl := c\<rparr>" using lift_clientD [OF lc(1)] by auto
    with lc(2) show ?thesis by (intro other) auto
  qed
  show ?thesis
  proof (cases i)
    case (Do oper)
    with assms(5) i c op_bystander [of oper "cl a" H E] show ?thesis by (intro other) auto
  next
    case (Call k)
    with assms(5) i c call_bystander [of E k "cl a"] show ?thesis by (intro lift) auto
  next
    case (Tel p)
    with assms(5) c telemetry_bystander [of E p "cl a"] show ?thesis by (intro lift) auto
  next
    case (Menu m)
    consider "m = Menu_Connect" | "m = Spawn" | "m \<noteq> Menu_Connect" "m \<noteq> Spawn" by blast
    then show ?thesis
    proof cases
      case 1
      with Menu assms reception_connect show ?thesis by simp
    next
      case 2
      with Menu assms(4,5) have "prog a Main = Menu Spawn # is" "exec E (Menu Spawn) a = (js, a')" by (simp_all only:)
      then show ?thesis by (rule reception_spawn [OF assms(1,2)])
    next
      case 3
      have at: "main_at (facts_of a) (Menu m # is)" using assms(2,4) Menu by (simp add: app_inv_def)
      have "m = Menu_Poll \<longrightarrow> \<not> running (cl a)"
      proof
        assume "m = Menu_Poll"
        then have "m \<in> menu_points" by (simp add: menu_points_def)
        from main_at_point [OF at this] show "\<not> running (cl a)" by (simp add: at_menu_def facts_of_def)
      qed
      note b = menu_bystander [OF _ 3 this c]
      have "menuLoop E m a = (js, a')" using assms(5) Menu by simp
      then have "bystander H E (cl a) (cl a') js" "prog a' = prog a" using b by simp_all
      then show ?thesis by (intro other [of "cl a'" js]) simp_all
    qed
  qed (use i(2) in simp_all)
qed

lemma reception_telemetry:
  assumes "reception H E a" "app_inv a" "prog a Telemetry_Thread = i # is" "exec E i a = (js, a')"
  shows "reception H E (a'\<lparr>prog := (prog a')(Telemetry_Thread := js @ is)\<rparr>)"
proof -
  have c: "client_inv H E (cl a)" "fine H E i"
    using assms(1,3) by (auto simp: reception_def dest: spec [of _ Telemetry_Thread])
  have f: "tel_form (i # is)" using assms(2,3) by (simp add: app_inv_def workers_ok_def)
  have w: "a' = a\<lparr>cl := cl a'\<rparr>" using tel_exec [OF f assms(4)] by (simp add: worker_step_def)
  then have pr: "prog a' = prog a" by (metis app.select_convs(5) app.surjective app.update_convs(1))
  have "bystander H E (cl a) (cl a') js"
    using f
  proof (cases rule: tel_form.cases)
    case (tel_op oper)
    with assms(4) c op_bystander [of oper "cl a" H E] show ?thesis by (auto simp: closing_def worker_op_def)
  next
    case (tel_point p)
    then have "lift_client (telemetryLoop E p) a = (js, a')" using assms(4) by simp
    from lift_clientD [OF this] telemetry_bystander [OF _ c(1)] show ?thesis by auto
  next
    case (tel_take p)
    then have "lift_client (client_call E (Take_Sequence (For_Telemetry p))) a = (js, a')" using assms(4) by simp
    from lift_clientD [OF this] call_bystander [OF _ _ _ c(1)] show ?thesis by (fastforce simp: closing_def)
  next
    case (tel_send p n)
    then have "lift_client (client_call E (Send_Packet (For_Telemetry p) n)) a = (js, a')" using assms(4) by simp
    then obtain c where "client_call E (Send_Packet (For_Telemetry p) n) (cl a) = (js, c)" "a' = a\<lparr>cl := c\<rparr>"
      using lift_clientD by blast
    with call_bystander [OF this(1) _ _ c(1)] show ?thesis by (simp add: closing_def)
  qed
  from reception_other [OF assms(1,3) this] pr show ?thesis by simp
qed

lemma reception_step:
  assumes "reception H E a" "app_inv a" "served H E" "ready t a"
  shows "reception H E (app_step E t a)"
proof -
  obtain i "is" where p: "prog a t = i # is" using assms(4) by (auto simp: ready_def split: list.splits)
  obtain js a' where e: "exec E i a = (js, a')" by (cases "exec E i a")
  show ?thesis
    using reception_main [OF assms(1-3) _ e] reception_telemetry [OF assms(1,2) _ e]
      reception_receiver [OF assms(1,2) _ e] p app_step_eq [OF p e]
    by (cases t) simp_all
qed

lemma reception_reachable:
  "client_reachable E a0 a \<Longrightarrow> reception H E a0 \<Longrightarrow> app_inv a0 \<Longrightarrow> served H E \<Longrightarrow> reception H E a"
proof (induction rule: client_reachable.induct)
  case (step a a')
  then have r: "reception H E a" "app_inv a" using app_inv_reachable by blast+
  from step(2) show ?case
  proof cases
    case (thread t)
    with reception_step [OF r step.prems(3)] show ?thesis by simp
  next
    case (typed line)
    with r(1) show ?thesis by (simp add: reception_def)
  qed
qed simp

lemma reception_start: "commsLog lg = [] \<Longrightarrow> reception H E (start_app options lg n)"
  by (simp add: reception_def start_app_def new_client_def client_inv_def rcv_ok_def link_faults_def socket_live_def
      closing_def)

text \<open>What the server of this host, over any of its runs, may have written to a connection by now.\<close>

definition from_server :: "host \<Rightarrow> byte list \<Rightarrow> bool" where
  "from_server H bs \<longleftrightarrow>
     (\<exists>lg n sv h. reachable H (start_server lg n) sv \<and> h \<in> set (accepted sv) \<and>
        prefix bs (outb (wnet (sworld sv) h)))"

lemma from_server_line: "from_server H bs \<Longrightarrow> server_line H bs"
  unfolding from_server_def using talk_inv_line talk_inv_reachable talk_inv_start server_line_prefix by metis

text \<open>
  C6. An aircraft saves only what the server sent, and never finds fault with it: when each of its
  connections carries a beginning of what some run of the server wrote to a connection, then
  whatever the user types, the sockets and the machine do, and however the three threads interleave,
  every file the client has saved is the whole content of a map that stands on one of those
  streams, generated by the server for an aircraft and a number, and every fault in the client's
  log is that of a lost connection (no checksum mismatch, no unexpected packet).
\<close>

theorem client_saves_what_was_sent:
  assumes "client_reachable E (start_app options (new_logger role logsRoot ms pid) n) a"
    and "\<And>h. closes (n h) = 0" "\<And>j. from_server H (sock_readable (ch_traffic E j))"
  shows "list_all (\<lambda>(path, d). map_sent H E d) (saved (cl a)) \<and>
    list_all (\<lambda>l. is_fault_line l \<longrightarrow>
      fault_cause l \<in> {''TelemetrySendFailure'', ''ReceiveFailure'', ''LargeFileReceiveFailure''})
      (commsLog (clogger (cl a)))"
proof -
  let ?a0 = "start_app options (new_logger role logsRoot ms pid) n"
  have "app_inv ?a0" using assms(2) by (intro app_inv_start) simp
  moreover have "reception H E ?a0" by (rule reception_start) (simp add: new_logger_def Let_def)
  moreover have "served H E" using assms(3) from_server_line by (simp add: served_def)
  ultimately have "client_inv H E (cl a)" using reception_reachable [OF assms(1)] by (simp add: reception_def)
  then show ?thesis by (simp add: client_inv_def link_faults_def link_line_def [abs_def] link_causes_def)
qed

end
