(* ===== verification/Client_Transfer.thy ===== *)
theory Client_Transfer
  imports Client_Run
begin

text \<open>
  The weather map from end to end: what \<open>sendWeatherMap\<close> of the server writes, read by
  \<open>receiverLoop\<close> and \<open>receiveLargeFile\<close> of the client, and saved.
\<close>

subsection \<open>One thread running alone\<close>

definition alone :: "client_host \<Rightarrow> thread \<Rightarrow> app \<Rightarrow> app \<Rightarrow> bool" where
  "alone E t a a' \<longleftrightarrow> (\<exists>k. run E (replicate k t) a = Some a')"

lemma alone_refl [simp]: "alone E t a a"
  by (auto simp: alone_def intro: exI [of _ 0])

lemma alone_trans: "alone E t a b \<Longrightarrow> alone E t b c \<Longrightarrow> alone E t a c"
  unfolding alone_def by (metis replicate_add run_append option.simps(5))

lemma alone_step:
  assumes "prog a t = i # is" "\<And>t'. i \<noteq> Menu (Join t')" "exec E i a = (js, a1)"
  shows "alone E t a (a1\<lparr>prog := (prog a1)(t := js @ is)\<rparr>)"
  using run_one [of a t i "is", OF assms, of "[]"] unfolding alone_def by (intro exI [of _ 1]) simp

lemma alone_lift:
  assumes "prog a t = i # is" "exec E i a = lift_client f a" "f (cl a) = (js, c)" "\<And>t'. i \<noteq> Menu (Join t')"
  shows "alone E t a (a\<lparr>cl := c, prog := (prog a)(t := js @ is)\<rparr>)"
proof -
  have "exec E i a = (js, a\<lparr>cl := c\<rparr>)" using assms(2,3) by (simp add: lift_client_def)
  from alone_step [OF assms(1,4) this] show ?thesis by simp
qed

lemma alone_rcv:
  "prog a t = Rcv p # is \<Longrightarrow> receiverLoop E p (cl a) = (js, c) \<Longrightarrow>
     alone E t a (a\<lparr>cl := c, prog := (prog a)(t := js @ is)\<rparr>)"
  by (rule alone_lift [where i = "Rcv p" and f = "receiverLoop E p"]) simp_all

lemma alone_file:
  "prog a t = File f # is \<Longrightarrow> receiveLargeFile E f (cl a) = (js, c) \<Longrightarrow>
     alone E t a (a\<lparr>cl := c, prog := (prog a)(t := js @ is)\<rparr>)"
  by (rule alone_lift [where i = "File f" and f = "receiveLargeFile E f"]) simp_all

text \<open>A sequence of instructions without a branch.\<close>

lemma alone_ops:
  "prog a t = map Do ops @ is \<Longrightarrow>
     alone E t a (a\<lparr>cl := fold (perform E) ops (cl a), prog := (prog a)(t := is)\<rparr>)"
proof (induction ops arbitrary: a)
  case Nil
  then have "a\<lparr>cl := fold (perform E) [] (cl a), prog := (prog a)(t := is)\<rparr> = a" by (simp add: fun_upd_idem)
  then show ?case by (metis alone_refl)
next
  case (Cons oper ops)
  let ?b = "a\<lparr>cl := perform E oper (cl a), prog := (prog a)(t := map Do ops @ is)\<rparr>"
  have "alone E t a ?b"
    using alone_step [of a t "Do oper" "map Do ops @ is" E "[]" "a\<lparr>cl := perform E oper (cl a)\<rparr>"] Cons.prems by simp
  from alone_trans [OF this Cons.IH [of ?b]] show ?case by (simp cong: if_cong)
qed

subsection \<open>The connection while it is read\<close>

text \<open>What a step of the receiver leaves: the same open, running connection with these bytes to come.\<close>

definition reading :: "client \<Rightarrow> byte list \<Rightarrow> client \<Rightarrow> bool" where
  "reading c0 bs c \<longleftrightarrow>
     running c \<and> socket_live c \<and> sock_readable (cnet c (csocket c)) = bs \<and> cid c = cid c0 \<and> saved c = saved c0"

lemma reading_small [simp]:
  "reading c0 bs (setState s m c) = reading c0 bs c" "reading c0 bs (printLine l c) = reading c0 bs c"
  "reading c0 bs (client_logPacket E d hdr c) = reading c0 bs c" "reading c0 bs (client_logInfo E l c) = reading c0 bs c"
  "reading c0 bs (c\<lparr>fileTransferActive := b\<rparr>) = reading c0 bs c"
  "reading c0 bs (c\<lparr>polls := n, polled_dead := b\<rparr>) = reading c0 bs c"
  by (simp_all add: reading_def setState_def printLine_def client_logPacket_def client_logInfo_def clock_tick_def
      socket_live_def)

lemma reading_recvAll:
  assumes "reading c0 (bs @ rest) c" "length bs = k"
  shows "\<exists>c'. client_recvAll k c = (Some bs, c') \<and> reading c0 rest c'"
proof -
  obtain r n where n: "net_recvAll (cnet c) (csocket c) k = (r, n)" by (cases "net_recvAll (cnet c) (csocket c) k")
  have rd: "sock_readable (cnet c (csocket c)) = bs @ rest" using assms(1) by (simp add: reading_def)
  have r: "r = Some bs"
    using net_recvAll_value [of "cnet c" "csocket c" k] n assms by (simp add: reading_def)
  have "closes (n (csocket c)) = closes (cnet c (csocket c))" using net_closes(1) [OF n] .
  moreover have "sock_readable (n (csocket c)) = rest"
    using net_recvAll_Some [OF n [unfolded r]] rd assms(2) by simp
  ultimately show ?thesis
    using n r assms by (simp add: client_recvAll_def reading_def socket_live_def)
qed

text \<open>A \<open>recv\<close> returns a part of what is there to read.\<close>

lemma reading_recv:
  assumes "reading c0 bs c" "bs \<noteq> []" "0 < k"
  shows "\<exists>c' xs ys. client_recv k c = (Some xs, c') \<and> xs \<noteq> [] \<and> length xs \<le> k \<and> bs = xs @ ys \<and> reading c0 ys c'"
proof -
  obtain r s where s: "sock_recv (cnet c (csocket c)) k = (r, s)" by (cases "sock_recv (cnet c (csocket c)) k")
  have "sock_readable (cnet c (csocket c)) \<noteq> []" using assms(1,2) by (simp add: reading_def)
  then have "\<not> (r = None \<or> r = Some [])" by (rule contrapos_nn) (rule kernel.recv_end [OF assms(3) s])
  then obtain xs where xs: "r = Some xs" "xs \<noteq> []" by (cases r) auto
  have d: "length xs \<le> k" "bs = xs @ sock_readable s"
    using kernel.recv_data [OF assms(3) s [unfolded xs(1)] xs(2)] assms(1) by (simp_all add: reading_def)
  have "closes s = closes (cnet c (csocket c))" using sock_closes(1) [of "cnet c (csocket c)" k] s by simp
  with s xs d assms(1) show ?thesis
    by (intro exI [of _ "c\<lparr>cnet := (cnet c)(csocket c := s)\<rparr>"] exI [of _ xs] exI [of _ "sock_readable s"])
       (simp add: client_recv_def reading_def socket_live_def)
qed

subsection \<open>The download loop\<close>

lemma download:
  assumes "reading c0 (todo @ rest) (cl a)" "prog a t = File (File_While header got) # is"
    "length got + length todo = unat (payload_size header)"
  shows "\<exists>a'. alone E t a a' \<and> reading c0 rest (cl a') \<and>
    prog a' = (prog a)(t := File (File_Check header (got @ todo)) # is)"
  using assms
proof (induction "length todo" arbitrary: a got todo rule: less_induct)
  case less
  have run: "running (cl a)" using less.prems(1) by (simp add: reading_def)
  show ?case
  proof (cases "todo = []")
    case True
    have "receiveLargeFile E (File_While header got) (cl a) = ([File (File_Check header got)], cl a)"
      using less.prems(3) True by simp
    from alone_file [OF less.prems(2) this] less.prems(1) True show ?thesis
      by (intro exI [of _ "a\<lparr>prog := (prog a)(t := File (File_Check header got) # is)\<rparr>"]) simp
  next
    case False
    let ?k = "min 4096 (unat (payload_size header) - length got)"
    have pos: "0 < ?k" "length got < unat (payload_size header)" using False less.prems(3) by (cases todo; simp)+
    obtain c xs ys where r: "client_recv ?k (cl a) = (Some xs, c)" "xs \<noteq> []" "length xs \<le> ?k"
      "todo @ rest = xs @ ys" "reading c0 ys c"
      using reading_recv [OF less.prems(1) _ pos(1)] False by blast
    have "length xs \<le> length todo" using r(3) less.prems(3) by linarith
    with r(4) obtain zs where zs: "todo = xs @ zs" "ys = zs @ rest"
      by (auto simp: append_eq_append_conv2)
    define l where "l = ''[RX] Receiving weather map... '' @ dec (length (got @ xs)) @ ''/''
                    @ dec (unat (payload_size header)) @ '' bytes''"
    define b where "b = a\<lparr>cl := printLine l c, prog := (prog a)(t := File (File_While header (got @ xs)) # is)\<rparr>"
    define a1 where "a1 = a\<lparr>prog := (prog a)(t := File (File_Recv header got) # is)\<rparr>"
    define a2 where "a2 = a1\<lparr>cl := c, prog := (prog a1)(t :=
      [Do (Print_Line l), File (File_While header (got @ xs))] @ is)\<rparr>"
    have "receiveLargeFile E (File_While header got) (cl a) = ([File (File_Recv header got)], cl a)"
      using pos(2) run by simp
    from alone_file [OF less.prems(2) this] have 1: "alone E t a a1" by (simp add: a1_def)
    have "receiveLargeFile E (File_Recv header got) (cl a1) =
        ([Do (Print_Line l), File (File_While header (got @ xs))], c)"
      using r(1,2) by (simp add: l_def a1_def)
    note v = this
    have p1: "prog a1 t = File (File_Recv header got) # is" by (simp add: a1_def)
    from alone_file [OF p1 v] have 2: "alone E t a1 a2" by (simp only: a2_def)
    have "prog a2 t = map Do [Print_Line l] @ (File (File_While header (got @ xs)) # is)" by (simp add: a2_def)
    from alone_ops [OF this, of E] have 3: "alone E t a2 b" by (simp add: a2_def a1_def b_def)
    note ab = alone_trans [OF alone_trans [OF 1 2] 3]
    have "\<exists>a'. alone E t b a' \<and> reading c0 rest (cl a') \<and>
        prog a' = (prog b)(t := File (File_Check header ((got @ xs) @ zs)) # is)"
      using r(2,5) zs less.prems(3) by (intro less.hyps) (simp_all add: b_def)
    then obtain a' where "alone E t b a'" "reading c0 rest (cl a')"
      "prog a' = (prog b)(t := File (File_Check header ((got @ xs) @ zs)) # is)" by blast
    with alone_trans [OF ab] zs show ?thesis by (intro exI [of _ a']) (simp add: b_def)
  qed
qed

subsection \<open>A whole transfer\<close>

text \<open>A file that arrives whole and with the right checksum is saved.\<close>

lemma file_saved:
  assumes "reading c0 (data @ rest) (cl a)" "prog a t = File (File_Alloc header) # is"
    "length data = unat (payload_size header)" "computeChecksum data (payload_size header) = checksum header"
    "ch_malloc E (payload_size header)"
  shows "\<exists>a' ms. alone E t a a' \<and> running (cl a') \<and> socket_live (cl a') \<and>
    sock_readable (cnet (cl a') (csocket (cl a'))) = rest \<and> \<not> fileTransferActive (cl a') \<and>
    currentState (cl a') = C_CONNECTED \<and> prog a' = (prog a)(t := is) \<and>
    saved (cl a') = saved c0 @ [(receivedWeatherMapPathFor ms (cid c0) (sequence_number header), data)]"
proof -
  define a1 where "a1 = a\<lparr>prog := (prog a)(t := File (File_While header []) # is)\<rparr>"
  have "receiveLargeFile E (File_Alloc header) (cl a) = ([File (File_While header [])], cl a)"
    using assms(5) by simp
  from alone_file [OF assms(2) this] have 1: "alone E t a a1" by (simp add: a1_def)
  obtain a2 where 2: "alone E t a1 a2" "reading c0 rest (cl a2)"
    "prog a2 = (prog a1)(t := File (File_Check header data) # is)"
    using download [of c0 data rest a1 t header "[]" "is" E] assms(1,3) by (auto simp: a1_def)
  have run: "running (cl a2)" and p2: "prog a2 t = File (File_Check header data) # is"
    using 2(2,3) by (simp_all add: reading_def)
  define a3 where "a3 = a2\<lparr>prog := (prog a2)(t := File (File_Save header data) # is)\<rparr>"
  have "receiveLargeFile E (File_Check header data) (cl a2) = ([File (File_Save header data)], cl a2)"
    using run assms(4) by simp
  from alone_file [OF p2 this] have 3: "alone E t a2 a3" by (simp add: a3_def)
  define path where "path = receivedWeatherMapPathFor (client_now E (cl a2)) (cid (cl a2)) (sequence_number header)"
  define c4 where "c4 = (clock_tick (cl a2))\<lparr>saved := saved (cl a2) @ [(path, data)]\<rparr>"
  define ops where "ops =
      [Log_Packet ''RX'' header, Log_Info (''Weather map saved: '' @ path),
        Set_State C_CONNECTED (''[CONNECTED] Weather map saved: '' @ path),
        Print_Line (saved_line path (payload_size header)), Store_Transfer False]"
  define a4 where "a4 = a3\<lparr>cl := c4, prog := (prog a3)(t := map Do ops @ is)\<rparr>"
  have p3: "prog a3 t = File (File_Save header data) # is" by (simp add: a3_def)
  have "receiveLargeFile E (File_Save header data) (cl a3) = (map Do ops, c4)"
    by (simp add: a3_def path_def c4_def ops_def Let_def)
  from alone_file [OF p3 this] have 4: "alone E t a3 a4" by (simp add: a4_def)
  define c5 where "c5 = fold (perform E) ops c4"
  define a5 where "a5 = a4\<lparr>cl := c5, prog := (prog a4)(t := is)\<rparr>"
  have "prog a4 t = map Do ops @ is" by (simp add: a4_def)
  from alone_ops [OF this, of E] have 5: "alone E t a4 a5" by (simp add: a5_def a4_def c5_def)
  have c5: "running c5" "socket_live c5" "sock_readable (cnet c5 (csocket c5)) = rest" "\<not> fileTransferActive c5"
    "currentState c5 = C_CONNECTED" "saved c5 = saved c0 @ [(path, data)]"
    using 2(2)
    by (simp_all add: c5_def ops_def c4_def reading_def printLine_def setState_def client_logInfo_def client_logPacket_def
        clock_tick_def socket_live_def)
  have "path = receivedWeatherMapPathFor (client_now E (cl a2)) (cid c0) (sequence_number header)"
    using 2(2) by (simp add: path_def reading_def)
  with c5 alone_trans [OF alone_trans [OF alone_trans [OF alone_trans [OF 1 2(1)] 3] 4] 5] show ?thesis
    by (intro exI [of _ a5] exI [of _ "client_now E (cl a2)"])
       (simp add: a5_def a4_def a3_def 2(3) a1_def)
qed

text \<open>The receiver from one turn of its loop to the next, over a header and the file after it.\<close>

lemma map_received:
  assumes "prog a t = [Rcv Recv_While]" "running (cl a)" "socket_live (cl a)"
    "sock_readable (cnet (cl a) (csocket (cl a))) = header_bytes header @ data @ rest"
    "wf_header header" "packet_type header = LARGE_FILE"
    "length data = unat (payload_size header)" "computeChecksum data (payload_size header) = checksum header"
    "waitForReadable (ch_select E (polls (cl a))) (csocket (cl a)) 250" "ch_malloc E (payload_size header)"
  shows "\<exists>a' ms. alone E t a a' \<and> running (cl a') \<and> socket_live (cl a') \<and>
    sock_readable (cnet (cl a') (csocket (cl a'))) = rest \<and> \<not> fileTransferActive (cl a') \<and>
    currentState (cl a') = C_CONNECTED \<and> prog a' = prog a \<and>
    saved (cl a') = saved (cl a) @ [(receivedWeatherMapPathFor ms (cid (cl a)) (sequence_number header), data)]"
proof -
  define a1 where "a1 = a\<lparr>prog := (prog a)(t := [Rcv Recv_Wait])\<rparr>"
  have "receiverLoop E Recv_While (cl a) = ([Rcv Recv_Wait], cl a)" using assms(2) by simp
  from alone_rcv [OF assms(1) this] have 1: "alone E t a a1" by (simp add: a1_def)
  define c2 where "c2 = (cl a)\<lparr>polls := Suc (polls (cl a)), polled_dead := (polled_dead (cl a) \<or> \<not> socket_live (cl a))\<rparr>"
  define a2 where "a2 = a1\<lparr>cl := c2, prog := (prog a1)(t := [Rcv Recv_Header])\<rparr>"
  have p1: "prog a1 t = [Rcv Recv_Wait]" by (simp add: a1_def)
  have "receiverLoop E Recv_Wait (cl a1) = ([Rcv Recv_Header], c2)"
    using assms(9) by (simp add: a1_def c2_def)
  from alone_rcv [OF p1 this] have 2: "alone E t a1 a2" by (simp add: a2_def)
  have "reading (cl a) (header_bytes header @ data @ rest) c2"
    using assms(2-4) unfolding c2_def reading_small by (simp add: reading_def)
  then obtain c3 where c3: "client_recvAll header_size c2 = (Some (header_bytes header), c3)"
    "reading (cl a) (data @ rest) c3"
    using reading_recvAll [of "cl a" "header_bytes header" "data @ rest" c2] length_header_bytes [OF assms(5)] by blast
  define ops where "ops = [Store_Transfer True, Set_State C_LARGE_FILE_TRANSFER ''[RX] Receiving weather map...'']"
  define a3 where "a3 = a2\<lparr>cl := c3, prog := (prog a2)(t := map Do ops @ [File (File_Alloc header), Rcv Recv_While])\<rparr>"
  have p2: "prog a2 t = [Rcv Recv_Header]" by (simp add: a2_def)
  have "receiverLoop E Recv_Header (cl a2) = (map Do ops @ [File (File_Alloc header), Rcv Recv_While], c3)"
    using c3(1) header_of_header_bytes [OF assms(5)] assms(6) by (simp add: a2_def ops_def)
  from alone_rcv [OF p2 this] have 3: "alone E t a2 a3" by (simp add: a3_def)
  define a4 where "a4 = a3\<lparr>cl := fold (perform E) ops c3, prog := (prog a3)(t := [File (File_Alloc header), Rcv Recv_While])\<rparr>"
  have "prog a3 t = map Do ops @ [File (File_Alloc header), Rcv Recv_While]" by (simp add: a3_def)
  from alone_ops [OF this, of E] have 4: "alone E t a3 a4" by (simp add: a3_def a4_def)
  have "reading (cl a) (data @ rest) (cl a4)" using c3(2) by (simp add: a4_def ops_def)
  from file_saved [OF this _ assms(7,8,10), of t "[Rcv Recv_While]"]
  obtain a' ms where a': "alone E t a4 a'" "running (cl a')" "socket_live (cl a')"
    "sock_readable (cnet (cl a') (csocket (cl a'))) = rest" "\<not> fileTransferActive (cl a')"
    "currentState (cl a') = C_CONNECTED" "prog a' = (prog a4)(t := [Rcv Recv_While])"
    "saved (cl a') = saved (cl a) @ [(receivedWeatherMapPathFor ms (cid (cl a)) (sequence_number header), data)]"
    by (auto simp: a4_def)
  have "prog a' = (prog a)(t := prog a t)" using assms(1) by (simp add: a'(7) a4_def a3_def a2_def a1_def)
  then have "prog a' = prog a" by simp
  with a' alone_trans [OF alone_trans [OF alone_trans [OF alone_trans [OF 1 2] 3] 4] a'(1)] show ?thesis by blast
qed

subsection \<open>From end to end\<close>

text \<open>
  C10. A weather map arrives: when the server's \<open>sendWeatherMap\<close> succeeds and the client's receiver
  finds on its connection what the server wrote there, the receiver, left to run, saves a file
  with exactly the data the server read from the map's file (all of it when it is shorter than
  4 GiB), under a path made from the client's id and the server's sequence number; the client is
  connected again, its telemetry allowed to go on, and the receiver back at the head of its loop
  with exactly the bytes after the transfer left to read.
\<close>

theorem weather_map_arrives:
  assumes "sendWeatherMap S s w = (True, s', w')" "outgoing w' s = outgoing w s @ sent"
    "prog a Receiver_Thread = [Rcv Recv_While]" "running (cl a)" "socket_live (cl a)"
    "sock_readable (cnet (cl a) (csocket (cl a))) = sent @ rest"
    "waitForReadable (ch_select E (polls (cl a))) (csocket (cl a)) 250" "\<And>n. ch_malloc E n"
  shows "\<exists>path bytes data ms k a'.
     disk S path (written_map S (weatherMapContextFor s) (nextServerSequence s)) = Some bytes \<and>
     (length bytes < 2 ^ 32 \<longrightarrow> data = bytes) \<and>
     run E (replicate k Receiver_Thread) a = Some a' \<and>
     saved (cl a') = saved (cl a) @ [(receivedWeatherMapPathFor ms (cid (cl a)) (nextServerSequence s), data)] \<and>
     currentState (cl a') = C_CONNECTED \<and> running (cl a') \<and> \<not> fileTransferActive (cl a') \<and>
     prog a' = prog a \<and> sock_readable (cnet (cl a') (csocket (cl a'))) = rest"
proof -
  obtain path bytes data where d:
    "disk S path (written_map S (weatherMapContextFor s) (nextServerSequence s)) = Some bytes"
    "length bytes < 2 ^ 32 \<longrightarrow> data = bytes" "length data < 2 ^ 32"
    "outgoing w' s = outgoing w s @ header_bytes
       (makeHeader LARGE_FILE (session_id s) (nextServerSequence s) (word_of_nat (length data))
          (computeChecksum data (word_of_nat (length data)))) @ data"
    using transfer_sent [OF assms(1)] by blast
  define hdr where "hdr = makeHeader LARGE_FILE (session_id s) (nextServerSequence s) (word_of_nat (length data))
          (computeChecksum data (word_of_nat (length data)))"
  have hdr: "wf_header hdr" "packet_type hdr = LARGE_FILE" "payload_size hdr = word_of_nat (length data)"
    "checksum hdr = computeChecksum data (word_of_nat (length data))" "sequence_number hdr = nextServerSequence s"
    by (simp_all add: hdr_def wf_type_def)
  have len: "length data = unat (payload_size hdr)" using d(3) by (simp add: hdr(3) unat_of_nat)
  have rd: "sock_readable (cnet (cl a) (csocket (cl a))) = header_bytes hdr @ data @ rest"
    using assms(2,6) d(4) by (simp add: hdr_def)
  have ck: "computeChecksum data (payload_size hdr) = checksum hdr" by (simp add: hdr)
  obtain a' ms where a': "alone E Receiver_Thread a a'" "running (cl a')"
    "sock_readable (cnet (cl a') (csocket (cl a'))) = rest" "\<not> fileTransferActive (cl a')"
    "currentState (cl a') = C_CONNECTED" "prog a' = prog a"
    "saved (cl a') = saved (cl a) @ [(receivedWeatherMapPathFor ms (cid (cl a)) (sequence_number hdr), data)]"
    using map_received [OF assms(3-5) rd hdr(1,2) len ck assms(7,8)] by blast
  then obtain k where "run E (replicate k Receiver_Thread) a = Some a'" by (auto simp: alone_def)
  with a' d(1,2) hdr(5) show ?thesis
    by (intro exI [of _ path] exI [of _ bytes] exI [of _ data] exI [of _ ms] exI [of _ k] exI [of _ a']) simp
qed

text \<open>The example client in its session, its workers started, with these bytes to read.\<close>

lemma example_receiving:
  "\<exists>a. client_reachable (example_client_host bs) example_app a \<and>
     prog a Receiver_Thread = [Rcv Recv_While] \<and> running (cl a) \<and> socket_live (cl a) \<and> saved (cl a) = [] \<and>
     sock_readable (cnet (cl a) (csocket (cl a))) = bs"
proof -
  let ?E = "example_client_host bs"
  obtain a where a: "client_reachable ?E example_app a"
    "prog a = (\<lambda>t. [])(Main := [Menu Spawn, Menu Session_While])" "running (cl a)" "socket_live (cl a)"
    "saved (cl a) = []" "sock_readable (cnet (cl a) (csocket (cl a))) = bs"
    using example_session_start [of bs "[]"] by blast
  have "\<exists>a1. run ?E [Main, Receiver_Thread] a = Some a1 \<and> prog a1 Receiver_Thread = [Rcv Recv_While] \<and>
      cl a1 = (cl a)\<lparr>receiverAlive := True\<rparr>"
    using a(2) by (simp add: run_simps)
  then obtain a1 where a1: "run ?E [Main, Receiver_Thread] a = Some a1" "prog a1 Receiver_Thread = [Rcv Recv_While]"
      "cl a1 = (cl a)\<lparr>receiverAlive := True\<rparr>" by blast
  with a run_reachable [OF a1(1) a(1)] show ?thesis
    by (intro exI [of _ a1]) (simp add: socket_live_def)
qed

theorem weather_map_arrives_witness:
  "\<exists>s' w' sent a k a' path data.
     sendWeatherMap example_host example_session example_peer = (True, s', w') \<and>
     outgoing w' example_session = outgoing example_peer example_session @ sent \<and>
     client_reachable (example_client_host sent) example_app a \<and>
     run (example_client_host sent) (replicate k Receiver_Thread) a = Some a' \<and>
     saved (cl a') = [(path, data)] \<and> currentState (cl a') = C_CONNECTED"
proof -
  obtain bmp where b: "generateWeatherMap first_context 1 = Some bmp" using first_map_defined by blast
  obtain s' w' where r: "sendWeatherMap example_host example_session example_peer = (True, s', w')"
    using transfer_runs [OF example_premises(1) _ example_premises(2-5), of bmp, unfolded example_context, OF b]
    by blast
  obtain sent where sent: "outgoing w' example_session = outgoing example_peer example_session @ sent"
    using transfer_sent [OF r] by blast
  let ?E = "example_client_host sent"
  obtain a where a: "client_reachable ?E example_app a" "prog a Receiver_Thread = [Rcv Recv_While]"
    "running (cl a)" "socket_live (cl a)" "saved (cl a) = []" "sock_readable (cnet (cl a) (csocket (cl a))) = sent"
    using example_receiving by blast
  have e: "waitForReadable (ch_select ?E i) h 250" "ch_malloc ?E n" for i h n
    by (simp_all add: waitForReadable_def example_client_host_def Let_def)
  have rd: "sock_readable (cnet (cl a) (csocket (cl a))) = sent @ []" using a(6) by simp
  obtain ms data k a' where a': "run ?E (replicate k Receiver_Thread) a = Some a'" "currentState (cl a') = C_CONNECTED"
    "saved (cl a') = [(receivedWeatherMapPathFor ms (cid (cl a)) (nextServerSequence example_session), data)]"
    using weather_map_arrives [OF r sent a(2-4) rd e(1) e(2)] a(5) by auto
  with r sent a(1) show ?thesis by blast
qed

end
