(* ===== verification/Fleet.thy ===== *)
theory Fleet
  imports Fleet_Handlers Server_Run Client_Run
begin

text \<open>
  The ground server and the aircraft together: runs of the server thread in which every connection
  it accepts is one that some run of the client, under whatever interleaving of its threads, has
  written to. What one side sends is what the other expects: no protocol fault is ever recorded,
  and what the dashboard shows is the telemetry of simulated flights.
\<close>

subsection \<open>Phases\<close>

lemma fleet_frame:
  assumes "fleet_ok m w" "wnet w' = wnet w" "aircraft (shared w') = aircraft (shared w)" "calm w' = calm w"
  shows "fleet_ok m w'"
  using assms by (simp add: fleet_ok_def dashboard_true_def)

lemma fleet_consume:
  assumes "fleet_ok m w"
  shows "fleet_ok m (snd (consumeWeatherRequest w))" "fleet_ok m (snd (consumeDisconnectRequest w))"
  by (rule fleet_frame [OF assms]; simp add: consumeWeatherRequest_def consumeDisconnectRequest_def)+

lemma weather_phase_fleet:
  assumes "server_inv m w" "fleet_ok m w" "weather_phase E m w = (go, m', w')"
  shows "fleet_ok m' w'"
proof -
  obtain i w1 where c: "consumeWeatherRequest w = (i, w1)" by (cases "consumeWeatherRequest w")
  have w1: "server_inv m w1" "fleet_ok m w1"
    using server_inv_consume(1) [OF assms(1)] fleet_consume(1) [OF assms(2)] by (simp_all add: c)
  show ?thesis
  proof (cases "i = [] \<or> findSessionByAircraftId m i = None")
    case True
    with assms(3) w1 show ?thesis by (auto simp: weather_phase_def c split: if_splits)
  next
    case False
    then obtain h where h: "findSessionByAircraftId m i = Some h" and i: "i \<noteq> []" by auto
    obtain s where s: "map_find m h = Some s" "isVerifiedSessionState (session_state s)"
      using requested_session [OF w1(1) i h] by blast
    with assms(3) h i have "dispatch (weather_op E) h m w1 = (go, m', w')"
      by (simp add: weather_phase_def c)
    from calm_weather.dispatch_calm [OF w1 this] s show ?thesis by simp
  qed
qed

lemma disconnect_phase_fleet:
  assumes "server_inv m w" "fleet_ok m w" "disconnect_phase E m w = (go, m', w')"
  shows "fleet_ok m' w'"
proof -
  obtain i w1 where c: "consumeDisconnectRequest w = (i, w1)" by (cases "consumeDisconnectRequest w")
  have w1: "server_inv m w1" "fleet_ok m w1"
    using server_inv_consume(2) [OF assms(1)] fleet_consume(2) [OF assms(2)] by (simp_all add: c)
  show ?thesis
  proof (cases "i = [] \<or> findSessionByAircraftId m i = None")
    case True
    with assms(3) w1 show ?thesis by (auto simp: disconnect_phase_def c split: if_splits)
  next
    case False
    then obtain h where h: "findSessionByAircraftId m i = Some h" and i: "i \<noteq> []" by auto
    obtain s where s: "map_find m h = Some s" "isVerifiedSessionState (session_state s)"
      using requested_session [OF w1(1) i h] by blast
    with assms(3) h i have "dispatch (disconnect_op E) h m w1 = (go, m', w')"
      by (simp add: disconnect_phase_def c)
    from calm_disconnect.dispatch_calm [OF w1 this] show ?thesis by simp
  qed
qed

lemma expire_all_fleet:
  assumes "server_inv m w" "fleet_ok m w"
  shows "fleet_ok (fst (expire_all E hs m w)) (snd (expire_all E hs m w))"
  using assms
proof (induction E hs m w rule: expire_all.induct)
  case (2 E h hs m w)
  obtain a m1 w1 where d: "dispatch (timeout_op E) h m w = (a, m1, w1)"
    by (cases "dispatch (timeout_op E) h m w") auto
  note dd = timeout_handler.dispatch_shrinks [OF "2.prems"(1) d]
  have "fleet_ok m1 w1" using calm_timeout.dispatch_calm [OF "2.prems" d] by simp
  from "2.IH" [OF d [symmetric] refl dd(1) this] show ?case by (simp add: d)
qed simp

lemma update_fleet:
  assumes "server_inv m w" "fleet_ok m w" "map_find m h = Some s"
  shows "fleet_ok m (updateDashboardAircraft E s a w)"
proof -
  have d: "dashboard_ok (shared w)" using assms(1) by (simp add: server_inv_def)
  have con: "confined (session_id s) h w (updateDashboardAircraft E s a w)"
    by (rule confined_update [OF confined_refl refl])
  have f: "dashboard_true (shared w)" "telemetry_true s"
    using assms(2,3) by (auto simp: fleet_ok_def connection_ok_def)
  have "dashboard_true (shared (updateDashboardAircraft E s a w))"
    by (rule dashboard_true_step [OF f(1) update_ok [OF d] shown_update [OF d] f(2)])
       (use con d in \<open>simp add: confined_def\<close>)
  with assms(2) show ?thesis by (simp add: fleet_ok_def)
qed

lemma refresh_fleet:
  assumes "server_inv m w" "fleet_ok m w" "\<And>h s. (h, s) \<in> set l \<Longrightarrow> map_find m h = Some s"
  shows "fleet_ok m (refresh_dashboard E l w)"
  using assms
proof (induction E l w rule: refresh_dashboard.induct)
  case (2 E h s l w)
  have s: "map_find m h = Some s" using "2.prems"(3) by simp
  from "2.IH" [OF update_shown [OF "2.prems"(1) s] update_fleet [OF "2.prems"(1,2) s]] "2.prems"(3)
  show ?case by simp
qed simp

lemma timeout_phase_fleet:
  assumes "server_inv m w" "fleet_ok m w" "timeout_phase E m w = (m', w')"
  shows "fleet_ok m' w'"
proof -
  have ok: "map_ok m" using assms(1) by (simp add: server_inv_def sessions_ok_def)
  let ?w1 = "refresh_dashboard E m (steady_tick w)"
  have t: "server_inv m (steady_tick w)" "fleet_ok m (steady_tick w)"
    using server_inv_tick [OF assms(1)] fleet_frame [OF assms(2), of "steady_tick w"] by simp_all
  have "server_inv m ?w1" using refresh_inv(1) [OF t(1), of m E] map_find_set [OF ok] by simp
  moreover have "fleet_ok m ?w1" using refresh_fleet [OF t, of m E] map_find_set [OF ok] by simp
  ultimately show ?thesis
    using expire_all_fleet [of m ?w1 E "timed_out_sessions m (steady_now E w)"] assms(3)
    by (simp add: timeout_phase_def Let_def)
qed

text \<open>Reading leaves alone the sessions that are not ready.\<close>

lemma read_ready_others:
  assumes "server_inv m w" "h' \<notin> set hs"
  shows "map_find (fst (read_ready E c hs m w)) h' = map_find m h' \<and>
    wnet (snd (read_ready E c hs m w)) h' = wnet w h'"
  using assms
proof (induction E c hs m w rule: read_ready.induct)
  case (2 E c h hs m w)
  obtain a m1 w1 where d: "dispatch (read_op E) h m w = (a, m1, w1)"
    by (cases "dispatch (read_op E) h m w") auto
  note dd = read_handler.dispatch_inv [OF "2.prems"(1) d]
  have "map_find m1 h' = map_find m h' \<and> wnet w1 h' = wnet w h'" using dd "2.prems"(2) by simp
  with "2.IH" [OF d [symmetric] refl] dd "2.prems"(2) show ?case by (simp add: d)
qed simp

lemma read_ready_fleet:
  assumes "server_inv m w" "fleet_ok m w"
  shows "fleet_ok (fst (read_ready E c hs m w)) (snd (read_ready E c hs m w))"
  using assms
proof (induction E c hs m w rule: read_ready.induct)
  case (2 E c h hs m w)
  obtain a m1 w1 where d: "dispatch (read_op E) h m w = (a, m1, w1)"
    by (cases "dispatch (read_op E) h m w") auto
  note dd = read_handler.dispatch_shrinks(1) [OF "2.prems"(1) d]
  have f: "fleet_ok m1 w1" using calm_read.dispatch_calm [OF "2.prems" d] by simp
  from "2.IH" [OF d [symmetric] refl _ dd f] f show ?case by (simp add: d)
qed simp


lemma accept_client_fleet:
  assumes "map_ok m" "fleet_ok m w" "io_accept inp \<noteq> INVALID_SOCK \<Longrightarrow> map_find m (io_accept inp) = None"
    and "accept_client E inp m w = (m', w')"
    and "io_accept inp \<noteq> INVALID_SOCK \<Longrightarrow> genuine (sock_readable (wnet w' (io_accept inp)))"
  shows "fleet_ok m' w'"
proof (cases "io_accept inp = INVALID_SOCK")
  case True
  with assms(2,4) fleet_frame [OF assms(2), of "log_info E msg w" for msg] show ?thesis
    by (auto simp: accept_client_def)
next
  case False
  let ?h = "io_accept inp"
  obtain s where s: "m' = map_emplace ?h s m" "session_state s = HANDSHAKE_PENDING" "telemetryValid s = False"
    and w': "shared w' = shared w" "wnet w' = (wnet w)(?h := accepted_socket (io_sock inp))" "logger w' = logger w"
    using assms(4) False by (auto simp: accept_client_def Let_def machine_simps new_session_def)
  have m': "m' = map_assign ?h s m" using s(1) assms(3) False by (simp add: map_emplace_def)
  have "connection_ok s (wnet w' ?h)"
    using assms(5) [OF False] s by (simp add: connection_ok_def stream_ok_def telemetry_true_def)
  moreover have "calm w' = calm w" using w'(3) by (intro calm_logger) simp
  ultimately show ?thesis
    using assms(1,2) w' by (auto simp: fleet_ok_def m' std_map.lookup_assign split: if_splits)
qed

lemma watched_known: "sessions_ok m \<Longrightarrow> h \<in> set (watched m) \<Longrightarrow> map_find m h \<noteq> None"
  by (force simp: watched_def sessions_ok_def map_find_set)

lemma io_phase_fleet:
  assumes "server_inv m w" "fleet_ok m w" "kernel_fresh m inp" "io_phase E inp m w = (m', w')"
    and arr: "\<And>h. map_find m h = None \<Longrightarrow> map_find m' h \<noteq> None \<Longrightarrow> genuine (sock_readable (wnet w' h))"
  shows "fleet_ok m' w'"
proof (cases "io_result inp \<le> 0")
  case True
  with assms(2,4) fleet_frame [OF assms(2), of "log_info E msg w" for msg] show ?thesis
    by (auto simp: io_phase_def split: if_splits)
next
  case False
  have mok: "sessions_ok m" "map_ok m" using assms(1) by (simp_all add: server_inv_def sessions_ok_def)
  obtain m1 w1 where acc: "(if io_listen inp then accept_client E inp m w else (m, w)) = (m1, w1)"
    by (cases "if io_listen inp then accept_client E inp m w else (m, w)")
  let ?hs = "filter (\<lambda>h. h \<in> set (watched m) \<and> io_ready inp h) (map_keys m1)"
  have r: "read_ready E (io_continue inp) ?hs m1 w1 = (m', w')"
    using assms(4) False acc by (simp add: io_phase_def)
  have "server_inv m1 w1 \<and> fleet_ok m1 w1"
  proof (cases "io_listen inp")
    case True
    then have a: "accept_client E inp m w = (m1, w1)" using acc by simp
    have new: "map_find m (io_accept inp) = None" if "io_accept inp \<noteq> INVALID_SOCK"
      using assms(3) that True False by (simp add: kernel_fresh_def accepts_def)
    note i = accept_client_inv [OF assms(1) new a]
    then have inv1: "server_inv m1 w1" by blast
    have "genuine (sock_readable (wnet w1 (io_accept inp)))" if v: "io_accept inp \<noteq> INVALID_SOCK"
    proof -
      have "io_accept inp \<notin> set ?hs" using watched_known [OF mok(1), of "io_accept inp"] new [OF v] by auto
      from read_ready_others [OF inv1 this, of E "io_continue inp"] r
      have "map_find m' (io_accept inp) = map_find m1 (io_accept inp)" "wnet w' (io_accept inp) = wnet w1 (io_accept inp)"
        by simp_all
      with arr [OF new [OF v]] i v show ?thesis by simp
    qed
    with accept_client_fleet [OF mok(2) assms(2) new a] inv1 show ?thesis by simp
  next
    case no: False
    with acc assms(1,2) show ?thesis by simp
  qed
  with read_ready_fleet [of m1 w1 E "io_continue inp" ?hs] r show ?thesis by simp
qed

subsection \<open>Runs\<close>

text \<open>
  Bytes that come from a client: a beginning of what some run of the client program, started with a
  valid id on a host whose sockets fail for good and whose random numbers are in range, has
  written to one of its sockets.
\<close>

definition from_client :: "byte list \<Rightarrow> bool" where
  "from_client bs \<longleftrightarrow>
     (\<exists>E options lg n a h. steady_host E \<and> validateAircraftId (opt_aircraftId options) \<and>
        (\<forall>h. outb (n h) = []) \<and> client_reachable E (start_app options lg n) a \<and>
        prefix bs (outb (cnet (cl a) h)))"

lemma from_clientI:
  "client_reachable E (start_app options lg n) a \<Longrightarrow> steady_host E \<Longrightarrow>
     validateAircraftId (opt_aircraftId options) \<Longrightarrow> (\<forall>h. outb (n h) = []) \<Longrightarrow>
     prefix bs (outb (cnet (cl a) h)) \<Longrightarrow> from_client bs"
  unfolding from_client_def by blast

lemma client_reachable_genuine:
  assumes "client_reachable E (start_app options lg n) a" "steady_host E"
    and "validateAircraftId (opt_aircraftId options)" "\<And>h. outb (n h) = []"
  shows "genuine (outb (cnet (cl a) h))"
  using app_wire_reachable [OF assms(1) app_wire_start [OF assms(3,4)] assms(2)]
  by (simp add: app_wire_def wire_ok_def history_ok_def)

lemma genuine_prefix: "genuine bs \<Longrightarrow> prefix cs bs \<Longrightarrow> genuine cs"
  unfolding genuine_def by (meson prefix_order.trans)

lemma from_client_genuine: "from_client bs \<Longrightarrow> genuine bs"
  unfolding from_client_def using client_reachable_genuine genuine_prefix by metis

text \<open>A step of the server in which every new session's connection comes from a client.\<close>

definition clients_arrive :: "server \<Rightarrow> server \<Rightarrow> bool" where
  "clients_arrive sv sv' \<longleftrightarrow>
     (\<forall>h. map_find (sessions sv) h = None \<longrightarrow> map_find (sessions sv') h \<noteq> None \<longrightarrow>
        from_client (sock_readable (wnet (sworld sv') h)))"

inductive fleet_reachable :: "host \<Rightarrow> server \<Rightarrow> server \<Rightarrow> bool" for E and init where
  init: "fleet_reachable E init init"
| step: "fleet_reachable E init sv \<Longrightarrow> server_step E sv sv' \<Longrightarrow> clients_arrive sv sv' \<Longrightarrow>
    fleet_reachable E init sv'"

definition fleet_inv :: "server \<Rightarrow> bool" where
  "fleet_inv sv \<longleftrightarrow>
     machine_inv sv \<and> calm (sworld sv) \<and> dashboard_true (shared (sworld sv)) \<and>
     (phase sv \<noteq> Finished \<longrightarrow> fleet_ok (sessions sv) (sworld sv))"

lemma fleet_inv_step:
  assumes "server_step E sv sv'" "clients_arrive sv sv'" "fleet_inv sv"
  shows "fleet_inv sv'"
proof -
  have mi: "machine_inv sv'" using machine_inv_step [OF assms(1)] assms(3) by (simp add: fleet_inv_def)
  have inv: "server_inv (sessions sv) (sworld sv)" "fleet_ok (sessions sv) (sworld sv)" if "phase sv \<noteq> Finished"
    using assms(3) that by (simp_all add: fleet_inv_def machine_inv_def)
  have whole: ?thesis if "fleet_ok (sessions sv') (sworld sv')"
    using mi that by (simp add: fleet_inv_def fleet_ok_def)
  show ?thesis
    using assms(1)
  proof cases
    case stop
    with inv show ?thesis by (intro whole) simp
  next
    case (weather go m w)
    with weather_phase_fleet [OF inv] show ?thesis by (intro whole) simp
  next
    case (disconnect go m w)
    with disconnect_phase_fleet [OF inv] show ?thesis by (intro whole) simp
  next
    case (timeouts m w running)
    with timeout_phase_fleet [OF inv] show ?thesis by (intro whole) simp
  next
    case (io inp m w)
    have "genuine (sock_readable (wnet w h))" if "map_find (sessions sv) h = None" "map_find m h \<noteq> None" for h
      using assms(2) that io(1) by (intro from_client_genuine) (simp add: clients_arrive_def)
    with io io_phase_fleet [OF inv io(3,4)] show ?thesis by (intro whole) simp
  next
    case (exit m w)
    have ok: "map_ok (sessions sv)" "\<And>h s. map_find (sessions sv) h = Some s \<Longrightarrow> socketHandle s = h \<and> h \<noteq> INVALID_SOCK"
      using inv exit by (auto simp: server_inv_def sessions_ok_def)
    note c = close_all_closes [OF ok exit(3)]
    then have "calm w = calm (sworld sv)" by (intro calm_logger) simp
    with c exit mi inv show ?thesis by (simp add: fleet_inv_def fleet_ok_def)
  next
    case (operator ui)
    have "fleet_ok (sessions sv) (sworld sv')" if "phase sv \<noteq> Finished"
      using fleet_frame [OF inv(2) [OF that], of "sworld sv'"] operator by simp
    with operator mi assms(3) show ?thesis by (simp add: fleet_inv_def dashboard_true_def)
  qed
qed

lemma fleet_inv_start:
  assumes "blackBoxLog lg \<in> {None, Some []}"
  shows "fleet_inv (start_server lg n)"
proof -
  have "calm (sworld (start_server lg n))" using assms by (auto simp: calm_def black_box_def start_server_def)
  moreover have "dashboard_true (shared (sworld (start_server lg n)))"
    by (simp add: dashboard_true_def start_server_def new_dashboard_def map_find_def)
  moreover have "map_find (sessions (start_server lg n)) h = None" for h by (simp add: start_server_def map_find_def)
  ultimately show ?thesis by (simp add: fleet_inv_def machine_inv_start fleet_ok_def)
qed

lemma fleet_inv_reachable: "fleet_reachable E sv0 sv \<Longrightarrow> fleet_inv sv0 \<Longrightarrow> fleet_inv sv"
  by (induction rule: fleet_reachable.induct) (auto intro: fleet_inv_step)


subsection \<open>A run of both sides\<close>

lemma example_host_steady: "steady_host (example_client_host bs)"
  by (simp add: steady_host_def example_client_host_def draws_ok_def numeral_3_eq_3)

text \<open>The example client has sent its handshake; its connection is the first the server accepts.\<close>

lemma example_from_client: "from_client (handshake_packet ''AC-001'' 1)"
proof -
  obtain a where a: "client_reachable (example_client_host []) example_app a"
    "outb (cnet (cl a) (csocket (cl a))) = handshake_packet ''AC-001'' 1"
    using example_session_start [of "[]" "[]"] by blast
  from from_clientI [OF a(1) [unfolded example_app_def] example_host_steady, of _ "csocket (cl a)"] a(2) show ?thesis
    by simp
qed

definition example_arrival :: io_input where
  "example_arrival = (example_io True)\<lparr>io_sock := example_traffic\<lparr>rx := [RecvBytes (handshake_packet ''AC-001'' 1)]\<rparr>\<rparr>"

definition example_fleet :: "choice list \<Rightarrow> server" where
  "example_fleet cs = fold (server_next example_host) cs example_start"

lemma example_fleet_runs:
  "map_keys (sessions (example_fleet [])) = []" "map_keys (sessions (example_fleet [Go])) = []"
  "map_keys (sessions (example_fleet [Go, Go])) = []" "map_keys (sessions (example_fleet [Go, Go, Go])) = []"
  "map_keys (sessions (example_fleet [Go, Go, Go, Io example_arrival])) = [4]"
  "sock_readable (wnet (sworld (example_fleet [Go, Go, Go, Io example_arrival])) 4) = handshake_packet ''AC-001'' 1"
  by code_simp+

lemma map_keys_find: "map_find m h \<noteq> None \<longleftrightarrow> h \<in> set (map_keys m)"
  by (simp add: map_find_def map_keys_def map_of_eq_None_iff)

lemma fleet_next:
  assumes "fleet_reachable E sv0 sv" "clients_arrive sv (server_next E c sv)"
  shows "fleet_reachable E sv0 (server_next E c sv)"
  using assms server_next_step [of E c sv] fleet_reachable.step by metis

lemma example_fleet_reachable:
  "fleet_reachable example_host example_start (example_fleet [Go, Go, Go, Io example_arrival])"
proof -
  let ?R = "fleet_reachable example_host example_start"
  have idle: "?R (example_fleet (cs @ [c]))" if "?R (example_fleet cs)" "map_keys (sessions (example_fleet (cs @ [c]))) = []" for cs c
    using fleet_next [OF that(1), of c] that(2) map_keys_find [of "sessions (example_fleet (cs @ [c]))"]
    by (simp add: example_fleet_def clients_arrive_def)
  have r0: "?R (example_fleet [])" using fleet_reachable.init by (simp add: example_fleet_def)
  from idle [OF r0, of Go] have r1: "?R (example_fleet [Go])" by (simp add: example_fleet_runs)
  from idle [OF r1, of Go] have r2: "?R (example_fleet [Go, Go])" by (simp add: example_fleet_runs)
  from idle [OF r2, of Go] have r3: "?R (example_fleet [Go, Go, Go])" by (simp add: example_fleet_runs)
  let ?sv = "example_fleet [Go, Go, Go, Io example_arrival]"
  have "clients_arrive (example_fleet [Go, Go, Go]) ?sv"
    using map_keys_find [of "sessions ?sv"] example_fleet_runs(5,6) example_from_client
    by (auto simp: clients_arrive_def)
  with fleet_next [OF r3, of "Io example_arrival"] show ?thesis by (simp add: example_fleet_def)
qed

theorem client_writes_genuine_witness:
  "\<exists>a. client_reachable (example_client_host []) example_app a \<and>
     outb (cnet (cl a) (csocket (cl a))) = handshake_packet ''AC-001'' 1 \<and> genuine (handshake_packet ''AC-001'' 1)"
proof -
  obtain a where a: "client_reachable (example_client_host []) example_app a"
    "outb (cnet (cl a) (csocket (cl a))) = handshake_packet ''AC-001'' 1"
    using example_session_start [of "[]" "[]"] by blast
  from client_writes_genuine [OF a(1) [unfolded example_app_def] example_host_steady, of "csocket (cl a)"] a show ?thesis
    by auto
qed

subsection \<open>Properties of the composition\<close>

text \<open>
  C4. Client and server agree on the protocol: in a run of the ground server in which every connection
  it accepts was written by some run of the client (any number of them, at any time, cut off
  anywhere, with any interleaving of their threads), every line of the black box is a fault of the
  connection or of the server's own disk; a checksum mismatch, a wrong telemetry size, a packet of
  an unexpected type or a packet in the wrong state is never recorded.
\<close>

theorem fleet_no_protocol_fault:
  assumes "fleet_reachable E (start_server (new_logger role logsRoot ms pid) n) sv"
  shows "list_all (\<lambda>l. fault_cause l \<in> set connection_causes \<and> fault_cause l \<notin> set protocol_causes)
           (black_box (sworld sv))"
proof -
  have "fleet_inv sv"
    by (rule fleet_inv_reachable [OF assms fleet_inv_start]) (simp add: new_logger_def Let_def)
  then show ?thesis
    by (auto simp: fleet_inv_def calm_def list_all_iff connection_fault_cause)
qed

theorem fleet_no_protocol_fault_witness:
  "fleet_reachable example_host example_start (example_fleet [Go, Go, Go, Io example_arrival]) \<and>
   map_keys (sessions (example_fleet [Go, Go, Go, Io example_arrival])) = [4] \<and>
   list_all (\<lambda>l. fault_cause l \<notin> set protocol_causes)
     (black_box (sworld (example_fleet [Go, Go, Go, Io example_arrival])))"
  using fleet_no_protocol_fault [OF example_fleet_reachable [unfolded example_start_def]]
    example_fleet_reachable example_fleet_runs(5)
  by (simp add: list_all_iff)

text \<open>
  C5. What the operator sees is what was flown: in such a run, an aircraft's telemetry that the dashboard
  shows as valid is the payload of the simulated flight after some sequence of updates with random
  numbers in their ranges; no damaged, mixed or invented values are ever displayed.
\<close>

theorem fleet_dashboard_flown:
  assumes "fleet_reachable E (start_server (new_logger role logsRoot ms pid) n) sv"
    and "map_find (aircraft (shared (sworld sv))) k = Some a" "dash_telemetryValid a"
  shows "\<exists>ds. list_all draws_ok ds \<and> dash_telemetry a = telemetryPayload (fold tick ds new_flight)"
proof -
  have "fleet_inv sv"
    by (rule fleet_inv_reachable [OF assms(1) fleet_inv_start]) (simp add: new_logger_def Let_def)
  with assms(2,3) show ?thesis
    by (simp add: fleet_inv_def dashboard_true_def flight_payload_def)
qed

end
