(* ===== verification/Fleet_Run.thy ===== *)
theory Fleet_Run
  imports Fleet
begin

text \<open>
  A run of client and server together that does what the system is for: the client connects, its
  telemetry thread sends one packet, the server accepts the connection, answers the handshake,
  receives the packet and shows it.
\<close>

subsection \<open>The client sends\<close>

lemma client_send_whole:
  assumes "socket_live c" "tx (cnet c (csocket c)) = Accepts k # es" "length bs \<le> k" "bs \<noteq> []" "length bs \<le> max_chunk"
  shows "\<exists>s. client_sendAll bs c = (True, c\<lparr>cnet := (cnet c)(csocket c := s)\<rparr>) \<and>
    tx s = es \<and> outb s = outb (cnet c (csocket c)) @ bs \<and> closes s = closes (cnet c (csocket c))"
  by (rule exI [of _ "(cnet c (csocket c))\<lparr>tx := es, outb := outb (cnet c (csocket c)) @ bs\<rparr>"])
     (use net_sendAll_whole [of "cnet c" "csocket c" k es bs] assms in \<open>simp add: client_sendAll_def\<close>)

lemma telemetry_sent:
  assumes "socket_live c" "tx (cnet c (csocket c)) = Accepts 64 # Accepts 64 # es"
    and "packet_for (For_Telemetry p) i n = (hdr, pl)"
  shows "\<exists>c'. sendPacketLocked hdr pl c = (True, c') \<and> csocket c' = csocket c \<and>
    outb (cnet c' (csocket c)) = outb (cnet c (csocket c)) @ telemetry_packet i n p"
proof -
  have hp: "hdr = telemetry_header i n p" "pl = telemetry_bytes p"
    using assms(3) by (auto simp: telemetry_header_def Let_def)
  have h: "length (header_bytes hdr) \<le> 64" "length (header_bytes hdr) \<le> max_chunk"
    using length_header_bytes [of hdr] by (simp_all add: hp telemetry_header_def wf_type_def header_size_def max_chunk_def)
  obtain s where s: "client_sendAll (header_bytes hdr) c = (True, c\<lparr>cnet := (cnet c)(csocket c := s)\<rparr>)"
    "tx s = Accepts 64 # es" "outb s = outb (cnet c (csocket c)) @ header_bytes hdr"
    "closes s = closes (cnet c (csocket c))"
    using client_send_whole [OF assms(1,2) h(1) _ h(2)] by auto
  let ?c1 = "c\<lparr>cnet := (cnet c)(csocket c := s)\<rparr>"
  have sz: "payload_size hdr = word_of_nat telemetry_size" by (simp add: hp telemetry_header_def)
  have "telemetry_bytes p \<noteq> []"
    by (metis length_telemetry_bytes list.size(3) telemetry_size_def zero_neq_numeral)
  then have l: "length pl \<le> 64" "pl \<noteq> []" "length pl \<le> max_chunk" "take (unat (payload_size hdr)) pl = pl"
    "0 < payload_size hdr"
    using length_telemetry_bytes [of p] by (auto simp: hp(2) telemetry_size_def max_chunk_def sz)
  have "socket_live ?c1" "tx (cnet ?c1 (csocket ?c1)) = Accepts 64 # es"
    using assms(1) s(2,4) by (simp_all add: socket_live_def)
  from client_send_whole [OF this l(1-3)] obtain s2 where
    "client_sendAll pl ?c1 = (True, ?c1\<lparr>cnet := (cnet ?c1)(csocket c := s2)\<rparr>)" "outb s2 = outb s @ pl"
    by auto
  with s(1,3) l(4,5) show ?thesis
    by (simp add: sendPacketLocked_def telemetry_packet_eq hp)
qed

text \<open>From a new session to the first packet of the telemetry thread.\<close>

lemma session_to_telemetry:
  assumes "prog a = (\<lambda>t. [])(Main := [Menu Spawn, Menu Session_While])" "running (cl a)"
    "\<not> fileTransferActive (cl a)"
  shows "\<exists>a'. run E [Main, Telemetry_Thread, Telemetry_Thread, Telemetry_Thread, Telemetry_Thread, Telemetry_Thread] a = Some a' \<and>
    prog a' Telemetry_Thread =
      [Call (Send_Packet (For_Telemetry (telemetryPayload (tick (ch_draws E (ticks (cl a))) (flightSim (cl a)))))
         (nextSequence (cl a)))] \<and>
    csocket (cl a') = csocket (cl a) \<and> cnet (cl a') = cnet (cl a) \<and> cid (cl a') = cid (cl a)"
  using assms by (simp add: run_simps)

lemma example_telemetry_sent:
  "\<exists>p n. from_client (handshake_packet ''AC-001'' 1 @ telemetry_packet ''AC-001'' n p)"
proof -
  let ?E = "example_client_host []"
  obtain a where a: "client_reachable ?E example_app a" "prog a = (\<lambda>t. [])(Main := [Menu Spawn, Menu Session_While])"
    "running (cl a)" "socket_live (cl a)" "cid (cl a) = ''AC-001''" "\<not> fileTransferActive (cl a)"
    "outb (cnet (cl a) (csocket (cl a))) = handshake_packet ''AC-001'' 1"
    "tx (cnet (cl a) (csocket (cl a))) = replicate 3 (Accepts 64)"
    using example_session_start [of "[]" "[]"] by blast
  obtain p n ts a1 where a1: "run ?E ts a = Some a1" "prog a1 Telemetry_Thread = [Call (Send_Packet (For_Telemetry p) n)]"
    "csocket (cl a1) = csocket (cl a)" "cnet (cl a1) = cnet (cl a)" "cid (cl a1) = cid (cl a)"
    using session_to_telemetry [OF a(2,3,6)] by blast
  have r1: "client_reachable ?E example_app a1" using run_reachable [OF a1(1) a(1)] .
  obtain hdr pl where hp: "packet_for (For_Telemetry p) ''AC-001'' n = (hdr, pl)"
    by (cases "packet_for (For_Telemetry p) ''AC-001'' n")
  have l: "socket_live (cl a1)" "tx (cnet (cl a1) (csocket (cl a1))) = Accepts 64 # Accepts 64 # [Accepts 64]"
    using a(4,8) a1(3,4) by (simp_all add: socket_live_def numeral_3_eq_3)
  obtain c' where c': "sendPacketLocked hdr pl (cl a1) = (True, c')" "csocket c' = csocket (cl a)"
    "outb (cnet c' (csocket c')) = handshake_packet ''AC-001'' 1 @ telemetry_packet ''AC-001'' n p"
    using telemetry_sent [OF l hp] a(7) a1(3,4) by auto
  have "run ?E [Telemetry_Thread] a1 =
      Some (a1\<lparr>cl := c', prog := (prog a1)(Telemetry_Thread := after_send (For_Telemetry p) hdr True)\<rparr>)"
    using a1(2,5) a(5) hp c'(1) by (simp add: run_simps del: packet_for.simps)
  from run_reachable [OF this r1] have r2: "client_reachable ?E example_app
      (a1\<lparr>cl := c', prog := (prog a1)(Telemetry_Thread := after_send (For_Telemetry p) hdr True)\<rparr>)" .
  have "from_client (handshake_packet ''AC-001'' 1 @ telemetry_packet ''AC-001'' n p)"
    using from_clientI [OF r2 [unfolded example_app_def] example_host_steady, of _ "csocket c'"] c'(3) by simp
  then show ?thesis by blast
qed


subsection \<open>The server receives\<close>

text \<open>A host whose steady clock stands still, so that nothing times out.\<close>

definition still_host :: host where
  "still_host = example_host\<lparr>steady_at := (\<lambda>i. 1000)\<rparr>"

lemma still_now [simp]: "steady_now still_host w = 1000"
  by (simp add: still_host_def steady_now_def)

text \<open>The server's state with one session, between iterations.\<close>

definition single :: "pc \<Rightarrow> ClientSession \<Rightarrow> server \<Rightarrow> bool" where
  "single p s sv \<longleftrightarrow>
     fleet_reachable still_host example_start sv \<and> phase sv = p \<and> sessions sv = [(4, s)] \<and>
     requests (sworld sv) = ([], []) \<and> lastPacketTime s = 1000"

lemma single_inv:
  assumes "single p s sv" "p \<noteq> Finished"
  shows "server_inv [(4, s)] (sworld sv)" "map_find [(4, s)] (4 :: handle) = Some s" "socketHandle s = 4"
proof -
  have "fleet_inv example_start" unfolding example_start_def
    by (rule fleet_inv_start) (simp add: new_logger_def Let_def)
  with assms(1) have "fleet_inv sv" using fleet_inv_reachable by (auto simp: single_def)
  with assms show "server_inv [(4, s)] (sworld sv)" by (auto simp: fleet_inv_def machine_inv_def single_def)
  then show "map_find [(4, s)] (4 :: handle) = Some s" "socketHandle s = 4"
    by (auto simp: server_inv_def sessions_ok_def map_find_def)
qed

lemma not_overdue: "lastPacketTime s = 1000 \<Longrightarrow> timed_out_sessions [(4, s)] 1000 = []"
  by (simp add: timed_out_sessions_def timedOut_iff)

text \<open>A step that accepts nobody.\<close>

lemma single_step:
  assumes "single p s sv" "server_step still_host sv sv'" "sessions sv' = [(4, s')]"
    and "requests (sworld sv') = ([], [])" "lastPacketTime s' = 1000"
  shows "single (phase sv') s' sv'"
proof -
  have "clients_arrive sv sv'" using assms(1,3) by (simp add: clients_arrive_def single_def map_find_def)
  with assms fleet_reachable.step show ?thesis by (fastforce simp: single_def)
qed

text \<open>The first three phases of an iteration, with nothing to do.\<close>

lemma idle_phases:
  assumes "single At_Weather s sv"
  shows "\<exists>sv'. single At_Select s sv' \<and> wnet (sworld sv') = wnet (sworld sv)"
proof -
  let ?w = "sworld sv"
  have sv: "phase sv = At_Weather" "sessions sv = [(4, s)]" "requests ?w = ([], [])" "lastPacketTime s = 1000"
    using assms by (simp_all add: single_def)
  let ?w1 = "snd (consumeWeatherRequest ?w)"
  have r: "weatherRequestAircraftId (shared ?w) = []" "disconnectRequestAircraftId (shared ?w) = []"
    using sv(3) by (simp_all add: requests_def)
  then have ph1: "weather_phase still_host (sessions sv) ?w = (True, [(4, s)], ?w1)"
    by (simp add: weather_phase_def consumeWeatherRequest_def sv)
  let ?sv1 = "sv\<lparr>phase := At_Disconnect, sessions := [(4, s)], sworld := ?w1\<rparr>"
  have s1: "single At_Disconnect s ?sv1"
    using single_step [OF assms server_step.weather [OF sv(1) ph1]] sv r by (simp add: requests_def consumeWeatherRequest_def)
  let ?w2 = "snd (consumeDisconnectRequest ?w1)"
  have r1: "disconnectRequestAircraftId (shared ?w1) = []" using r by (simp add: consumeWeatherRequest_def)
  then have ph2: "disconnect_phase still_host (sessions ?sv1) (sworld ?sv1) = (True, [(4, s)], ?w2)"
    by (simp add: disconnect_phase_def consumeDisconnectRequest_def)
  let ?sv2 = "?sv1\<lparr>phase := At_Timeouts, sessions := [(4, s)], sworld := ?w2\<rparr>"
  have q2: "requests ?w2 = ([], [])"
    using r by (simp add: requests_def consumeDisconnectRequest_def consumeWeatherRequest_def)
  have s2: "single At_Timeouts s ?sv2"
    using single_step [OF s1 server_step.disconnect [OF _ ph2]] sv(4) q2 by simp
  let ?w3 = "updateDashboardAircraft still_host s [] (steady_tick ?w2)"
  have ph3: "timeout_phase still_host (sessions ?sv2) (sworld ?sv2) = ([(4, s)], ?w3)"
    using not_overdue [OF sv(4)] by (simp add: timeout_phase_def)
  let ?sv3 = "?sv2\<lparr>phase := At_Select, sessions := [(4, s)], sworld := ?w3\<rparr>"
  have "single At_Select s ?sv3"
    using single_step [OF s2 server_step.timeouts [OF _ ph3, of True]] sv(4) q2 by simp
  moreover have "wnet ?w3 = wnet ?w" by simp
  ultimately show ?thesis by (intro exI [of _ ?sv3]) simp
qed

text \<open>Reading from the one session.\<close>

lemma read_step:
  assumes "single At_Select s sv" "processReadableSession still_host [(4, s)] s (sworld sv) = (True, s', w')"
  shows "\<exists>sv'. server_step still_host sv sv' \<and> phase sv' = At_Weather \<and> sessions sv' = [(4, s')] \<and> sworld sv' = w' \<and>
    requests w' = ([], [])"
proof -
  let ?inp = "example_io False"
  have sv: "phase sv = At_Select" "sessions sv = [(4, s)]" "requests (sworld sv) = ([], [])"
    using assms(1) by (simp_all add: single_def)
  have "At_Select \<noteq> Finished" by simp
  note i = single_inv [OF assms(1) this]
  have v: "(4 :: handle) \<noteq> INVALID_SOCK" by (simp add: INVALID_SOCK_def)
  have d: "dispatch (read_op still_host) 4 [(4, s)] (sworld sv) = (True, [(4, s')], w')"
    using assms(2) i(2) by (simp add: dispatch_def read_op_def)
  have q: "requests w' = ([], [])" using read_handler.dispatch_inv [OF i(1) d] sv(3) by simp
  have ph: "io_phase still_host ?inp (sessions sv) (sworld sv) = ([(4, s')], w')"
    using d v by (simp add: io_phase_def sv(2) i(3) example_io_def watched_def map_keys_def)
  have f: "kernel_fresh (sessions sv) ?inp" by (simp add: kernel_fresh_def accepts_def example_io_def)
  from server_step.io [OF sv(1) f ph] q show ?thesis by (intro exI conjI) auto
qed

lemma read_phase:
  assumes "single At_Select s sv" "processReadableSession still_host [(4, s)] s (sworld sv) = (True, s', w')"
    and "lastPacketTime s' = 1000"
  shows "\<exists>sv'. single At_Weather s' sv' \<and> sworld sv' = w'"
  using read_step [OF assms(1,2)] single_step [OF assms(1)] assms(3) by metis


text \<open>Accepting the first connection.\<close>

lemma start_idle:
  "phase (fold (server_next still_host) [Go, Go, Go] example_start) = At_Select"
  "sessions (fold (server_next still_host) [Go] example_start) = []"
  "sessions (fold (server_next still_host) [Go, Go] example_start) = []"
  "sessions (fold (server_next still_host) [Go, Go, Go] example_start) = []"
  "requests (sworld (fold (server_next still_host) [Go, Go, Go] example_start)) = ([], [])"
  by code_simp+

lemma fleet_idle:
  "fleet_reachable E sv0 sv \<Longrightarrow> sessions (server_next E c sv) = [] \<Longrightarrow> fleet_reachable E sv0 (server_next E c sv)"
  by (rule fleet_next) (simp_all add: clients_arrive_def map_find_def)

lemma start_reached:
  "fleet_reachable still_host example_start (fold (server_next still_host) [Go, Go, Go] example_start)"
proof -
  let ?R = "fleet_reachable still_host example_start" and ?n = "server_next still_host"
  have "?R (?n Go example_start)" using start_idle(2) by (intro fleet_idle fleet_reachable.init) simp
  from fleet_idle [OF this, of Go] have "?R (?n Go (?n Go example_start))" using start_idle(3) by simp
  from fleet_idle [OF this, of Go] show ?thesis using start_idle(4) by simp
qed

lemma first_accepted:
  assumes "from_client (sock_readable k)"
  shows "\<exists>s sv. single At_Weather s sv \<and> session_state s = HANDSHAKE_PENDING \<and>
    nextServerSequence s = 1 \<and> \<not> telemetryValid s \<and> outb (wnet (sworld sv) 4) = [] \<and>
    sock_readable (wnet (sworld sv) 4) = sock_readable k \<and> tx (wnet (sworld sv) 4) = tx k"
proof -
  let ?sv = "fold (server_next still_host) [Go, Go, Go] example_start"
  let ?inp = "(example_io True)\<lparr>io_sock := k\<rparr>"
  let ?w = "sworld ?sv"
  have v: "(4 :: handle) \<noteq> INVALID_SOCK" by (simp add: INVALID_SOCK_def)
  define s where "s = snd (session_transition (touch (new_session 4 1000) 1000) HANDSHAKE_PENDING)"
  obtain w' where w': "io_phase still_host ?inp (sessions ?sv) ?w = ([(4, s)], w')"
    "wnet w' = (wnet ?w)(4 := accepted_socket k)" "shared w' = shared ?w"
    using v unfolding start_idle(4)
    by (simp add: io_phase_def accept_client_def example_io_def map_emplace_def map_find_def Let_def s_def
        map_keys_def watched_def)
  have f: "kernel_fresh (sessions ?sv) ?inp" unfolding start_idle(4) by (simp add: kernel_fresh_def map_find_def)
  let ?sv' = "?sv\<lparr>phase := At_Weather, sessions := [(4, s)], sworld := w',
    accepted := accepts ?inp @ accepted ?sv\<rparr>"
  have step: "server_step still_host ?sv ?sv'" using server_step.io [OF start_idle(1) f w'(1)] .
  have k: "sock_readable (wnet w' 4) = sock_readable k" "tx (wnet w' 4) = tx k" "outb (wnet w' 4) = []"
    by (simp_all add: w'(2) accepted_socket_def sock_readable_def)
  have "clients_arrive ?sv ?sv'"
    using assms k(1) by (auto simp: clients_arrive_def map_find_def split: if_splits)
  from fleet_reachable.step [OF start_reached step this] have "single At_Weather s ?sv'"
    using start_idle(5) w'(3) by (simp add: single_def requests_def s_def)
  moreover have "session_state s = HANDSHAKE_PENDING" "nextServerSequence s = 1" "\<not> telemetryValid s"
    by (simp_all add: s_def machine_simps touch_def new_session_def)
  ultimately show ?thesis using k by (intro exI [of _ s] exI [of _ ?sv']) simp
qed

subsection \<open>From one side to the other\<close>

text \<open>The first client admitted, with the rest of its stream to be read.\<close>

lemma first_admitted:
  assumes "from_client (sock_readable k)" "sock_readable k = handshake_packet i m @ rest" "validateAircraftId i"
    and "willing k (Suc n)"
  shows "\<exists>s sv. single At_Select s sv \<and> socketHandle s = 4 \<and> session_state s = CONNECTED \<and> session_id s = i \<and>
    nextServerSequence s = 1 \<and> \<not> telemetryValid s \<and> incoming (sworld sv) s = rest \<and>
    outgoing (sworld sv) s = header_bytes (makeHeader HANDSHAKE_ACK i m 0 0) \<and> willing (wnet (sworld sv) 4) n \<and>
    session_ok s \<and> dashboard_ok (shared (sworld sv))"
proof -
  obtain s1 sv1 where s1: "single At_Weather s1 sv1" "session_state s1 = HANDSHAKE_PENDING" "nextServerSequence s1 = 1"
    "\<not> telemetryValid s1" "outb (wnet (sworld sv1) 4) = []" "sock_readable (wnet (sworld sv1) 4) = sock_readable k"
    "tx (wnet (sworld sv1) 4) = tx k"
    using first_accepted [OF assms(1)] by blast
  obtain sv2 where sv2: "single At_Select s1 sv2" "wnet (sworld sv2) = wnet (sworld sv1)"
    using idle_phases [OF s1(1)] by blast
  have "At_Select \<noteq> Finished" by simp
  note i2 = single_inv [OF sv2(1) this]
  have inv2: "sessions_ok [(4, s1)]" "dashboard_ok (shared (sworld sv2))" using i2(1) by (simp_all add: server_inv_def)
  have inp2: "incoming (sworld sv2) s1 = handshake_packet i m @ rest" using s1(6) assms(2) sv2(2) i2(3) by simp
  have free: "id_free [(4, s1)] (socketHandle s1) i" using i2(3) by (simp add: id_free_def map_find_def)
  have will: "willing (wnet (sworld sv2) (socketHandle s1)) (Suc n)"
    using assms(4) s1(7) sv2(2) i2(3) by (simp add: willing_def)
  obtain alive s3 w3 where h0: "processReadableSession still_host [(4, s1)] s1 (sworld sv2) = (alive, s3, w3)"
    "wrote (sworld sv2) w3 s1 (header_bytes (makeHeader HANDSHAKE_ACK i m 0 0)) alive"
    "session_state s3 = (if alive then CONNECTED else DISCONNECTED)" "session_id s3 = i"
    "alive \<longrightarrow> incoming w3 s1 = rest \<and> (\<exists>t. lastPacketTime s3 = steady_at still_host t)"
    "nextServerSequence s3 = nextServerSequence s1" "telemetryValid s3 = telemetryValid s1"
    "\<forall>n. willing (wnet (sworld sv2) (socketHandle s1)) (Suc n) \<longrightarrow> alive \<and> willing (wnet w3 (socketHandle s1)) n"
    using handshake_outcome [OF inv2(1) s1(2) inv2(2) inp2 assms(3) free, of still_host] by metis
  have a: "alive" "willing (wnet w3 (socketHandle s1)) n" using h0(8) will by simp_all
  then obtain t where t: "lastPacketTime s3 = steady_at still_host t" using h0(5) by blast
  have h: "processReadableSession still_host [(4, s1)] s1 (sworld sv2) = (True, s3, w3)"
    "wrote (sworld sv2) w3 s1 (header_bytes (makeHeader HANDSHAKE_ACK i m 0 0)) True"
    "session_state s3 = CONNECTED" "session_id s3 = i" "incoming w3 s1 = rest" "nextServerSequence s3 = 1"
    "\<not> telemetryValid s3" "willing (wnet w3 (socketHandle s1)) n" "lastPacketTime s3 = steady_at still_host t"
    using h0 a t s1(3,4) by simp_all
  have out: "outgoing w3 s1 = header_bytes (makeHeader HANDSHAKE_ACK i m 0 0)"
    using h(2) s1(5) sv2(2) i2(3) by (auto simp: wrote_def)
  have t3: "lastPacketTime s3 = 1000" using h(9) by (simp add: still_host_def)
  obtain sv3 where sv3: "single At_Weather s3 sv3" "sworld sv3 = w3" using read_phase [OF sv2(1) h(1) t3] by blast
  obtain sv4 where sv4: "single At_Select s3 sv4" "wnet (sworld sv4) = wnet w3"
    using idle_phases [OF sv3(1)] sv3(2) by auto
  have "At_Select \<noteq> Finished" by simp
  note i4 = single_inv [OF sv4(1) this]
  have "session_ok s3" "dashboard_ok (shared (sworld sv4))"
    using i4 by (auto simp: server_inv_def intro: sessions_okD)
  with h out sv4 i2(3) i4(3) show ?thesis by (intro exI [of _ s3] exI [of _ sv4]) simp
qed

lemma telemetry_arrives:
  assumes "from_client (handshake_packet i m @ telemetry_packet i n p)" "validateAircraftId i"
  shows "\<exists>sv a. fleet_reachable still_host example_start sv \<and>
    map_find (aircraft (shared (sworld sv))) i = Some a \<and> dash_state a = TELEMETRY \<and>
    dash_telemetryValid a \<and> dash_telemetry a = p"
proof -
  let ?bs = "handshake_packet i m @ telemetry_packet i n p"
  let ?k = "example_traffic\<lparr>rx := [RecvBytes ?bs]\<rparr>"
  have ne: "?bs \<noteq> []" by (simp add: handshake_packet_def packet_bytes_def)
  then have k: "sock_readable ?k = ?bs" by (simp add: sock_readable_def)
  have "tx ?k = map Accepts [65536] @ replicate 7 (Accepts 65536)"
    using replicate_Suc [of 7 "Accepts 65536"] by (simp add: example_traffic_def)
  then have will: "willing ?k (Suc 0)"
    unfolding willing_def by (intro exI [of _ "[65536]"] exI [of _ "replicate 7 (Accepts 65536)"]) simp
  have "from_client (sock_readable ?k)" using assms(1) k by simp
  from first_admitted [OF this k assms(2) will] obtain s sv where s: "single At_Select s sv" "socketHandle s = 4"
    "session_state s = CONNECTED" "session_id s = i" "incoming (sworld sv) s = telemetry_packet i n p @ []"
    "session_ok s" "dashboard_ok (shared (sworld sv))"
    by auto
  obtain s5 w5 a where r: "processReadableSession still_host [(4, s)] s (sworld sv) = (True, s5, w5)"
    "lastPacketTime s5 = 1000"
    "map_find (aircraft (shared w5)) i = Some a" "dash_state a = TELEMETRY" "dash_telemetry a = p" "dash_telemetryValid a"
    using telemetry_through [OF s(6) _ s(7) s(5), of still_host "[(4, s)]"] s(3,4) by (auto simp: still_host_def)
  from read_phase [OF s(1) r(1,2)] obtain sv5 where "single At_Weather s5 sv5" "sworld sv5 = w5" by blast
  with r(3-6) show ?thesis by (intro exI [of _ sv5] exI [of _ a]) (simp add: single_def)
qed


text \<open>
  A server reached by its own steps that holds a connected aircraft, with both of the operator's
  requests pending for it.
\<close>

lemma fleet_reachable_reachable: "fleet_reachable E sv0 sv \<Longrightarrow> reachable E sv0 sv"
  by (induction rule: fleet_reachable.induct) (auto intro: reachable.intros)

lemma example_requested:
  "\<exists>sv s. reachable still_host example_start sv \<and> phase sv = At_Select \<and> map_find (sessions sv) 4 = Some s \<and>
     session_id s = ''AC-001'' \<and> weatherRequestAircraftId (shared (sworld sv)) = ''AC-001''"
proof -
  obtain p n where fc: "from_client (handshake_packet ''AC-001'' 1 @ telemetry_packet ''AC-001'' n p)"
    using example_telemetry_sent by blast
  let ?bs = "handshake_packet ''AC-001'' 1 @ telemetry_packet ''AC-001'' n p"
  let ?k = "example_traffic\<lparr>rx := [RecvBytes ?bs]\<rparr>"
  have k: "sock_readable ?k = ?bs" by (simp add: sock_readable_def handshake_packet_def packet_bytes_def)
  have "tx ?k = map Accepts [65536] @ replicate 7 (Accepts 65536)"
    using replicate_Suc [of 7 "Accepts 65536"] by (simp add: example_traffic_def)
  then have "willing ?k (Suc 0)"
    unfolding willing_def by (intro exI [of _ "[65536]"] exI [of _ "replicate 7 (Accepts 65536)"]) simp
  with first_admitted [of ?k "''AC-001''" 1 _ 0] fc k valid_AC_001
  obtain s sv where s: "single At_Select s sv" "session_id s = ''AC-001''" "session_state s = CONNECTED" by metis
  have sv: "sessions sv = [(4, s)]" "phase sv = At_Select" "session_state s = CONNECTED"
    using s(1,3) by (simp_all add: single_def)
  have inv: "server_inv [(4, s)] (sworld sv)" "map_find [(4, s)] (4 :: handle) = Some s"
    using single_inv [OF s(1)] by simp_all
  then have "shown s (shared (sworld sv))" "dashboard_ok (shared (sworld sv))"
    by (auto simp: server_inv_def dashboard_mirrors_def)
  then obtain a where a: "map_find (aircraft (shared (sworld sv))) ''AC-001'' = Some a"
    "isVerifiedSessionState (dash_state a)" "dash_id a = ''AC-001''"
    using s(2) sv(3) by (force simp: shown_def dashboard_ok_def map_find_set dash_entry_ok_def isVerifiedSessionState_def)
  let ?sv1 = "server_next still_host (Frame (click_row ''AC-001'')) sv"
  let ?sv2 = "server_next still_host (Frame click_weather) ?sv1"
  have next1: "reachable still_host example_start sv \<Longrightarrow> reachable still_host example_start (server_next still_host c sv)" for c sv
    using server_next_step [of still_host c sv] by (auto intro: reachable.step)
  have "reachable still_host example_start ?sv2"
    using fleet_reachable_reachable s(1) unfolding single_def by (intro next1) blast
  moreover have "weatherRequestAircraftId (shared (sworld ?sv2)) = ''AC-001''"
    using click_weather_requests [of "shared (sworld ?sv1)" a] click_row_selects [OF a(1)] a
    by (simp add: server_next_def)
  ultimately show ?thesis
    using sv s(2) inv(2) by (intro exI [of _ ?sv2] exI [of _ s]) (simp add: server_next_def)
qed

theorem operator_commands_verified_witness:
  "\<exists>sv s. reachable still_host example_start sv \<and> map_find (sessions sv) 4 = Some s \<and>
     isVerifiedSessionState (session_state s) \<and>
     weather_phase still_host (sessions sv) (sworld sv) = dispatch (weather_op still_host) 4 (sessions sv)
       ((sworld sv)\<lparr>shared := (shared (sworld sv))\<lparr>weatherRequestAircraftId := []\<rparr>\<rparr>)"
proof -
  obtain sv s where s: "reachable still_host example_start sv" "phase sv = At_Select"
    "map_find (sessions sv) 4 = Some s" "session_id s = ''AC-001''"
    "weatherRequestAircraftId (shared (sworld sv)) = ''AC-001''"
    using example_requested by blast
  from operator_commands_verified [OF s(1) [unfolded example_start_def] _ s(3,4)] s(1,2,3,5) show ?thesis by auto
qed

theorem fleet_dashboard_flown_witness:
  "\<exists>sv a ds. fleet_reachable still_host example_start sv \<and>
     map_find (aircraft (shared (sworld sv))) ''AC-001'' = Some a \<and> dash_telemetryValid a \<and>
     list_all draws_ok ds \<and> dash_telemetry a = telemetryPayload (fold tick ds new_flight)"
proof -
  obtain p n where "from_client (handshake_packet ''AC-001'' 1 @ telemetry_packet ''AC-001'' n p)"
    using example_telemetry_sent by blast
  from telemetry_arrives [OF this valid_AC_001] obtain sv a where
    a: "fleet_reachable still_host example_start sv" "map_find (aircraft (shared (sworld sv))) ''AC-001'' = Some a"
    "dash_telemetryValid a" by blast
  from fleet_dashboard_flown [OF a(1) [unfolded example_start_def] a(2,3)] a show ?thesis by blast
qed

end
