(* ===== verification/Reception_Run.thy ===== *)
theory Reception_Run
  imports Client_Reception Client_Transfer Fleet_Run
begin

text \<open>
  A weather map from its request to the file on the aircraft: a client connects and requests it, the
  server admits the client, reads the request, generates the map and sends it, and a client with
  that stream on its connection saves it.
\<close>

subsection \<open>The request\<close>

lemma normalize_W [simp]: "normalizeChoice ''W'' = ''W''"
  by code_simp

lemma session_to_request:
  assumes "prog a = (\<lambda>t. [])(Main := [Menu Spawn, Menu Session_While])" "running (cl a)"
    "inputLines a = ''W'' # ls" "\<not> printedConnectedMenu a"
  shows "\<exists>a' n. run E [Main, Main, Main, Main, Main, Main, Main, Main, Main] a = Some a' \<and>
    prog a' Main = [Call (Send_Packet For_Map n)] \<and>
    csocket (cl a') = csocket (cl a) \<and> cnet (cl a') = cnet (cl a) \<and> cid (cl a') = cid (cl a)"
  using assms by (simp add: run_simps printStatus_def printLine_def)

lemma example_map_requested:
  "\<exists>n. from_client (handshake_packet ''AC-001'' 1 @ map_request_packet ''AC-001'' n)"
proof -
  let ?E = "example_client_host []"
  obtain a where a: "client_reachable ?E example_app a" "prog a = (\<lambda>t. [])(Main := [Menu Spawn, Menu Session_While])"
    "running (cl a)" "socket_live (cl a)" "inputLines a = [''W'']" "\<not> printedConnectedMenu a" "cid (cl a) = ''AC-001''"
    "outb (cnet (cl a) (csocket (cl a))) = handshake_packet ''AC-001'' 1"
    "tx (cnet (cl a) (csocket (cl a))) = replicate 3 (Accepts 64)"
    using example_session_start [of "[]" "[''W'']"] by blast
  obtain n a1 where a1: "run ?E [Main, Main, Main, Main, Main, Main, Main, Main, Main] a = Some a1"
    "prog a1 Main = [Call (Send_Packet For_Map n)]"
    "csocket (cl a1) = csocket (cl a)" "cnet (cl a1) = cnet (cl a)" "cid (cl a1) = cid (cl a)"
    using session_to_request [OF a(2,3,5,6)] by blast
  have r1: "client_reachable ?E example_app a1" using run_reachable [OF a1(1) a(1)] .
  let ?hdr = "makeHeader LARGE_FILE ''AC-001'' n 0 0"
  have h: "length (header_bytes ?hdr) \<le> 64" "length (header_bytes ?hdr) \<le> max_chunk"
    using length_header_bytes [of ?hdr] by (simp_all add: wf_type_def header_size_def max_chunk_def)
  have l: "socket_live (cl a1)" "tx (cnet (cl a1) (csocket (cl a1))) = Accepts 64 # replicate 2 (Accepts 64)"
    using a(4,9) a1(3,4) by (simp_all add: socket_live_def numeral_3_eq_3 numeral_2_eq_2)
  obtain s where s: "client_sendAll (header_bytes ?hdr) (cl a1) =
      (True, (cl a1)\<lparr>cnet := (cnet (cl a1))(csocket (cl a1) := s)\<rparr>)"
    "outb s = handshake_packet ''AC-001'' 1 @ header_bytes ?hdr"
    using client_send_whole [OF l h(1) _ h(2)] a(8) a1(3,4) by auto
  let ?c = "(cl a1)\<lparr>cnet := (cnet (cl a1))(csocket (cl a1) := s)\<rparr>"
  have "run ?E [Main] a1 = Some (a1\<lparr>cl := ?c, prog := (prog a1)(Main := after_send For_Map ?hdr True)\<rparr>)"
    using a1(2,5) a(7) s(1) by (simp add: run_simps sendPacketLocked_def)
  from run_reachable [OF this r1] have r2: "client_reachable ?E example_app
      (a1\<lparr>cl := ?c, prog := (prog a1)(Main := after_send For_Map ?hdr True)\<rparr>)" .
  have "from_client (handshake_packet ''AC-001'' 1 @ map_request_packet ''AC-001'' n)"
    using from_clientI [OF r2 [unfolded example_app_def] example_host_steady, of _ "csocket ?c"] s(2)
    by (simp add: map_request_packet_def packet_bytes_def)
  then show ?thesis by blast
qed

subsection \<open>The server answers\<close>

lemma fleet_machine: "fleet_reachable E sv0 sv \<Longrightarrow> reachable E sv0 sv"
  by (induction rule: fleet_reachable.induct) (auto intro: reachable.intros)

lemma still_host_simps [simp]:
  "disk still_host p bs = Some bs" "alloc_ok still_host n" "read_ok still_host p"
  by (simp_all add: still_host_def example_host_def)

lemma first_map_small: "sint (map_seed ''AC-001'' 1) \<le> INT_MAX - 2046"
  by code_simp

lemma willing_replicate: "willing (k\<lparr>tx := replicate n (Accepts 4096)\<rparr>) n"
  unfolding willing_def by (intro exI [of _ "replicate n 4096"] exI [of _ "[]"]) simp

lemma map_sent_on_request:
  assumes "from_client (handshake_packet ''AC-001'' 1 @ map_request_packet ''AC-001'' m)"
  shows "\<exists>bmp. length bmp = 3145782 \<and>
    from_server still_host (answer ''AC-001'' 1 @ map_packet ''AC-001'' 1 bmp)"
proof -
  let ?bs = "handshake_packet ''AC-001'' 1 @ map_request_packet ''AC-001'' m"
  let ?k = "example_traffic\<lparr>rx := [RecvBytes ?bs], tx := replicate (Suc 770) (Accepts 4096)\<rparr>"
  have "?bs \<noteq> []" by (simp add: handshake_packet_def packet_bytes_def)
  then have k: "sock_readable ?k = ?bs" by (simp add: sock_readable_def)
  have will: "willing ?k (Suc 770)" by (rule willing_replicate)
  have "from_client (sock_readable ?k)" using assms k by simp
  from first_admitted [OF this k valid_AC_001 will] obtain s sv where s: "single At_Select s sv" "socketHandle s = 4"
    "session_state s = CONNECTED" "session_id s = ''AC-001''" "nextServerSequence s = 1" "\<not> telemetryValid s"
    "incoming (sworld sv) s = map_request_packet ''AC-001'' m" "outgoing (sworld sv) s = answer ''AC-001'' 1"
    "willing (wnet (sworld sv) 4) 770" "dashboard_ok (shared (sworld sv))"
    unfolding answer_def by blast
  let ?hdr = "makeHeader LARGE_FILE ''AC-001'' m 0 0"
  have hd: "wf_header ?hdr" "length ([] :: byte list) = unat (payload_size ?hdr)" by (simp_all add: wf_type_def)
  have inp: "incoming (sworld sv) s = header_bytes ?hdr @ [] @ []"
    using s(7) by (simp add: map_request_packet_def packet_bytes_def)
  have nh: "session_state s \<noteq> HANDSHAKE_PENDING" using s(3) by simp
  define s1 where "s1 = markPacketReceived s m 1000"
  obtain w1 where w: "processReadableSession still_host [(4, s)] s (sworld sv) =
      process_packet still_host ?hdr [] (markPacketReceived s (sequence_number ?hdr) (steady_now still_host (sworld sv))) w1"
    "outgoing w1 s = outgoing (sworld sv) s" "tx (wnet w1 (socketHandle s)) = tx (wnet (sworld sv) (socketHandle s))"
    by (rule packet_dispatched [OF hd inp nh s(10)])
  have w1: "processReadableSession still_host [(4, s)] s (sworld sv) = process_packet still_host ?hdr [] s1 w1"
    "outgoing w1 s = answer ''AC-001'' 1" "tx (wnet w1 4) = tx (wnet (sworld sv) 4)"
    using w s(2,8) by (simp_all add: s1_def)
  have s1: "session_state s1 \<in> active_states" "\<not> ctx_valid (weatherMapContextFor s1)" "session_id s1 = ''AC-001''"
    "nextServerSequence s1 = 1" "socketHandle s1 = 4" "ctx_id (weatherMapContextFor s1) = ''AC-001''"
    using s by (simp_all add: s1_def active_states_def weatherMapContextFor_def)
  obtain bmp where bmp: "generateWeatherMap (weatherMapContextFor s1) (nextServerSequence s1) = Some bmp"
    using map_defined_without_telemetry [OF s1(2), of 1] first_map_small s1(4,6) by auto
  have will1: "willing (wnet w1 (socketHandle s1)) 770" using s(9) w1(3) s1(5) by (simp add: willing_def)
  note len = length_generated [OF bmp]
  obtain s2 w2 where t: "sendWeatherMap still_host s1 w1 = (True, s2, w2)"
    "outgoing w2 s1 = outgoing w1 s1 @ map_packet ''AC-001'' 1 bmp"
    using transfer_runs [OF s1(1) bmp still_host_simps will1] s1(3,4) len
    by (auto simp: map_packet_def map_head_def)
  have "process_packet still_host ?hdr [] s1 w1 = (True, s2, w2)"
    using t(1) by (simp add: process_packet_def)
  with read_step [OF s(1)] w1(1) obtain sv' where sv': "server_step still_host sv sv'" "phase sv' = At_Weather"
    "sessions sv' = [(4, s2)]" "sworld sv' = w2"
    by metis
  have "reachable still_host example_start sv" using s(1) fleet_machine by (simp add: single_def)
  then have r: "reachable still_host example_start sv'" using sv'(1) by (rule reachable.step)
  then have "machine_inv sv'" unfolding example_start_def by (rule start_inv)
  then have "4 \<in> set (accepted sv')" using sv'(2,3) by (simp add: machine_inv_def map_find_def)
  moreover have "outb (wnet (sworld sv') 4) = answer ''AC-001'' 1 @ map_packet ''AC-001'' 1 bmp"
    using t(2) w1(2) s1(5) s(2) sv'(4) by simp
  ultimately have "from_server still_host (answer ''AC-001'' 1 @ map_packet ''AC-001'' 1 bmp)"
    using r unfolding from_server_def example_start_def by (metis prefix_order.refl)
  with len show ?thesis by blast
qed

subsection \<open>The client saves\<close>

lemma map_packet_received:
  assumes "length bmp < 2 ^ 32"
  shows "\<exists>a path. client_reachable (example_client_host (map_packet i n bmp)) example_app a \<and> saved (cl a) = [(path, bmp)]"
proof -
  let ?E = "example_client_host (map_packet i n bmp)" and ?h = "map_head i n bmp"
  obtain a where a: "client_reachable ?E example_app a" "prog a Receiver_Thread = [Rcv Recv_While]"
    "running (cl a)" "socket_live (cl a)" "saved (cl a) = []"
    "sock_readable (cnet (cl a) (csocket (cl a))) = header_bytes ?h @ bmp @ []"
    using example_receiving [of "map_packet i n bmp"] unfolding map_packet_def append_Nil2 by blast
  have e: "waitForReadable (ch_select ?E i) h 250" "ch_malloc ?E k" for i h k
    by (simp_all add: waitForReadable_def example_client_host_def Let_def)
  have h: "wf_header ?h" "packet_type ?h = LARGE_FILE" "length bmp = unat (payload_size ?h)"
    "computeChecksum bmp (payload_size ?h) = checksum ?h"
    using assms by (simp_all add: unat_of_nat)
  obtain a' ms where a': "alone ?E Receiver_Thread a a'"
    "saved (cl a') = saved (cl a) @ [(receivedWeatherMapPathFor ms (cid (cl a)) (sequence_number ?h), bmp)]"
    using map_received [OF a(2-4,6) h e] by blast
  then obtain k where "run ?E (replicate k Receiver_Thread) a = Some a'" by (auto simp: alone_def)
  with run_reachable a(1) have "client_reachable ?E example_app a'" by blast
  with a'(2) a(5) show ?thesis by (intro exI conjI) auto
qed

theorem client_saves_what_was_sent_witness:
  "\<exists>bmp a path. length bmp = 3145782 \<and>
     client_reachable (example_client_host (map_packet ''AC-001'' 1 bmp)) example_app a \<and>
     saved (cl a) = [(path, bmp)] \<and> map_sent still_host (example_client_host (map_packet ''AC-001'' 1 bmp)) bmp"
proof -
  obtain bmp where b: "length bmp = 3145782" "from_server still_host (answer ''AC-001'' 1 @ map_packet ''AC-001'' 1 bmp)"
    using example_map_requested map_sent_on_request by blast
  let ?E = "example_client_host (map_packet ''AC-001'' 1 bmp)"
  obtain a path where a: "client_reachable ?E example_app a" "saved (cl a) = [(path, bmp)]"
    using map_packet_received [of bmp "''AC-001''" 1] b(1) by auto
  have "sock_readable (ch_traffic ?E j) = answer ''AC-001'' 1 @ map_packet ''AC-001'' 1 bmp" for j
    by (simp add: example_client_host_def sock_readable_def answer_def header_bytes_def)
  with b(2) have s: "from_server still_host (sock_readable (ch_traffic ?E j))" for j by simp
  from client_saves_what_was_sent [OF a(1) [unfolded example_app_def] _ s] a(2)
  have "map_sent still_host ?E bmp" by simp
  with a b(1) show ?thesis by blast
qed

end
