(* ===== verification/Client_Process.thy ===== *)
theory Client_Process
  imports Client_Run Options
begin

text \<open>
  The client as a process: \<open>client/main.cpp\<close> around the menu loop, and when it can be left. A call
  that receives or sends may wait for its peer for ever; which connections have such a peer is a
  parameter, and a thread inside such a call takes no step. Whatever state the three threads have
  got into, there is a rank of the state that the main thread's next step lowers, or that of the
  worker it waits for; where it would wait for the user, the line typed is the one that leads out.
\<close>

subsection \<open>main\<close>

text \<open>Either the exit code and what is written to the error stream, or the console started.\<close>

definition client_main :: "u32 \<Rightarrow> string list \<Rightarrow> Logger \<Rightarrow> net \<Rightarrow> (int \<times> string) + app" where
  "client_main base args lg n =
     (case parseClientOptions base args of
        Inl msg \<Rightarrow> Inl (1, msg)
      | Inr options \<Rightarrow> Inr (start_app options lg n))"

text \<open>\<open>run\<close> has returned 0 and the client is destroyed when the main thread has nothing left to do.\<close>

definition exit_code :: "app \<Rightarrow> int option" where
  "exit_code a = (if prog a Main = [] then Some 0 else None)"

subsection \<open>Calls that wait\<close>

text \<open>
  \<open>Z j\<close> says that the peer of the j-th connection is silent: when its script of traffic is used up it
  neither sends, nor takes anything, nor closes. A call then waits for ever. With any other peer
  the end of the script is the end of the connection, as in \<open>Socket_Utils\<close>.
\<close>

definition silent :: "(nat \<Rightarrow> bool) \<Rightarrow> client \<Rightarrow> bool" where
  "silent Z c \<longleftrightarrow> 0 < socket_calls c \<and> Z (socket_calls c - 1)"

text \<open>Receiving, or sending, \<open>k\<close> bytes gets to the end of the script.\<close>

fun runs_dry :: "recv_event list \<Rightarrow> nat \<Rightarrow> bool" where
  "runs_dry [] k = (0 < k)"
| "runs_dry (RecvError # es) k = False"
| "runs_dry (RecvBytes bs # es) k = (bs \<noteq> [] \<and> runs_dry es (k - length bs))"

fun fills_up :: "send_event list \<Rightarrow> nat \<Rightarrow> bool" where
  "fills_up [] k = (0 < k)"
| "fills_up (SendError # es) k = False"
| "fills_up (Accepts m # es) k = (m \<noteq> 0 \<and> fills_up es (k - m))"

definition starves :: "(nat \<Rightarrow> bool) \<Rightarrow> client \<Rightarrow> nat \<Rightarrow> bool" where
  "starves Z c k \<longleftrightarrow>
     silent Z c \<and> socket_live c \<and> \<not> shut_all (cnet c (csocket c)) \<and> runs_dry (rx (cnet c (csocket c))) k"

definition clogs :: "(nat \<Rightarrow> bool) \<Rightarrow> client \<Rightarrow> nat \<Rightarrow> bool" where
  "clogs Z c k \<longleftrightarrow>
     silent Z c \<and> socket_live c \<and> \<not> shut_all (cnet c (csocket c)) \<and> \<not> shut_wr (cnet c (csocket c)) \<and>
     fills_up (tx (cnet c (csocket c))) k"

text \<open>Connecting waits where one of its attempts does, to send the handshake or for the answer.\<close>

definition handshake_stalls :: "(nat \<Rightarrow> bool) \<Rightarrow> client \<Rightarrow> bool" where
  "handshake_stalls Z c \<longleftrightarrow>
     (let handshake = makeHeader HANDSHAKE_REQUEST (cid c) (nextSequence c) 0 0;
          c1 = c\<lparr>nextSequence := nextSequence c + 1\<rparr>
      in clogs Z c1 (length (header_bytes handshake)) \<or>
         (case sendPacketLocked handshake [] c1 of
            (False, c2) \<Rightarrow> False
          | (True, c2) \<Rightarrow> starves Z c2 header_size))"

definition attempt_stalls :: "(nat \<Rightarrow> bool) \<Rightarrow> client_host \<Rightarrow> client \<Rightarrow> bool" where
  "attempt_stalls Z E c \<longleftrightarrow>
     (let c1 = open_socket E (c\<lparr>nextSequence := 1\<rparr>)
      in csocket c1 \<noteq> INVALID_SOCK \<and> resolveAndConnect E c1 \<and> handshake_stalls Z c1)"

function connect_stalls :: "(nat \<Rightarrow> bool) \<Rightarrow> client_host \<Rightarrow> nat \<Rightarrow> nat \<Rightarrow> client \<Rightarrow> bool" where
  "connect_stalls Z E maxAttempts attempt c =
     (if attempt < maxAttempts
      then attempt_stalls Z E c \<or>
           (case connect_attempt E maxAttempts attempt c of
              (Some result, c') \<Rightarrow> False
            | (None, c') \<Rightarrow> connect_stalls Z E maxAttempts (attempt + 1) c')
      else False)"
  by pat_completeness auto
termination by (relation "measure (\<lambda>(Z, E, maxAttempts, attempt, c). maxAttempts - attempt)") auto

declare connect_stalls.simps [simp del]

fun stalls :: "(nat \<Rightarrow> bool) \<Rightarrow> client_host \<Rightarrow> instr \<Rightarrow> client \<Rightarrow> bool" where
  "stalls Z E (Call (Send_Packet p n)) c =
     (case packet_for p (cid c) n of (hdr, payload) \<Rightarrow>
        clogs Z c (length (header_bytes hdr) + unat (payload_size hdr)))"
| "stalls Z E (Rcv Recv_Header) c = starves Z c header_size"
| "stalls Z E (Rcv (Recv_Payload header)) c = starves Z c (unat (payload_size header))"
| "stalls Z E (File (File_Recv header data)) c = starves Z c 1"
| "stalls Z E (Menu Menu_Connect) c = connect_stalls Z E (if explicitId c then 1 else kMaxAutoIdAttempts) 0 c"
| "stalls Z E i c = False"

definition waits :: "(nat \<Rightarrow> bool) \<Rightarrow> client_host \<Rightarrow> thread \<Rightarrow> app \<Rightarrow> bool" where
  "waits Z E t a \<longleftrightarrow> (case prog a t of [] \<Rightarrow> False | i # is \<Rightarrow> stalls Z E i (cl a))"

text \<open>
  What can come about: threads take steps, but none that waits. And what can come about calmly:
  steps from states in which no thread waits at all.
\<close>

inductive lives :: "(nat \<Rightarrow> bool) \<Rightarrow> client_host \<Rightarrow> app \<Rightarrow> app \<Rightarrow> bool" for Z E a0 where
  lives_init: "lives Z E a0 a0"
| lives_thread: "lives Z E a0 a \<Longrightarrow> ready t a \<Longrightarrow> \<not> waits Z E t a \<Longrightarrow> lives Z E a0 (app_step E t a)"
| lives_typed: "lives Z E a0 a \<Longrightarrow> lives Z E a0 (a\<lparr>inputLines := inputLines a @ [line]\<rparr>)"

definition calm :: "(nat \<Rightarrow> bool) \<Rightarrow> client_host \<Rightarrow> app \<Rightarrow> bool" where
  "calm Z E a \<longleftrightarrow> (\<forall>t. \<not> waits Z E t a)"

inductive calmly :: "(nat \<Rightarrow> bool) \<Rightarrow> client_host \<Rightarrow> app \<Rightarrow> app \<Rightarrow> bool" for Z E a0 where
  calm_init: "calmly Z E a0 a0"
| calm_step: "calmly Z E a0 a \<Longrightarrow> calm Z E a \<Longrightarrow> client_step E a a' \<Longrightarrow> calmly Z E a0 a'"

lemma lives_reachable: "lives Z E a0 a \<Longrightarrow> client_reachable E a0 a"
  by (induction rule: lives.induct) (auto intro: client_reachable.intros client_step.intros)

lemma calmly_reachable: "calmly Z E a0 a \<Longrightarrow> client_reachable E a0 a"
  by (induction rule: calmly.induct) (auto intro: client_reachable.intros)

lemma calmly_trans: "calmly Z E b c \<Longrightarrow> calmly Z E a b \<Longrightarrow> calmly Z E a c"
  by (induction rule: calmly.induct) (auto intro: calm_step)

lemma calm_typed [simp]: "calm Z E (a\<lparr>inputLines := ls\<rparr>) = calm Z E a"
  by (simp add: calm_def waits_def cong: list.case_cong)

subsection \<open>The connection in use\<close>

text \<open>Only connecting opens connections.\<close>

lemma close_calls [simp]: "socket_calls (do_close c) = socket_calls c" "socket_calls (closeSocketIfOpen c) = socket_calls c"
  by (simp_all add: do_close_def closeSocketIfOpen_def)

lemma answer_calls: "handshake_answer E M k response c = (r, c') \<Longrightarrow> socket_calls c' = socket_calls c"
  by (auto simp: handshake_answer_def Let_def setState_def printLine_def split: if_splits)

lemma exchange_calls: "handshake_exchange E M k c = (r, c') \<Longrightarrow> socket_calls c' = socket_calls c"
  by (auto simp: handshake_exchange_def Let_def setState_def client_logPacket_def clock_tick_def
      dest!: answer_calls same_connection_sendPacket same_connection_recvAll
      simp: same_connection_def split: prod.splits bool.splits option.splits)

lemma attempt_calls: "connect_attempt E M k c = (r, c') \<Longrightarrow> socket_calls c' = Suc (socket_calls c)"
  by (auto simp: connect_attempt_def Let_def open_socket_def setState_def dest!: exchange_calls split: if_splits)

lemma connect_calls: "k < M \<Longrightarrow> connect_loop E M k c = (ok, c') \<Longrightarrow> socket_calls c < socket_calls c'"
proof (induction E M k c rule: connect_loop.induct)
  case (1 E M k c)
  obtain r c1 where r: "connect_attempt E M k c = (r, c1)" by (cases "connect_attempt E M k c")
  note n = attempt_calls [OF r]
  show ?case
  proof (cases r)
    case (Some b)
    with 1 r n show ?thesis by (simp add: connect_loop.simps [of E M k c])
  next
    case None
    then have rec: "connect_loop E M (k + 1) c1 = (ok, c')" using 1 r by (simp add: connect_loop.simps [of E M k c])
    show ?thesis
    proof (cases "k + 1 < M")
      case True
      from "1.IH" [OF "1.prems"(1) r [symmetric] None True rec] n show ?thesis by simp
    next
      case False
      with rec n show ?thesis by (auto simp: connect_loop.simps [of E M "Suc k"] setState_def)
    qed
  qed
qed

lemma session_calls: "connectSession E c = (ok, c') \<Longrightarrow> socket_calls c < socket_calls c'"
  using connect_calls [of 0 "if explicitId c then 1 else kMaxAutoIdAttempts" E c ok c']
  by (simp add: connectSession_def kMaxAutoIdAttempts_def)

lemma perform_calls [simp]: "socket_calls (perform E oper c) = socket_calls c"
  by (cases oper)
     (simp_all add: setState_def printLine_def printStatus_def Let_def client_logPacket_def client_logFault_def
      client_logInfo_def clock_tick_def)

lemma io_calls:
  "client_recvAll k c = (r, c') \<Longrightarrow> socket_calls c' = socket_calls c"
  "client_recv k c = (r, c') \<Longrightarrow> socket_calls c' = socket_calls c"
  "sendPacketLocked hdr p c = (ok, c') \<Longrightarrow> socket_calls c' = socket_calls c"
  using same_connection_recvAll same_connection_recv same_connection_sendPacket by (simp_all add: same_connection_def)

lemma worker_calls:
  "client_call E k c = (js, c') \<Longrightarrow> socket_calls c' = socket_calls c"
  "telemetryLoop E p c = (js, c') \<Longrightarrow> socket_calls c' = socket_calls c"
  "receiverLoop E q c = (js, c') \<Longrightarrow> socket_calls c' = socket_calls c"
  "receiveLargeFile E f c = (js, c') \<Longrightarrow> socket_calls c' = socket_calls c"
proof -
  show "client_call E k c = (js, c') \<Longrightarrow> socket_calls c' = socket_calls c"
    by (cases k) (auto split: prod.splits if_splits dest: io_calls)
  show "telemetryLoop E p c = (js, c') \<Longrightarrow> socket_calls c' = socket_calls c"
    by (cases p) (auto simp: Let_def)
  show "receiverLoop E q c = (js, c') \<Longrightarrow> socket_calls c' = socket_calls c"
    by (cases q) (auto simp: Let_def split: prod.splits option.splits if_splits dest: io_calls)
  show "receiveLargeFile E f c = (js, c') \<Longrightarrow> socket_calls c' = socket_calls c"
    by (cases f) (auto simp: Let_def clock_tick_def split: prod.splits option.splits if_splits dest: io_calls)
qed

lemma menu_calls: "menuLoop E m a = (js, a') \<Longrightarrow> socket_calls (cl a) \<le> socket_calls (cl a')"
  by (cases m)
     (auto simp: tryPopInput_def Let_def split: list.splits prod.splits bool.splits if_splits
        dest: session_calls intro: less_imp_le)

lemma exec_calls: "exec E i a = (js, a') \<Longrightarrow> socket_calls (cl a) \<le> socket_calls (cl a')"
  by (cases i) (auto dest!: lift_clientD worker_calls menu_calls)

lemma step_calls: "client_step E a a' \<Longrightarrow> socket_calls (cl a) \<le> socket_calls (cl a')"
proof (induction rule: client_step.induct)
  case (thread t a)
  obtain i "is" where p: "prog a t = i # is" using thread by (auto simp: ready_def split: list.splits)
  obtain js a' where e: "exec E i a = (js, a')" by (cases "exec E i a")
  from exec_calls [OF e] show ?case by (simp add: app_step_eq [OF p e])
qed simp

lemma calmly_calls: "calmly Z E a b \<Longrightarrow> socket_calls (cl a) \<le> socket_calls (cl b)"
  by (induction rule: calmly.induct) (auto dest: step_calls)

text \<open>A thread waits on the connection in use, or on one that it opens.\<close>

lemma stalls_silent:
  assumes "stalls Z E i c" "i \<noteq> Menu Menu_Connect"
  shows "silent Z c"
  using assms
  by (cases "(Z, E, i, c)" rule: stalls.cases) (auto simp: starves_def clogs_def split: prod.splits)

lemma handshake_silent: "handshake_stalls Z c \<Longrightarrow> silent Z c"
proof -
  assume h: "handshake_stalls Z c"
  let ?c = "c\<lparr>nextSequence := nextSequence c + 1\<rparr>" and ?h = "makeHeader HANDSHAKE_REQUEST (cid c) (nextSequence c) 0 0"
  obtain ok c2 where s: "sendPacketLocked ?h [] ?c = (ok, c2)" by (cases "sendPacketLocked ?h [] ?c")
  then have "socket_calls c2 = socket_calls c" using io_calls(3) [OF s] by simp
  with h s show ?thesis
    by (cases ok) (auto simp: handshake_stalls_def Let_def clogs_def starves_def silent_def)
qed

lemma connect_silent:
  "connect_stalls Z E M k c \<Longrightarrow> \<exists>j. socket_calls c \<le> j \<and> Z j"
proof (induction Z E M k c rule: connect_stalls.induct)
  case (1 Z E M k c)
  show ?case
  proof (cases "attempt_stalls Z E c")
    case True
    then have "silent Z (open_socket E (c\<lparr>nextSequence := 1\<rparr>))"
      by (auto simp: attempt_stalls_def Let_def dest: handshake_silent)
    then show ?thesis by (auto simp: silent_def open_socket_def Let_def split: if_splits)
  next
    case False
    obtain r c1 where r: "connect_attempt E M k c = (r, c1)" by (cases "connect_attempt E M k c")
    with "1.prems" False have "k < M" "r = None" "connect_stalls Z E M (k + 1) c1"
      by (auto simp: connect_stalls.simps [of Z E M k c] split: if_splits option.splits)
    with "1.IH" [OF this(1) r [symmetric] this(2,3)] attempt_calls [OF r] show ?thesis by (auto dest: Suc_leD)
  qed
qed

lemma waits_silent:
  assumes "waits Z E t a"
  shows "\<exists>j. socket_calls (cl a) \<le> Suc j \<and> Z j"
proof -
  obtain i "is" where p: "prog a t = i # is" "stalls Z E i (cl a)" using assms by (auto simp: waits_def split: list.splits)
  show ?thesis
  proof (cases "i = Menu Menu_Connect")
    case True
    with p(2) connect_silent show ?thesis by (force dest: le_SucI)
  next
    case False
    with stalls_silent [OF p(2)] show ?thesis by (auto simp: silent_def intro!: exI [of _ "socket_calls (cl a) - 1"])
  qed
qed

text \<open>Before the first connection nobody can wait but the main thread, connecting.\<close>

lemma lives_before: "client_reachable E a0 a \<Longrightarrow> socket_calls (cl a) = 0 \<Longrightarrow> lives Z E a0 a"
proof (induction rule: client_reachable.induct)
  case init
  show ?case by (rule lives_init)
next
  case (step a a')
  then have z: "socket_calls (cl a) = 0" using step_calls by fastforce
  then have l: "lives Z E a0 a" using step.IH by simp
  from step.hyps(2) show ?case
  proof cases
    case (thread t)
    have "\<not> waits Z E t a"
    proof
      assume w: "waits Z E t a"
      obtain i "is" where p: "prog a t = i # is" "stalls Z E i (cl a)" using w by (auto simp: waits_def split: list.splits)
      have "i = Menu Menu_Connect" using stalls_silent [OF p(2)] z by (auto simp: silent_def)
      moreover obtain ok c where c: "connectSession E (cl a) = (ok, c)" by (cases "connectSession E (cl a)")
      ultimately have "socket_calls (cl a') = socket_calls c"
        using p(1) thread(1) by (cases ok) (simp_all add: app_step_def)
      with session_calls [OF c] step.prems show False by simp
    qed
    with l thread show ?thesis by (auto intro: lives_thread)
  next
    case (typed line)
    with l show ?thesis by (auto intro: lives_typed)
  qed
qed

lemma lives_all: "(\<And>j. \<not> Z j) \<Longrightarrow> client_reachable E a0 a \<Longrightarrow> lives Z E a0 a"
proof -
  assume z: "\<And>j. \<not> Z j"
  then have n: "\<not> waits Z E t a" for t a using waits_silent by blast
  show "client_reachable E a0 a \<Longrightarrow> lives Z E a0 a"
    by (induction rule: client_reachable.induct) (auto elim!: client_step.cases intro: lives.intros simp: n)
qed

subsection \<open>How far the end is\<close>

text \<open>
  The steps from an instruction to the next poll for input, with the running flag set or cleared.
\<close>

fun main_cost :: "bool \<Rightarrow> instr \<Rightarrow> nat" where
  "main_cost r (Do oper) = 1"
| "main_cost r (Call k) =
     (case k of Print_Status \<Rightarrow> 2 | Close_If_Open \<Rightarrow> 1 | Disconnect_Session \<Rightarrow> 5 | Disconnect_Exchange \<Rightarrow> 4
      | Take_Sequence p \<Rightarrow> (case p of For_Map \<Rightarrow> if r then 14 else 27 | _ \<Rightarrow> 4)
      | Send_Packet p n \<Rightarrow> (case p of For_Map \<Rightarrow> if r then 12 else 25 | _ \<Rightarrow> 2)
      | Fault_Here cause \<Rightarrow> 0)"
| "main_cost r (Menu m) =
     (case m of Menu_While \<Rightarrow> 9 | Menu_Show \<Rightarrow> 7 | Menu_Poll \<Rightarrow> 3 | Menu_Connect \<Rightarrow> 1 | Spawn \<Rightarrow> 1
      | Session_While \<Rightarrow> if r then 8 else 21 | Session_Show \<Rightarrow> if r then 7 else 26
      | Session_Poll \<Rightarrow> if r then 3 else 22 | Request_Returned b \<Rightarrow> if r then 9 else 22
      | Join t \<Rightarrow> 1 | Session_Ended \<Rightarrow> 13)"
| "main_cost r (Tel p) = 0"
| "main_cost r (Rcv p) = 0"
| "main_cost r (File f) = 0"

text \<open>A disconnect clears the flag at once if it is set, so what comes after does not count yet.\<close>

fun main_work :: "bool \<Rightarrow> instr list \<Rightarrow> nat" where
  "main_work r [] = 0"
| "main_work r (i # is) =
     (if r \<and> i = Call Disconnect_Session then 2
      else if r \<and> i = Call Disconnect_Exchange then 1
      else main_cost r i + main_work r is)"

text \<open>
  Lines still to be read, a pending connect counting as one; whether a session runs; the steps to the
  next poll, with those of the workers once they are winding down.
\<close>

definition rank :: "app \<Rightarrow> nat \<times> nat \<times> nat" where
  "rank a =
     (length (inputLines a) + count_list (prog a Main) (Menu Menu_Connect),
      of_bool (running (cl a)),
      main_work (running (cl a)) (prog a Main) +
        (if running (cl a) then 0 else work (prog a Telemetry_Thread) + work (prog a Receiver_Thread)))"

definition lower :: "app \<Rightarrow> app \<Rightarrow> bool" where
  "lower b a \<longleftrightarrow> (rank b, rank a) \<in> less_than <*lex*> less_than <*lex*> less_than"

lemma lower_induct [consumes 0, case_names less]:
  assumes "\<And>a. (\<And>b. lower b a \<Longrightarrow> P b) \<Longrightarrow> P a"
  shows "P a"
proof -
  have "wf (inv_image (less_than <*lex*> less_than <*lex*> less_than) rank)" by (intro wf_inv_image wf_lex_prod) auto
  then show ?thesis
  proof (induction a rule: wf_induct_rule)
    case (less a)
    show ?case by (rule assms) (use less in \<open>simp add: lower_def in_inv_image\<close>)
  qed
qed

lemma lowerI:
  assumes "length (inputLines b) + count_list (prog b Main) (Menu Menu_Connect) \<le>
      length (inputLines a) + count_list (prog a Main) (Menu Menu_Connect)"
    and "running (cl b) \<Longrightarrow> running (cl a)"
    and "running (cl b) = running (cl a) \<Longrightarrow>
      main_work (running (cl a)) (prog b Main) +
          (if running (cl a) then 0 else work (prog b Telemetry_Thread) + work (prog b Receiver_Thread)) <
        main_work (running (cl a)) (prog a Main) +
          (if running (cl a) then 0 else work (prog a Telemetry_Thread) + work (prog a Receiver_Thread))"
  shows "lower b a"
  using assms by (cases "running (cl a)"; cases "running (cl b)") (auto simp: lower_def rank_def)

lemma lower_fewer:
  "length (inputLines b) + count_list (prog b Main) (Menu Menu_Connect) <
     length (inputLines a) + count_list (prog a Main) (Menu Menu_Connect) \<Longrightarrow> lower b a"
  by (simp add: lower_def rank_def)

text \<open>
  A step of the main thread that reads no line: it clears the flag, or is one step nearer to the next
  poll.
\<close>

lemma lower_step:
  assumes p: "prog a Main = i # is" and e: "exec E i a = (js, a')"
    and "inputLines a' = inputLines a" "prog a' = prog a \<or> running (cl a')" "running (cl a') \<Longrightarrow> running (cl a)"
    and "Menu Menu_Connect \<notin> set js"
    and w: "running (cl a') = running (cl a) \<Longrightarrow>
      main_work (running (cl a)) (js @ is) < main_work (running (cl a)) (i # is)"
  shows "lower (app_step E Main a) a"
proof (rule lowerI)
  have c: "count_list (js @ is) (Menu Menu_Connect) = count_list is (Menu Menu_Connect)"
    using assms(6) by simp
  show "length (inputLines (app_step E Main a)) + count_list (prog (app_step E Main a) Main) (Menu Menu_Connect) \<le>
      length (inputLines a) + count_list (prog a Main) (Menu Menu_Connect)"
    using assms(3) c by (simp add: app_step_eq [OF p e] p)
next
  assume r: "running (cl (app_step E Main a)) = running (cl a)"
  then have "running (cl a') = running (cl a)" by (simp add: app_step_eq [OF p e])
  from w [OF this] this assms(4)
  show "main_work (running (cl a)) (prog (app_step E Main a) Main) +
          (if running (cl a) then 0 else work (prog (app_step E Main a) Telemetry_Thread)
             + work (prog (app_step E Main a) Receiver_Thread)) <
        main_work (running (cl a)) (prog a Main) +
          (if running (cl a) then 0 else work (prog a Telemetry_Thread) + work (prog a Receiver_Thread))"
    by (auto simp: app_step_eq [OF p e] p simp del: main_work.simps)
qed (use assms(5) in \<open>simp add: app_step_eq [OF p e]\<close>)

subsection \<open>Every step towards it\<close>

lemma exec_call:
  "exec E (Call k) a = (js, a') \<Longrightarrow> \<exists>c. client_call E k (cl a) = (js, c) \<and> a' = a\<lparr>cl := c\<rparr>"
  by (auto dest: lift_clientD)

lemma lower_call:
  assumes "prog a Main = Call k # is" "client_call E k (cl a) = (js, c)" "running c = running (cl a)"
    and "Menu Menu_Connect \<notin> set js"
    and "main_work (running (cl a)) (js @ is) < main_work (running (cl a)) (Call k # is)"
  shows "lower (app_step E Main a) a"
proof (rule lower_step [OF assms(1)])
  show "exec E (Call k) a = (js, a\<lparr>cl := c\<rparr>)" using assms(2) by (simp add: lift_client_def)
qed (use assms in \<open>simp_all del: main_work.simps\<close>)

lemma send_lower:
  assumes "prog a Main = Call (Send_Packet p n) # is"
    and "\<And>hdr ok. main_work (running (cl a)) (after_send p hdr ok @ is)
           < main_work (running (cl a)) (Call (Send_Packet p n) # is)"
  shows "lower (app_step E Main a) a"
proof -
  obtain js c where c: "client_call E (Send_Packet p n) (cl a) = (js, c)" by (cases "client_call E (Send_Packet p n) (cl a)")
  obtain hdr ok where s: "same_connection (cl a) c" "js = after_send p hdr ok" using send_call_same [OF c] by blast
  have "Menu Menu_Connect \<notin> set js" unfolding s(2) by (cases p; cases ok) auto
  with s assms show ?thesis by (intro lower_call [OF assms(1) c]) (auto simp: same_connection_def)
qed

lemma take_lower:
  assumes "prog a Main = Call (Take_Sequence p) # is"
  shows "lower (app_step E Main a) a"
  by (rule lower_call [OF assms]) (auto split: purpose.splits)

text \<open>Polling: a line is read, or there is none.\<close>

lemma poll_fewer:
  assumes "prog a Main = [Menu m]" "m = Menu_Poll \<or> m = Session_Poll" "inputLines a = l # ls"
    and "exec E (Menu m) a = (js, a')" "Menu Menu_Connect \<notin> set js"
  shows "lower (app_step E Main a) a"
proof -
  have "inputLines a' = ls" using assms(2-4) by (auto simp: tryPopInput_def Let_def split: if_splits)
  with assms show ?thesis by (intro lower_fewer) (auto simp: app_step_eq)
qed

text \<open>
  If nobody waits, somebody can take a step that lowers the rank, the user by typing where nothing is
  left to read.
\<close>

definition can_lower :: "(nat \<Rightarrow> bool) \<Rightarrow> client_host \<Rightarrow> app \<Rightarrow> bool" where
  "can_lower Z E a \<longleftrightarrow> (calm Z E a \<longrightarrow> (\<exists>b. calmly Z E a b \<and> lower b a))"

lemma can_lower_step: "ready t a \<Longrightarrow> lower (app_step E t a) a \<Longrightarrow> can_lower Z E a"
  unfolding can_lower_def using calm_step [OF calm_init _ client_step.thread] by blast

lemma can_lower_main:
  assumes "prog a Main = i # is" "\<And>t. i \<noteq> Menu (Join t)" "lower (app_step E Main a) a"
  shows "can_lower Z E a"
proof -
  have "ready Main a" using assms(1,2) by (auto simp: ready_def split: instr.splits menu_point.splits)
  with assms(3) show ?thesis by (intro can_lower_step)
qed

lemma can_lower_typed:
  assumes "prog a Main = i # is" "\<And>t. i \<noteq> Menu (Join t)" "inputLines a = []"
    and "lower (app_step E Main (a\<lparr>inputLines := [line]\<rparr>)) a"
  shows "can_lower Z E a"
proof -
  let ?a = "a\<lparr>inputLines := inputLines a @ [line]\<rparr>"
  have "ready Main ?a" using assms(1,2) by (auto simp: ready_def split: instr.splits menu_point.splits)
  then have s: "client_step E ?a (app_step E Main ?a)" by (rule client_step.thread)
  have "calmly Z E a (app_step E Main ?a)" if "calm Z E a"
    using calm_step [OF calm_step [OF calm_init that client_step.typed] _ s] that by simp
  with assms(3,4) show ?thesis by (auto simp: can_lower_def)
qed

lemma normalize_quit [simp]: "normalizeChoice ''Q'' = ''Q''"
  by code_simp

lemma menu_lower:
  assumes "prog a Main = [Menu m]" "m \<in> menu_points" "at_menu (facts_of a)"
  shows "can_lower Z E a"
proof -
  have q: "\<not> running (cl a)" using assms(3) by (simp add: at_menu_def facts_of_def)
  note go = can_lower_main [OF assms(1)]
  consider "m = Menu_While \<or> m = Menu_Show" | "m = Menu_Connect" | l ls where "m = Menu_Poll" "inputLines a = l # ls"
    | "m = Menu_Poll" "inputLines a = []"
    using assms(2) by (cases "inputLines a") (auto simp: menu_points_def)
  then show ?thesis
  proof cases
    case 1
    obtain js a' where e: "exec E (Menu m) a = (js, a')" by (cases "exec E (Menu m) a")
    with 1 q show ?thesis by (intro go lower_step [OF assms(1) e]) (auto simp: Let_def split: if_splits)
  next
    case 2
    obtain ok c where c: "connectSession E (cl a) = (ok, c)" by (cases "connectSession E (cl a)")
    show ?thesis using 2 c assms(1) by (intro go lower_fewer) (auto simp: app_step_def split: bool.splits)
  next
    case 3
    have "lower (app_step E Main a) a"
    proof (cases "normalizeChoice l = ''1''")
      case True
      with 3 q assms(1) show ?thesis by (intro lowerI) (simp_all add: app_step_def tryPopInput_def Let_def)
    next
      case False
      with 3 assms(1) show ?thesis by (intro lower_fewer) (simp add: app_step_def tryPopInput_def Let_def)
    qed
    with 3 show ?thesis by (intro go) simp_all
  next
    case 4
    have "lower (app_step E Main (a\<lparr>inputLines := [''Q'']\<rparr>)) a"
      using 4 q assms(1) by (intro lowerI) (auto simp: app_step_def tryPopInput_def Let_def)
    with 4 show ?thesis by (intro can_lower_typed [OF assms(1)]) simp_all
  qed
qed

lemma session_lower:
  assumes "prog a Main = [Menu m]" "m \<in> session_points \<or> m = Request_Returned False \<and> \<not> running (cl a)"
  shows "can_lower Z E a"
proof -
  note go = can_lower_main [OF assms(1)]
  consider "m \<noteq> Session_Poll" | l ls where "m = Session_Poll" "inputLines a = l # ls"
    | "m = Session_Poll" "inputLines a = []"
    by (cases "inputLines a") auto
  then show ?thesis
  proof cases
    case 1
    obtain js a' where e: "exec E (Menu m) a = (js, a')" by (cases "exec E (Menu m) a")
    have "lower (app_step E Main a) a"
      using 1 assms(2) e
      by (intro lower_step [OF assms(1) e]) (auto simp: session_points_def session_over_def split: if_splits)
    with 1 assms(2) show ?thesis by (intro go) (auto simp: session_points_def)
  next
    case 2
    have "lower (app_step E Main a) a"
      using 2 assms(1) by (intro lower_fewer) (auto simp: app_step_def tryPopInput_def Let_def)
    with 2 show ?thesis by (intro go) simp_all
  next
    case 3
    show ?thesis
    proof (cases "running (cl a)")
      case True
      have "lower (app_step E Main (a\<lparr>inputLines := [''D'']\<rparr>)) a"
        using 3 True assms(1) by (intro lowerI) (auto simp: app_step_def tryPopInput_def Let_def)
      with 3 show ?thesis by (intro can_lower_typed [OF assms(1)]) simp_all
    next
      case False
      have "lower (app_step E Main a) a"
        using 3 False assms(1) by (intro lowerI) (auto simp: app_step_def tryPopInput_def Let_def)
      with 3 show ?thesis by (intro go) simp_all
    qed
  qed
qed

text \<open>A join that has to wait: the worker it waits for goes on.\<close>

lemma join_lower:
  assumes "app_inv a" "prog a Main = Menu (Join t) # is" "t \<noteq> Main" "\<not> running (cl a)"
  shows "can_lower Z E a"
proof (cases "prog a t = []")
  case True
  then have "ready Main a" using assms(2) by (simp add: ready_def)
  moreover have "lower (app_step E Main a) a"
    using assms(2,4) by (intro lowerI) (auto simp: app_step_def)
  ultimately show ?thesis by (rule can_lower_step)
next
  case False
  have ok: "workers_ok a" using assms(1) by (simp add: app_inv_def)
  then have r: "ready t a"
    using False assms(3) telemetry_worker.never_waits [of a] receiver_worker.never_waits [of a]
    by (cases t) (auto simp: workers_ok_def)
  have w: "work (prog (app_step E t a) u) + (if t = u then 1 else 0) \<le> work (prog a u)" if "u \<noteq> Main" for u
    using worker_work [OF assms(1,4) r that] .
  obtain c p where s: "app_step E t a = a\<lparr>cl := c, prog := (prog a)(t := p)\<rparr>" "keeps (cl a) c"
  proof (cases t)
    case Telemetry_Thread
    with ok r show ?thesis by (auto simp: workers_ok_def intro: that elim!: telemetry_worker.own_step [where E = E and a = a])
  next
    case Receiver_Thread
    with ok r show ?thesis by (auto simp: workers_ok_def intro: that elim!: receiver_worker.own_step [where E = E and a = a])
  qed (use assms(3) in simp)
  have "\<not> running c" using s(2) assms(4) by (simp add: keeps_def)
  then have "lower (app_step E t a) a"
    using s(1) assms(3,4) w [of Telemetry_Thread] w [of Receiver_Thread]
    by (intro lowerI; cases t) auto
  with r show ?thesis by (rule can_lower_step)
qed

text \<open>So wherever the main thread is, something can lower the rank.\<close>

lemma progress:
  assumes inv: "app_inv a" and "prog a Main \<noteq> []"
  shows "can_lower Z E a"
proof -
  obtain i "is" where p: "prog a Main = i # is" using assms(2) by (cases "prog a Main") auto
  obtain js a' where e: "exec E i a = (js, a')" by (cases "exec E i a")
  note go = can_lower_main [OF p]
  have r: "running (cl a) \<longleftrightarrow> \<not> quiet (facts_of a)" "csocket (cl a) = INVALID_SOCK \<longleftrightarrow> none (facts_of a)"
    "socket_live (cl a) \<longleftrightarrow> live (facts_of a)" by (simp_all add: facts_of_def)
  have "main_at (facts_of a) (i # is)" using inv p by (simp add: app_inv_def)
  then show ?thesis
  proof (cases rule: main_at.cases)
    case (m_menu m)
    with p show ?thesis by (intro menu_lower) simp_all
  next
    case (m_passive oper)
    with e have "js = []" "a' = a\<lparr>cl := perform E oper (cl a)\<rparr>" by simp_all
    with m_passive passive_same [OF m_passive(2), of "cl a" E] show ?thesis
      by (intro go lower_step [OF p e]) (auto simp: same_connection_def)
  next
    case m_stop
    with e show ?thesis by (intro go lower_step [OF p e]) auto
  next
    case m_status
    with e p show ?thesis by (intro go lower_call [where k = Print_Status]) auto
  next
    case m_close_none
    with e p r show ?thesis by (intro go lower_call [where k = Close_If_Open]) auto
  next
    case m_spawn
    with e r show ?thesis by (intro go lower_step [OF p e]) auto
  next
    case (m_session m)
    with p show ?thesis by (intro session_lower disjI1) simp_all
  next
    case m_refused
    with p r show ?thesis by (intro session_lower disjI2) simp_all
  next
    case m_take_map
    with p show ?thesis by (intro go take_lower) auto
  next
    case (m_send_map n)
    have w: "main_work r (after_send For_Map hdr ok @ is) < main_work r (Call (Send_Packet For_Map n) # is)" for r hdr ok
      by (cases ok) auto
    from m_send_map p show ?thesis by (intro go send_lower [OF _ w]) simp_all
  next
    case m_disconnect
    with e p r show ?thesis
      by (intro go lower_call [where k = Disconnect_Session]) (auto simp: in_session_def socket_live_def)
  next
    case m_exchange
    with e p show ?thesis by (intro go lower_step [OF p e]) (auto simp: lift_client_def split: if_splits)
  next
    case m_take_disc
    with p show ?thesis by (intro go take_lower) auto
  next
    case (m_send_disc n)
    have w: "main_work r (after_send For_Disconnect hdr ok @ is) < main_work r (Call (Send_Packet For_Disconnect n) # is)"
      for r hdr ok by (cases ok) auto
    from m_send_disc p show ?thesis by (intro go send_lower [OF _ w]) simp_all
  next
    case (m_close js0)
    with e show ?thesis by (intro go lower_step [OF p e]) (auto simp: do_close_def)
  next
    case m_forget
    with e show ?thesis by (intro go lower_step [OF p e]) auto
  next
    case m_join_tel
    with p r show ?thesis by (intro join_lower [OF inv, of Telemetry_Thread]) (simp_all add: joins_def)
  next
    case m_join_rcv
    with p r show ?thesis by (intro join_lower [OF inv, of Receiver_Thread]) simp_all
  next
    case m_ended
    with e r show ?thesis by (intro go lower_step [OF p e]) (auto simp: at_menu_def)
  qed
qed

lemma can_end: "app_inv a \<Longrightarrow> \<exists>b. calmly Z E a b \<and> (prog b Main = [] \<or> \<not> calm Z E b)"
proof (induction a rule: lower_induct)
  case (less a)
  show ?case
  proof (cases "prog a Main = [] \<or> \<not> calm Z E a")
    case True
    then show ?thesis using calm_init by blast
  next
    case False
    with progress [OF less.prems, of Z E] obtain b where b: "calmly Z E a b" "lower b a"
      by (auto simp: can_lower_def)
    from less.IH [OF b(2) app_inv_reachable [OF calmly_reachable [OF b(1)] less.prems]] calmly_trans [OF _ b(1)]
    show ?thesis by blast
  qed
qed

text \<open>While the main thread waits in connecting, nothing but typing can happen.\<close>

inductive_cases main_at_connectE: "main_at f (Menu Menu_Connect # is)"

lemma main_connects: "main_at f (Menu Menu_Connect # is) \<Longrightarrow> at_menu f \<and> is = []"
  by (erule main_at_connectE) (auto simp: menu_points_def session_points_def joins_def)

lemma connect_traps:
  assumes "app_inv a" "prog a Main = Menu Menu_Connect # is" "waits Z E Main a" "lives Z E a b"
  shows "prog b = prog a \<and> cl b = cl a"
  using assms(4)
proof (induction rule: lives.induct)
  case (lives_thread b t)
  have "at_menu (facts_of a)" using assms(1,2) main_connects [of "facts_of a" "is"] by (simp add: app_inv_def)
  then have "prog a Telemetry_Thread = []" "prog a Receiver_Thread = []" by (simp_all add: at_menu_def facts_of_def)
  with lives_thread have "t = Main" by (cases t) (auto simp: ready_def)
  moreover have "waits Z E Main b" using assms(3) lives_thread.IH by (simp add: waits_def split: list.splits)
  ultimately show ?case using lives_thread.hyps by simp
qed simp_all

text \<open>No thread waits for a thread that waits for it.\<close>

inductive_cases main_at_joinE: "main_at f (Menu (Join t) # is)"

lemma main_joins: "main_at f (Menu (Join t) # is) \<Longrightarrow> t \<noteq> Main"
  by (erule main_at_joinE) (auto simp: menu_points_def session_points_def joins_def)

lemma not_stuck: "app_inv a \<Longrightarrow> prog a Main \<noteq> [] \<Longrightarrow> \<exists>t. ready t a"
proof -
  assume inv: "app_inv a" and p: "prog a Main \<noteq> []"
  then have "ready Telemetry_Thread a \<or> prog a Telemetry_Thread = []" "ready Receiver_Thread a \<or> prog a Receiver_Thread = []"
    using telemetry_worker.never_waits [of a] receiver_worker.never_waits [of a]
    by (auto simp: app_inv_def workers_ok_def)
  moreover have "t \<noteq> Main" if "prog a Main = Menu (Join t) # is" for t "is"
    using inv that main_joins [of "facts_of a" t "is"] by (simp add: app_inv_def)
  moreover have "ready Main a \<or> (\<exists>t is. prog a Main = Menu (Join t) # is \<and> prog a t \<noteq> [])"
    using p by (auto simp: ready_def split: list.splits instr.splits menu_point.splits)
  ultimately show ?thesis by (metis thread.exhaust)
qed

text \<open>
  C11. The client can be left, and cleanly, as long as its server does not keep it waiting. Unusable
  arguments end it with code 1 and a message. Otherwise, whatever the user, the server and the
  network have done and wherever its three threads have got to: the threads never deadlock among
  themselves; from every state the steps can go on (the user typing D and Q where nothing is left
  to read, no thread waiting on the way) either to an end with code 0 or to a state in which some
  thread waits inside a receive or a send for a silent peer; so to an end with code 0, if the peer
  of the connection in use, and of those made later, is not silent. But once connecting waits for
  a silent server the process never ends: the line Q is never read. And however the process comes
  to its end, both workers are gone then and every socket it ever opened has been closed, none
  twice.
\<close>

theorem client_can_be_left:
  assumes "\<And>h. closes (n h) = 0"
  shows "case client_main base args lg n of
      Inl (code, msg) \<Rightarrow> code = 1 \<and> msg \<noteq> []
    | Inr a0 \<Rightarrow>
        (\<forall>a. lives Z E a0 a \<longrightarrow>
          (exit_code a = None \<longrightarrow> (\<exists>t. ready t a)) \<and>
          (\<exists>b. calmly Z E a b \<and> (exit_code b = Some 0 \<or> (\<exists>t. waits Z E t b))) \<and>
          ((\<forall>j. socket_calls (cl a) \<le> Suc j \<longrightarrow> \<not> Z j) \<longrightarrow> (\<exists>b. calmly Z E a b \<and> exit_code b = Some 0)) \<and>
          (\<forall>is. prog a Main = Menu Menu_Connect # is \<longrightarrow> waits Z E Main a \<longrightarrow> (\<forall>b. lives Z E a b \<longrightarrow> exit_code b = None)) \<and>
          (exit_code a \<noteq> None \<longrightarrow>
            prog a Telemetry_Thread = [] \<and> prog a Receiver_Thread = [] \<and> \<not> running (cl a) \<and>
            csocket (cl a) = INVALID_SOCK \<and> opened (cl a) = closed (cl a) \<and> (\<forall>h. closes (cnet (cl a) h) \<le> 1)))"
proof (cases "parseClientOptions base args")
  case (Inl msg)
  have "msg \<noteq> []"
    using Inl by (auto simp: parseClientOptions_def client_port_def parse_port_def client_usage_def bad_id_message_def
        bad_port_message_def Let_def split: if_splits sum.splits)
  with Inl show ?thesis by (simp add: client_main_def)
next
  case (Inr options)
  have start: "app_inv (start_app options lg n)" using assms by (intro app_inv_start) simp
  have "(exit_code a = None \<longrightarrow> (\<exists>t. ready t a)) \<and>
      (\<exists>b. calmly Z E a b \<and> (exit_code b = Some 0 \<or> (\<exists>t. waits Z E t b))) \<and>
      ((\<forall>j. socket_calls (cl a) \<le> Suc j \<longrightarrow> \<not> Z j) \<longrightarrow> (\<exists>b. calmly Z E a b \<and> exit_code b = Some 0)) \<and>
      (\<forall>is. prog a Main = Menu Menu_Connect # is \<longrightarrow> waits Z E Main a \<longrightarrow> (\<forall>b. lives Z E a b \<longrightarrow> exit_code b = None)) \<and>
      (exit_code a \<noteq> None \<longrightarrow>
        prog a Telemetry_Thread = [] \<and> prog a Receiver_Thread = [] \<and> \<not> running (cl a) \<and>
        csocket (cl a) = INVALID_SOCK \<and> opened (cl a) = closed (cl a) \<and> (\<forall>h. closes (cnet (cl a) h) \<le> 1))"
    if l: "lives Z E (start_app options lg n) a" for a
  proof (intro conjI)
    have inv: "app_inv a" using app_inv_reachable [OF lives_reachable [OF l] start] .
    show "exit_code a = None \<longrightarrow> (\<exists>t. ready t a)" using not_stuck [OF inv] by (simp add: exit_code_def)
    obtain b where b: "calmly Z E a b" "prog b Main = [] \<or> \<not> calm Z E b" using can_end [OF inv] by blast
    then have "exit_code b = Some 0 \<or> (\<exists>t. waits Z E t b)" by (auto simp: exit_code_def calm_def)
    with b(1) show "\<exists>b. calmly Z E a b \<and> (exit_code b = Some 0 \<or> (\<exists>t. waits Z E t b))" by blast
    have "exit_code b = Some 0" if "\<forall>j. socket_calls (cl a) \<le> Suc j \<longrightarrow> \<not> Z j"
    proof -
      have "\<not> waits Z E t b" for t using waits_silent [of Z E t b] calmly_calls [OF b(1)] that by (meson le_trans)
      with b(2) show ?thesis by (simp add: exit_code_def calm_def)
    qed
    with b(1) show "(\<forall>j. socket_calls (cl a) \<le> Suc j \<longrightarrow> \<not> Z j) \<longrightarrow> (\<exists>b. calmly Z E a b \<and> exit_code b = Some 0)"
      by blast
    show "\<forall>is. prog a Main = Menu Menu_Connect # is \<longrightarrow> waits Z E Main a \<longrightarrow> (\<forall>b. lives Z E a b \<longrightarrow> exit_code b = None)"
      using connect_traps [OF inv] by (auto simp: exit_code_def)
    have "at_menu (facts_of a)" if "prog a Main = []"
      using inv that main_at_Nil [of "facts_of a"] by (simp add: app_inv_def)
    with inv show "exit_code a \<noteq> None \<longrightarrow>
        prog a Telemetry_Thread = [] \<and> prog a Receiver_Thread = [] \<and> \<not> running (cl a) \<and>
        csocket (cl a) = INVALID_SOCK \<and> opened (cl a) = closed (cl a) \<and> (\<forall>h. closes (cnet (cl a) h) \<le> 1)"
      by (auto simp: exit_code_def app_inv_def descriptors_ok_def at_menu_def facts_of_def socket_live_def)
  qed
  with Inr show ?thesis by (simp add: client_main_def)
qed

lemma example_main:
  "client_main 0 [] (new_logger ''aircraft'' ''logs'' 0 1)
     (\<lambda>h. \<lparr> rx = [], tx = [], outb = [], shut_all = False, shut_wr = False, closes = 0 \<rparr>) = Inr example_app"
proof -
  have "parseClientOptions 0 [] = Inr \<lparr> opt_host = ''localhost'', opt_port = 5000, opt_aircraftId = ''AC-001'',
      opt_aircraftIdExplicit = False \<rparr>" by code_simp
  then show ?thesis by (simp add: client_main_def example_app_def)
qed

text \<open>A server that accepts the connection and then says nothing.\<close>

definition silent_host :: client_host where
  "silent_host = (example_client_host [])\<lparr>ch_traffic :=
     (\<lambda>i. \<lparr> rx = [], tx = [Accepts 64], outb = [], shut_all = False, shut_wr = False, closes = 0 \<rparr>)\<rparr>"

lemma silent_connect:
  assumes "0 < M"
  shows "connect_stalls (\<lambda>j. True) silent_host M 0 c"
proof -
  define c1 where "c1 = open_socket silent_host (c\<lparr>nextSequence := 1\<rparr>)"
  define hs where "hs = makeHeader HANDSHAKE_REQUEST (cid c1) (nextSequence c1) 0 0"
  define c2 where "c2 = c1\<lparr>nextSequence := nextSequence c1 + 1\<rparr>"
  have h: "csocket c1 = 3" "resolveAndConnect silent_host c1" "socket_calls c1 = Suc (socket_calls c)"
    "cnet c1 3 = \<lparr> rx = [], tx = [Accepts 64], outb = [], shut_all = False, shut_wr = False, closes = 0 \<rparr>"
    by (simp_all add: c1_def open_socket_def Let_def silent_host_def example_client_host_def INVALID_SOCK_def
        resolveAndConnect_def fresh_socket_def)
  have v: "(3 :: handle) \<noteq> INVALID_SOCK" by (simp add: INVALID_SOCK_def)
  have l: "length (header_bytes hs) = 29" "payload_size hs = 0"
    by (simp_all add: hs_def length_header_bytes wf_type_def header_size_def)
  then have ne: "header_bytes hs \<noteq> []" by auto
  have t: "tx (cnet c2 3) = Accepts 64 # []" using h(4) by (simp add: c2_def)
  obtain n where n: "net_sendAll (cnet c2) 3 (header_bytes hs) = (True, n)" "n 3 = (cnet c2 3)\<lparr>tx := [], outb := header_bytes hs\<rparr>"
    using net_sendAll_whole [where n = "cnet c2" and h = 3, OF t _ ne] l(1) h(4) by (simp add: max_chunk_def c2_def)
  have "sendPacketLocked hs [] c2 = (True, c2\<lparr>cnet := n\<rparr>)"
    using n(1) l(2) h v by (simp add: sendPacketLocked_def client_sendAll_def socket_live_def c2_def)
  moreover have "starves (\<lambda>j. True) (c2\<lparr>cnet := n\<rparr>) header_size"
    using h v n(2) by (simp add: starves_def silent_def socket_live_def c2_def header_size_def)
  ultimately have "handshake_stalls (\<lambda>j. True) c1"
    by (simp add: handshake_stalls_def Let_def hs_def c2_def)
  then have "attempt_stalls (\<lambda>j. True) silent_host c"
    using h v by (simp add: attempt_stalls_def Let_def c1_def)
  with assms show ?thesis by (simp add: connect_stalls.simps [of _ _ _ 0])
qed

text \<open>
  From a session with a server that keeps to the protocol the process can end; while it connects to a
  silent one it cannot.
\<close>

theorem client_can_be_left_witness:
  "(\<exists>a. lives (\<lambda>j. False) (example_client_host []) example_app a \<and> running (cl a) \<and> exit_code a = None \<and>
      (\<exists>t. ready t a) \<and> (\<exists>b. calmly (\<lambda>j. False) (example_client_host []) a b \<and> exit_code b = Some 0)) \<and>
   (\<exists>a. lives (\<lambda>j. True) silent_host example_app a \<and> inputLines a = [''Q''] \<and>
      \<not> (\<exists>b. lives (\<lambda>j. True) silent_host a b \<and> exit_code b \<noteq> None))"
proof
  note left = client_can_be_left [where base = 0 and args = "[]" and lg = "new_logger ''aircraft'' ''logs'' 0 1"
      and n = "\<lambda>h. \<lparr> rx = [], tx = [], outb = [], shut_all = False, shut_wr = False, closes = 0 \<rparr>", unfolded example_main]
  obtain a where a: "client_reachable (example_client_host []) example_app a" "running (cl a)"
    "prog a = (\<lambda>t. [])(Main := [Menu Spawn, Menu Session_While])"
    using example_session_start by blast
  have "exit_code a = None" using a(3) by (simp add: exit_code_def)
  moreover have "lives (\<lambda>j. False) (example_client_host []) example_app a" using lives_all [OF _ a(1)] by simp
  ultimately show "\<exists>a. lives (\<lambda>j. False) (example_client_host []) example_app a \<and> running (cl a) \<and> exit_code a = None \<and>
      (\<exists>t. ready t a) \<and> (\<exists>b. calmly (\<lambda>j. False) (example_client_host []) a b \<and> exit_code b = Some 0)"
    using left [where Z = "\<lambda>j. False" and E = "example_client_host []"] a(2) by auto
  obtain a where a: "client_reachable silent_host example_app a" "prog a = (\<lambda>t. [])(Main := [Menu Menu_Connect])"
    "inputLines a = [''Q'']" "socket_calls (cl a) = 0"
    using example_menu [of silent_host "[''Q'']"] by blast
  have l: "lives (\<lambda>j. True) silent_host example_app a" using lives_before [OF a(1,4)] .
  have "waits (\<lambda>j. True) silent_host Main a" using a(2) silent_connect by (simp add: waits_def kMaxAutoIdAttempts_def)
  with l a left [where Z = "\<lambda>j. True" and E = silent_host] show
    "\<exists>a. lives (\<lambda>j. True) silent_host example_app a \<and> inputLines a = [''Q''] \<and>
      \<not> (\<exists>b. lives (\<lambda>j. True) silent_host a b \<and> exit_code b \<noteq> None)"
    by (intro exI [of _ a]) auto
qed

end
