(* ===== verification/Server_Frames.thy ===== *)
theory Server_Frames
  imports Server_Loop
begin

text \<open>
  Why it is enough to let the dashboard thread draw its frames between the phases of the worker:
  the worker's handlers depend on nothing a frame changes. The worker takes the dashboard's mutex
  for each access anew, so that a frame may in fact fall between any two of them; but a frame
  changes only the selection and the two requests, and what a handler does to the sessions, the
  sockets, the logs, the clocks and the aircraft shown is the same whatever these are.
\<close>

subsection \<open>Worlds that differ in the operator's fields\<close>

definition work :: "world \<Rightarrow> world" where
  "work w = w\<lparr>shared := (shared w)\<lparr>selectedAircraftId := [], weatherRequestAircraftId := [],
      disconnectRequestAircraftId := []\<rparr>\<rparr>"

definition like :: "world \<Rightarrow> world \<Rightarrow> bool" where
  "like w v \<longleftrightarrow> work w = work v"

lemma likeI:
  "logger w = logger v \<Longrightarrow> wnet w = wnet v \<Longrightarrow> steady_reads w = steady_reads v \<Longrightarrow> system_reads w = system_reads v \<Longrightarrow>
     aircraft (shared w) = aircraft (shared v) \<Longrightarrow> recentLogEntries (shared w) = recentLogEntries (shared v) \<Longrightarrow> like w v"
  by (simp add: like_def work_def)

lemma likeD:
  assumes "like w v"
  shows "logger w = logger v" "wnet w = wnet v" "steady_reads w = steady_reads v" "system_reads w = system_reads v"
    "aircraft (shared w) = aircraft (shared v)" "recentLogEntries (shared w) = recentLogEntries (shared v)"
  using assms by (auto simp: like_def work_def world.defs DashboardState.defs
      dest: arg_cong [of _ _ logger] arg_cong [of _ _ wnet] arg_cong [of _ _ steady_reads] arg_cong [of _ _ system_reads]
        arg_cong [of _ _ "\<lambda>w. aircraft (shared w)"] arg_cong [of _ _ "\<lambda>w. recentLogEntries (shared w)"])

text \<open>What a handler returns, up to the operator's fields.\<close>

definition same_result :: "bool \<times> ClientSession \<times> world \<Rightarrow> bool \<times> ClientSession \<times> world \<Rightarrow> bool" where
  "same_result p q \<longleftrightarrow> fst p = fst q \<and> fst (snd p) = fst (snd q) \<and> like (snd (snd p)) (snd (snd q))"

named_theorems alike

lemma like_readings [alike]:
  "like w v \<Longrightarrow> steady_now E w = steady_now E v" "like w v \<Longrightarrow> system_now E w = system_now E v"
  "like w v \<Longrightarrow> timeStampHmsUtc E w = timeStampHmsUtc E v"
  by (simp_all add: likeD steady_now_def system_now_def timeStampHmsUtc_def)

lemma like_small [alike, intro]:
  "like w v \<Longrightarrow> like (steady_tick w) (steady_tick v)" "like w v \<Longrightarrow> like (system_tick w) (system_tick v)"
  "like w v \<Longrightarrow> e = e' \<Longrightarrow> like (appendDashboardLog w e) (appendDashboardLog v e')"
  "like w v \<Longrightarrow> like (log_packet E d h w) (log_packet E d h v)"
  "like w v \<Longrightarrow> like (log_fault E c st n w) (log_fault E c st n v)"
  "like w v \<Longrightarrow> m = m' \<Longrightarrow> like (log_info E m w) (log_info E m' v)"
  by (rule likeI; simp add: likeD like_readings steady_tick_def system_tick_def appendDashboardLog_def
      appendDashboardLogEntry_def Let_def log_packet_def log_fault_def log_info_def)+

lemma like_dash_packet [intro]: "like w v \<Longrightarrow> like (dash_packet E d h w) (dash_packet E d h v)"
  unfolding dash_packet_def by (intro like_small) (simp_all add: like_readings)

lemma like_sync: "like w v \<Longrightarrow>
   like (w\<lparr>shared := syncDashboardAircraft (shared w) s m\<rparr>) (v\<lparr>shared := syncDashboardAircraft (shared v) s m\<rparr>)"
  by (rule likeI) (auto simp: likeD syncDashboardAircraft_def Let_def)

lemma like_update [intro]:
  "like w v \<Longrightarrow> like (updateDashboardAircraft E s a w) (updateDashboardAircraft E s a v)"
  using like_sync [of w v s] like_sync [OF like_small(1), of w v s] like_readings(1) [of w v E]
  by (simp add: updateDashboardAircraft_def dashboardAlertMessage_def)

lemma like_net: "like w v \<Longrightarrow> n = n' \<Longrightarrow> like (w\<lparr>wnet := n\<rparr>) (v\<lparr>wnet := n'\<rparr>)"
  by (rule likeI) (simp_all add: likeD)

lemma like_send:
  assumes "like w v"
  shows "fst (send_bytes h bs w) = fst (send_bytes h bs v)" "like (snd (send_bytes h bs w)) (snd (send_bytes h bs v))"
  using assms by (auto simp: send_bytes_def likeD(2) [OF assms] case_prod_beta intro: like_net)

lemma like_recv:
  assumes "like w v"
  shows "fst (recv_bytes h k w) = fst (recv_bytes h k v)" "like (snd (recv_bytes h k w)) (snd (recv_bytes h k v))"
  using assms by (auto simp: recv_bytes_def likeD(2) [OF assms] case_prod_beta intro: like_net)

lemma like_sendPacket:
  assumes "like w v"
  shows "fst (sendPacket h hdr p w) = fst (sendPacket h hdr p v)"
    "like (snd (sendPacket h hdr p w)) (snd (sendPacket h hdr p v))"
  using like_send [OF assms] like_send [OF like_send(2) [OF assms]]
  by (auto simp: sendPacket_def case_prod_beta split: bool.splits)

lemma like_payload:
  assumes "like w v"
  shows "fst (receivePacketPayload h hdr w) = fst (receivePacketPayload h hdr v)"
    "like (snd (receivePacketPayload h hdr w)) (snd (receivePacketPayload h hdr v))"
  using like_recv [OF assms] assms by (auto simp: receivePacketPayload_def)

lemma like_fault:
  assumes "like w v"
  shows "fst (handleFault E c s w) = fst (handleFault E c s v)" "like (snd (handleFault E c s w)) (snd (handleFault E c s v))"
proof -
  have l: "like (log_fault E c st n w) (log_fault E c st n v)" for st n using assms by (intro like_small(5))
  have "timeStampHmsUtc E (log_fault E c st n w) = timeStampHmsUtc E (log_fault E c st n v)" for st n
    using like_readings(3) [OF l] .
  then show "fst (handleFault E c s w) = fst (handleFault E c s v)"
    "like (snd (handleFault E c s w)) (snd (handleFault E c s v))"
    unfolding handleFault_def Let_def snd_conv fst_conv by (simp, intro like_update like_small(2,3) l) simp
qed

lemma same_fail: "like w v \<Longrightarrow> same_result (fail_with E c s w) (fail_with E c s v)"
  using like_fault [of w v E c s] by (simp add: same_result_def fail_with_def)

subsection \<open>The handlers\<close>

lemma like_load:
  assumes "like w v"
  shows "fst (load_map E s n w) = fst (load_map E s n v)" "like (snd (load_map E s n w)) (snd (load_map E s n v))"
  using assms like_readings(2) [OF assms, of E] like_small(2) [OF assms]
  by (auto simp: load_map_def Let_def split: option.splits)

lemma like_chunks:
  "like w v \<Longrightarrow> fst (send_chunks h data len off w) = fst (send_chunks h data len off v) \<and>
     like (snd (send_chunks h data len off w)) (snd (send_chunks h data len off v))"
proof (induction h data len off w arbitrary: v rule: send_chunks.induct)
  case (1 h data len off w)
  show ?case
  proof (cases "off < len")
    case True
    let ?c = "take (min kChunkSize (len - off)) (drop off data)"
    obtain b w1 where w1: "send_bytes h ?c w = (b, w1)" by (cases "send_bytes h ?c w")
    obtain v1 where v1: "send_bytes h ?c v = (b, v1)" "like w1 v1"
      using like_send [OF "1.prems", of h ?c] w1 by (cases "send_bytes h ?c v") auto
    show ?thesis
    proof (cases b)
      case b: True
      from "1.IH" [OF True w1 [unfolded b, symmetric] _ v1(2)] b True w1 v1 show ?thesis
        by (simp add: send_chunks.simps [of h data len off])
    qed (use True w1 v1 in \<open>simp add: send_chunks.simps [of h data len off]\<close>)
  qed (use "1.prems" in \<open>simp add: send_chunks.simps [of h data len off]\<close>)
qed

lemma like_transmit:
  assumes "like w v"
  shows "fst (transmit_map h hdr data w) = fst (transmit_map h hdr data v) \<and>
    like (snd (transmit_map h hdr data w)) (snd (transmit_map h hdr data v))"
  using like_send [OF assms] like_chunks [OF like_send(2) [OF assms]]
  by (auto simp: transmit_map_def case_prod_beta split: bool.splits)

lemma like_done:
  assumes "like w v"
  shows "fst (transfer_done E s path hdr w) = fst (transfer_done E s path hdr v) \<and>
    like (snd (transfer_done E s path hdr w)) (snd (transfer_done E s path hdr v))"
proof -
  define f where "f w = dash_packet E ''TX'' hdr (log_info E (''Generated weather map: '' @ path) (log_packet E ''TX'' hdr w))" for w
  have l: "like (f w) (f v)" unfolding f_def using assms by blast
  define g where "g w = appendDashboardLog (system_tick (f w))
     (''['' @ timeStampHmsUtc E (f w) @ ''] MAP '' @ session_id s @ '' '' @ filename_of path)" for w
  have m: "like (g w) (g v)" unfolding g_def using l like_readings(3) [OF l] by (intro like_small) auto
  have t: "transfer_done E s path hdr w = (let session1 = touch s (steady_now E (g w));
       session2 = snd (session_transition session1 CONNECTED)
     in (session2, updateDashboardAircraft E session2 [] (steady_tick (g w))))" for w
    by (simp add: transfer_done_def Let_def f_def g_def)
  show ?thesis unfolding t Let_def using m like_readings(1) [OF m] by auto
qed

lemma same_sendWeatherMap:
  assumes "like w v"
  shows "same_result (sendWeatherMap E s w) (sendWeatherMap E s v)"
proof -
  obtain t s1 where st: "transfer_start s = (t, s1)" by (cases "transfer_start s")
  show ?thesis
  proof (cases t)
    case False
    with st same_fail [OF assms] show ?thesis by (simp add: sendWeatherMap_def)
  next
    case True
    let ?n = "serverSequence s1" and ?u = "\<lambda>w. updateDashboardAircraft E s1 [] w"
    have u: "like (?u w) (?u v)" using assms by blast
    obtain r w2 where w2: "load_map E s1 ?n (?u w) = (r, w2)" by (cases "load_map E s1 ?n (?u w)")
    obtain v2 where v2: "load_map E s1 ?n (?u v) = (r, v2)" "like w2 v2"
      using like_load [OF u, of E s1 ?n] w2 by (cases "load_map E s1 ?n (?u v)") auto
    show ?thesis
    proof (cases r)
      case (Inl c)
      with st True w2 v2 same_fail [OF v2(2)] show ?thesis by (simp add: sendWeatherMap_def Let_def)
    next
      case (Inr pd)
      obtain path data where pd: "pd = (path, data)" by (cases pd)
      let ?s2 = "snd (consumeServerSequence s1)" and ?hdr = "map_header s1 ?n data"
      obtain q w3 where w3: "transmit_map (socketHandle ?s2) ?hdr data w2 = (q, w3)"
        by (cases "transmit_map (socketHandle ?s2) ?hdr data w2")
      obtain v3 where v3: "transmit_map (socketHandle ?s2) ?hdr data v2 = (q, v3)" "like w3 v3"
        using like_transmit [OF v2(2), of "socketHandle ?s2" ?hdr data] w3
        by (cases "transmit_map (socketHandle ?s2) ?hdr data v2") auto
      from st True w2 v2 Inr pd w3 v3 same_fail [OF v3(2)] like_done [OF v3(2)] show ?thesis
        by (cases q) (simp_all add: sendWeatherMap_def Let_def same_result_def)
    qed
  qed
qed

lemma same_handshake:
  assumes "like w v"
  shows "same_result (processHandshake E m hdr s w) (processHandshake E m hdr s v)"
proof -
  let ?i = "extractAircraftId (aircraft_id hdr)"
  let ?valid = "isValidHandshakeRequest hdr ?i (aircraftIdInUse (activeSessionSummaries m) (socketHandle s) ?i)"
  show ?thesis
  proof (cases ?valid)
    case False
    then show ?thesis
      by (simp add: processHandshake_def Let_def same_result_def)
         (intro like_dash_packet like_small(4) like_sendPacket(2) assms)
  next
    case True
    let ?ack = "makeHeader HANDSHAKE_ACK ?i (sequence_number hdr) 0 0"
    let ?s2 = "markPacketReceived (setAircraftId s ?i) (sequence_number hdr) (steady_now E w)"
    have now: "steady_now E v = steady_now E w" using like_readings(1) [OF assms] by simp
    have t: "like (steady_tick w) (steady_tick v)" using assms by blast
    obtain b w2 where w2: "sendPacket (socketHandle ?s2) ?ack [] (steady_tick w) = (b, w2)"
      by (cases "sendPacket (socketHandle ?s2) ?ack [] (steady_tick w)")
    obtain v2 where v2: "sendPacket (socketHandle ?s2) ?ack [] (steady_tick v) = (b, v2)" "like w2 v2"
      using like_sendPacket [OF t, of "socketHandle ?s2" ?ack "[]"] w2
      by (cases "sendPacket (socketHandle ?s2) ?ack [] (steady_tick v)") auto
    define f where "f w = dash_packet E ''TX'' ?ack (log_packet E ''TX'' ?ack w)" for w
    have l: "like (f w2) (f v2)" unfolding f_def using v2(2) by blast
    show ?thesis
    proof (cases b)
      case False
      with True w2 v2 now same_fail [OF v2(2)] show ?thesis by (simp add: processHandshake_def Let_def)
    next
      case b: True
      with True w2 v2 now l like_readings(1) [OF l] show ?thesis
        by (auto simp: processHandshake_def Let_def same_result_def f_def [symmetric])
    qed
  qed
qed

lemma same_packet:
  assumes "like w v"
  shows "same_result (process_packet E hdr p s w) (process_packet E hdr p s v)"
proof -
  have t: "same_result (process_telemetry E hdr p s w) (process_telemetry E hdr p s v)"
    using same_fail [OF assms] like_small(1) [OF assms] like_readings(1) [OF assms]
    by (auto simp: process_telemetry_def Let_def same_result_def)
  have d: "same_result (process_disconnect E s w) (process_disconnect E s v)"
    using assms by (auto simp: process_disconnect_def Let_def same_result_def)
  show ?thesis
    using t d same_fail [OF assms] same_sendWeatherMap [OF assms] by (auto simp: process_packet_def split: PacketType.split)
qed

lemma same_read:
  assumes "like w v"
  shows "same_result (processReadableSession E m s w) (processReadableSession E m s v)"
proof -
  obtain r w1 where w1: "recv_bytes (socketHandle s) header_size w = (r, w1)"
    by (cases "recv_bytes (socketHandle s) header_size w")
  obtain v1 where v1: "recv_bytes (socketHandle s) header_size v = (r, v1)" "like w1 v1"
    using like_recv [OF assms, of "socketHandle s" header_size] w1
    by (cases "recv_bytes (socketHandle s) header_size v") auto
  show ?thesis
  proof (cases r)
    case None
    with w1 v1 same_fail [OF v1(2)] show ?thesis by (simp add: processReadableSession_def)
  next
    case (Some hb)
    let ?hdr = "header_of_bytes hb"
    define f where "f w = dash_packet E ''RX'' ?hdr (log_packet E ''RX'' ?hdr w)" for w
    have l: "like (f w1) (f v1)" unfolding f_def using v1(2) by blast
    define s1 where "s1 = markPacketReceived s (sequence_number ?hdr) (steady_now E (f w1))"
    have s1: "markPacketReceived s (sequence_number ?hdr) (steady_now E (f v1)) = s1"
      using like_readings(1) [OF l, of E] by (simp add: s1_def)
    have t: "like (steady_tick (f w1)) (steady_tick (f v1))" using l by blast
    obtain q w5 where w5: "receivePacketPayload (socketHandle s1) ?hdr (steady_tick (f w1)) = (q, w5)"
      by (cases "receivePacketPayload (socketHandle s1) ?hdr (steady_tick (f w1))")
    obtain v5 where v5: "receivePacketPayload (socketHandle s1) ?hdr (steady_tick (f v1)) = (q, v5)" "like w5 v5"
      using like_payload [OF t, of "socketHandle s1" ?hdr] w5
      by (cases "receivePacketPayload (socketHandle s1) ?hdr (steady_tick (f v1))") auto
    show ?thesis
      using w1 v1(1) Some same_handshake [OF l] w5 v5 same_fail [OF v5(2)] same_packet [OF v5(2)]
      by (cases q) (simp_all add: processReadableSession_def Let_def f_def [symmetric] s1 s1_def [symmetric])
  qed
qed

lemma same_disconnect:
  assumes "like w v"
  shows "same_result (False, operator_disconnect E s w) (False, operator_disconnect E s v)"
proof -
  define s1 where "s1 = (if session_state s = TELEMETRY then snd (session_transition s CONNECTED) else s)"
  obtain n s2 where s2: "consumeServerSequence s1 = (n, s2)" by (cases "consumeServerSequence s1")
  define hdr where "hdr = makeHeader DISCONNECT (session_id s1) n 0 0"
  define f where "f w = dash_packet E ''TX'' hdr (log_packet E ''TX'' hdr w)" for w
  have d: "operator_disconnect E s w = (case sendPacket (socketHandle s2) hdr [] w of
      (True, w1) \<Rightarrow> (let session4 = snd (session_transition (touch s2 (steady_now E (f w1))) DISCONNECTED)
         in (session4, updateDashboardAircraft E session4 [] (steady_tick (f w1))))
    | (False, w1) \<Rightarrow> handleFault E ''DisconnectSendFailure'' s2 w1)" for w
    by (simp add: operator_disconnect_def s1_def [symmetric] s2 hdr_def [symmetric])
       (simp add: Let_def f_def hdr_def split: prod.split bool.split)
  obtain b w1 where w1: "sendPacket (socketHandle s2) hdr [] w = (b, w1)"
    by (cases "sendPacket (socketHandle s2) hdr [] w")
  obtain v1 where v1: "sendPacket (socketHandle s2) hdr [] v = (b, v1)" "like w1 v1"
    using like_sendPacket [OF assms, of "socketHandle s2" hdr "[]"] w1
    by (cases "sendPacket (socketHandle s2) hdr [] v") auto
  have l: "like (f w1) (f v1)" unfolding f_def using v1(2) by blast
  show ?thesis
    using w1 v1 l like_readings(1) [OF l, of E] like_fault [OF v1(2)]
    by (cases b) (auto simp: d same_result_def Let_def)
qed

text \<open>
  A handler that is blind to the operator's fields. What is dispatched to it has the same outcome
  in worlds that differ in these only.
\<close>

locale blind_handler = session_handler +
  assumes blind: "like w v \<Longrightarrow> same_result (op m s w) (op m s v)"

interpretation blind_weather: blind_handler "weather_op E"
  by unfold_locales (simp add: weather_op_def same_sendWeatherMap)

interpretation blind_disconnect: blind_handler "disconnect_op E"
  by unfold_locales (simp add: disconnect_op_def same_disconnect)

interpretation blind_timeout: blind_handler "timeout_op E"
  by unfold_locales (use same_fail in \<open>simp add: timeout_op_def fail_with_def [symmetric]\<close>)

interpretation blind_read: blind_handler "read_op E"
  by unfold_locales (simp add: read_op_def same_read)

lemma like_close:
  assumes "like w v"
  shows "fst (removeSession m h w) = fst (removeSession m h v)" "like (snd (removeSession m h w)) (snd (removeSession m h v))"
  using assms likeD(2) [OF assms]
  by (auto simp: removeSession_def case_prod_beta Let_def like_net split: option.splits)

context blind_handler
begin

lemma dispatch_blind:
  assumes "like w v" "dispatch op h m w = (a, m', w')"
  shows "\<exists>v'. dispatch op h m v = (a, m', v') \<and> like w' v'"
proof (cases "map_find m h")
  case None
  with assms show ?thesis by (auto simp: dispatch_def)
next
  case (Some s)
  obtain b s1 w1 where w1: "op m s w = (b, s1, w1)" by (cases "op m s w") auto
  obtain v1 where v1: "op m s v = (b, s1, v1)" "like w1 v1"
    using blind [OF assms(1), of m s] w1 by (cases "op m s v") (auto simp: same_result_def)
  note c = like_close [OF v1(2), of "map_assign h s1 m" h]
  show ?thesis
    using assms(2) Some w1 v1 c
    by (cases b; cases "removeSession (map_assign h s1 m) h v1") (auto simp: dispatch_def)
qed

end

subsection \<open>The phases\<close>

lemma expire_blind:
  "like w v \<Longrightarrow> expire_all E l m w = (m', w') \<Longrightarrow> \<exists>v'. expire_all E l m v = (m', v') \<and> like w' v'"
proof (induction E l m w arbitrary: v rule: expire_all.induct)
  case (2 E h hs m w)
  obtain a m1 w1 where w1: "dispatch (timeout_op E) h m w = (a, m1, w1)"
    by (cases "dispatch (timeout_op E) h m w") auto
  obtain v1 where v1: "dispatch (timeout_op E) h m v = (a, m1, v1)" "like w1 v1"
    using blind_timeout.dispatch_blind [OF "2.prems"(1) w1] by blast
  from "2.prems"(2) w1 have "expire_all E hs m1 w1 = (m', w')" by simp
  from "2.IH" [OF w1 [symmetric] refl v1(2) this] v1(1) show ?case by auto
qed auto

lemma refresh_like: "like w v \<Longrightarrow> like (refresh_dashboard E m w) (refresh_dashboard E m v)"
  by (induction E m w arbitrary: v rule: refresh_dashboard.induct) auto

lemma timeout_blind:
  assumes "like w v" "timeout_phase E m w = (m', w')"
  shows "\<exists>v'. timeout_phase E m v = (m', v') \<and> like w' v'"
proof -
  have "like (refresh_dashboard E m (steady_tick w)) (refresh_dashboard E m (steady_tick v))"
    using assms(1) by (intro refresh_like like_small)
  from expire_blind [OF this] assms(2) likeD(3) [OF assms(1)] show ?thesis
    by (simp add: timeout_phase_def steady_now_def)
qed

lemma read_ready_blind:
  "like w v \<Longrightarrow> read_ready E c l m w = (m', w') \<Longrightarrow> \<exists>v'. read_ready E c l m v = (m', v') \<and> like w' v'"
proof (induction E c l m w arbitrary: v rule: read_ready.induct)
  case (2 E c h hs m w)
  obtain a m1 w1 where w1: "dispatch (read_op E) h m w = (a, m1, w1)"
    by (cases "dispatch (read_op E) h m w") auto
  obtain v1 where v1: "dispatch (read_op E) h m v = (a, m1, v1)" "like w1 v1"
    using blind_read.dispatch_blind [OF "2.prems"(1) w1] by blast
  show ?case
  proof (cases "\<not> a \<and> \<not> c h")
    case True
    with "2.prems"(2) w1 v1 show ?thesis by auto
  next
    case False
    with "2.prems"(2) w1 have "read_ready E c hs m1 w1 = (m', w')" by auto
    from "2.IH" [OF w1 [symmetric] refl False v1(2) this] v1(1) False show ?thesis by auto
  qed
qed auto

lemma accept_blind:
  assumes "like w v" "accept_client E inp m w = (m', w')"
  shows "\<exists>v'. accept_client E inp m v = (m', v') \<and> like w' v'"
proof (cases "io_accept inp = INVALID_SOCK")
  case True
  with assms show ?thesis by (auto simp: accept_client_def)
next
  case False
  let ?w0 = "\<lambda>w. w\<lparr>wnet := (wnet w)(io_accept inp := accepted_socket (io_sock inp))\<rparr>"
  have l: "like (?w0 w) (?w0 v)" using assms(1) likeD(2) [OF assms(1)] by (intro like_net) simp_all
  then have "like (steady_tick (?w0 w)) (steady_tick (?w0 v))" by blast
  with False assms(2) l like_readings(1) [OF l, of E] like_readings(1) [OF this, of E] show ?thesis
    by (auto simp: accept_client_def Let_def)
qed

lemma io_blind:
  assumes "like w v" "io_phase E inp m w = (m', w')"
  shows "\<exists>v'. io_phase E inp m v = (m', v') \<and> like w' v'"
proof (cases "0 < io_result inp")
  case False
  with assms show ?thesis by (auto simp: io_phase_def split: if_splits)
next
  case True
  obtain m1 w1 where w1: "(if io_listen inp then accept_client E inp m w else (m, w)) = (m1, w1)"
    by (cases "if io_listen inp then accept_client E inp m w else (m, w)")
  obtain v1 where v1: "(if io_listen inp then accept_client E inp m v else (m, v)) = (m1, v1)" "like w1 v1"
    using accept_blind [OF assms(1), of E inp m] w1 assms(1) by (auto split: if_splits)
  from read_ready_blind [OF v1(2)] assms(2) w1 v1(1) True show ?thesis by (simp add: io_phase_def)
qed

text \<open>What a frame can do: the selection and the two requests set to anything.\<close>

definition operate :: "string \<Rightarrow> string \<Rightarrow> string \<Rightarrow> world \<Rightarrow> world" where
  "operate sel weather disc w =
     w\<lparr>shared := (shared w)\<lparr>selectedAircraftId := sel, weatherRequestAircraftId := weather,
         disconnectRequestAircraftId := disc\<rparr>\<rparr>"

lemma operate_like: "like w (operate sel weather disc w)"
  by (rule likeI) (simp_all add: operate_def)

lemma frame_operates: "\<exists>sel weather disc. w\<lparr>shared := renderDashboard ui (shared w)\<rparr> = operate sel weather disc w"
proof -
  let ?d = "renderDashboard ui (shared w)"
  have "?d = (shared w)\<lparr>selectedAircraftId := selectedAircraftId ?d,
      weatherRequestAircraftId := weatherRequestAircraftId ?d, disconnectRequestAircraftId := disconnectRequestAircraftId ?d\<rparr>"
    by (rule DashboardState.equality) simp_all
  then have "w\<lparr>shared := ?d\<rparr> = operate (selectedAircraftId ?d) (weatherRequestAircraftId ?d) (disconnectRequestAircraftId ?d) w"
    by (simp add: operate_def)
  then show ?thesis by blast
qed

lemma consume_like:
  assumes "like w v"
  shows "like (snd (consumeWeatherRequest w)) (snd (consumeWeatherRequest v))"
    "like (snd (consumeDisconnectRequest w)) (snd (consumeDisconnectRequest v))"
  by (rule likeI; simp add: likeD [OF assms] consumeWeatherRequest_def consumeDisconnectRequest_def)+

lemma ignored_like:
  assumes "like w v"
  shows "like (logIgnoredOperatorRequest E s a w) (logIgnoredOperatorRequest E s a v)"
proof -
  have l: "like (log_info E msg w) (log_info E msg v)" for msg using assms by (intro like_small) simp_all
  have "timeStampHmsUtc E (log_info E msg w) = timeStampHmsUtc E (log_info E msg v)" for msg
    using like_readings(3) [OF l] .
  then show ?thesis
    unfolding logIgnoredOperatorRequest_def Let_def by (intro like_small(2,3) l) simp
qed

lemma weather_phase_blind:
  assumes "like w v" "weatherRequestAircraftId (shared w) = weatherRequestAircraftId (shared v)"
    and "weather_phase E m w = (go, m', w')"
  shows "\<exists>v'. weather_phase E m v = (go, m', v') \<and> like w' v'"
proof -
  obtain i w1 where w1: "consumeWeatherRequest w = (i, w1)" by (cases "consumeWeatherRequest w")
  obtain v1 where v1: "consumeWeatherRequest v = (i, v1)" using assms(2) w1 by (simp add: consumeWeatherRequest_def)
  have l: "like w1 v1" using consume_like(1) [OF assms(1)] w1 v1 by simp
  show ?thesis
    using assms(3) w1 v1 l ignored_like [OF l] blind_weather.dispatch_blind [OF l]
    by (auto simp: weather_phase_def split: if_splits option.splits)
qed

lemma disconnect_phase_blind:
  assumes "like w v" "disconnectRequestAircraftId (shared w) = disconnectRequestAircraftId (shared v)"
    and "disconnect_phase E m w = (go, m', w')"
  shows "\<exists>v'. disconnect_phase E m v = (go, m', v') \<and> like w' v'"
proof -
  obtain i w1 where w1: "consumeDisconnectRequest w = (i, w1)" by (cases "consumeDisconnectRequest w")
  obtain v1 where v1: "consumeDisconnectRequest v = (i, v1)" using assms(2) w1 by (simp add: consumeDisconnectRequest_def)
  have l: "like w1 v1" using consume_like(2) [OF assms(1)] w1 v1 by simp
  show ?thesis
    using assms(3) w1 v1 l ignored_like [OF l] blind_disconnect.dispatch_blind [OF l]
    by (auto simp: disconnect_phase_def split: if_splits option.splits)
qed

lemma blind_pair:
  assumes "\<And>m' w'. f w = (m', w') \<Longrightarrow> \<exists>v'. f v = (m', v') \<and> like w' v'"
  shows "map_prod id work (f v) = map_prod id work (f w)"
  using assms by (cases "f w") (force simp: like_def)

lemma blind_triple:
  assumes "\<And>a m' w'. f w = (a, m', w') \<Longrightarrow> \<exists>v'. f v = (a, m', v') \<and> like w' v'"
  shows "apsnd (map_prod id work) (f v) = apsnd (map_prod id work) (f w)"
proof -
  obtain a m' w' where w': "f w = (a, m', w')" by (cases "f w") auto
  with assms [OF this] show ?thesis by (auto simp: like_def)
qed

text \<open>
  C25. It does not matter where in the worker's phases the dashboard's frames fall: a frame does no
  more than set the selection and the two requests, and whatever these are set to, the reading
  of ready connections, the timeouts and the carrying out of an operator's command (from the
  request taken on) do the same to the sessions, the sockets, the logs, the clock readings and the
  aircraft shown; so do the two phases that take a request, given that request.
\<close>

theorem frames_leave_the_work_alone:
  "(\<exists>sel weather disc. w\<lparr>shared := renderDashboard ui (shared w)\<rparr> = operate sel weather disc w) \<and>
   map_prod id work (io_phase E inp m (operate sel weather disc w)) = map_prod id work (io_phase E inp m w) \<and>
   map_prod id work (timeout_phase E m (operate sel weather disc w)) = map_prod id work (timeout_phase E m w) \<and>
   apsnd (map_prod id work) (dispatch (weather_op E) h m (operate sel weather disc w)) =
     apsnd (map_prod id work) (dispatch (weather_op E) h m w) \<and>
   apsnd (map_prod id work) (dispatch (disconnect_op E) h m (operate sel weather disc w)) =
     apsnd (map_prod id work) (dispatch (disconnect_op E) h m w) \<and>
   apsnd (map_prod id work) (weather_phase E m (operate sel (weatherRequestAircraftId (shared w)) disc w)) =
     apsnd (map_prod id work) (weather_phase E m w) \<and>
   apsnd (map_prod id work) (disconnect_phase E m (operate sel weather (disconnectRequestAircraftId (shared w)) w)) =
     apsnd (map_prod id work) (disconnect_phase E m w)"
  by (intro conjI frame_operates blind_pair blind_triple io_blind timeout_blind blind_weather.dispatch_blind
      blind_disconnect.dispatch_blind weather_phase_blind disconnect_phase_blind)
     (simp_all add: operate_like, simp_all add: operate_def)

end
