(* ===== verification/Server_Stop.thy ===== *)
theory Server_Stop
  imports Server_Run
begin

text \<open>
  How the server thread ends: \<open>serverThreadMain\<close> together with the flag \<open>running\<close> it shares with the
  main thread and the signal handler, which only ever clear it. Each test of the flag reads it;
  the steps of \<open>Server_Loop\<close>, where the tests may have either outcome, allow more.
\<close>

subsection \<open>The flag\<close>

text \<open>
  A phase of the worker with the flag at \<open>r\<close>. Where it is tested inside the select phase it may have
  been cleared since the phase began; that it was cleared during another phase shows at the next test.
\<close>

inductive worker_phase :: "host \<Rightarrow> bool \<Rightarrow> server \<Rightarrow> server \<Rightarrow> bool" for E r where
  leave: "phase sv = At_Weather \<Longrightarrow> \<not> r \<Longrightarrow> worker_phase E r sv (sv\<lparr>phase := At_Exit\<rparr>)"
| weather: "phase sv = At_Weather \<Longrightarrow> r \<Longrightarrow> weather_phase E (sessions sv) (sworld sv) = (go, m, w) \<Longrightarrow>
    worker_phase E r sv (sv\<lparr>phase := (if go then At_Disconnect else At_Weather), sessions := m, sworld := w\<rparr>)"
| disconnect: "phase sv = At_Disconnect \<Longrightarrow> disconnect_phase E (sessions sv) (sworld sv) = (go, m, w) \<Longrightarrow>
    worker_phase E r sv (sv\<lparr>phase := (if go then At_Timeouts else At_Weather), sessions := m, sworld := w\<rparr>)"
| timeouts: "phase sv = At_Timeouts \<Longrightarrow> timeout_phase E (sessions sv) (sworld sv) = (m, w) \<Longrightarrow>
    worker_phase E r sv (sv\<lparr>phase := (if r then At_Select else At_Exit), sessions := m, sworld := w\<rparr>)"
| io: "phase sv = At_Select \<Longrightarrow> kernel_fresh (sessions sv) inp \<Longrightarrow> (io_running inp \<longrightarrow> r) \<Longrightarrow>
    (\<forall>h. io_continue inp h \<longrightarrow> r) \<Longrightarrow> io_phase E inp (sessions sv) (sworld sv) = (m, w) \<Longrightarrow>
    worker_phase E r sv (sv\<lparr>phase := At_Weather, sessions := m, sworld := w, accepted := accepts inp @ accepted sv\<rparr>)"
| exit: "phase sv = At_Exit \<Longrightarrow> close_all (sessions sv) (sworld sv) = (m, w) \<Longrightarrow>
    worker_phase E r sv (sv\<lparr>phase := Finished, sessions := m, sworld := w\<rparr>)"

definition draw_frame :: "ui_input \<Rightarrow> server \<Rightarrow> server" where
  "draw_frame ui sv = sv\<lparr>sworld := (sworld sv)\<lparr>shared := renderDashboard ui (shared (sworld sv))\<rparr>\<rparr>"

text \<open>What the server can come to, with the flag: the worker goes on, a frame is drawn, or the flag is cleared.\<close>

inductive serving :: "host \<Rightarrow> server \<Rightarrow> bool \<Rightarrow> server \<Rightarrow> bool" for E sv0 where
  begins: "serving E sv0 True sv0"
| works: "serving E sv0 r sv \<Longrightarrow> worker_phase E r sv sv' \<Longrightarrow> serving E sv0 r sv'"
| draws: "serving E sv0 r sv \<Longrightarrow> serving E sv0 r (draw_frame ui sv)"
| clears: "serving E sv0 r sv \<Longrightarrow> serving E sv0 False sv"

text \<open>What can follow once it is cleared, with the number of the worker's phases.\<close>

inductive stopping :: "host \<Rightarrow> server \<Rightarrow> nat \<Rightarrow> server \<Rightarrow> bool" for E sv0 where
  stop_begins: "stopping E sv0 0 sv0"
| stop_works: "stopping E sv0 k sv \<Longrightarrow> worker_phase E False sv sv' \<Longrightarrow> stopping E sv0 (Suc k) sv'"
| stop_draws: "stopping E sv0 k sv \<Longrightarrow> stopping E sv0 k (draw_frame ui sv)"

subsection \<open>Its end\<close>

lemma worker_server_step: "worker_phase E r sv sv' \<Longrightarrow> server_step E sv sv'"
  by (induction rule: worker_phase.induct) (rule server_step.intros; assumption)+

lemma serving_reachable: "serving E sv0 r sv \<Longrightarrow> reachable E sv0 sv"
proof (induction rule: serving.induct)
  case (draws r sv ui)
  then show ?case unfolding draw_frame_def by (intro reachable.step [OF _ server_step.operator])
qed (auto intro: reachable.intros worker_server_step)

lemma draw_frame_same [simp]: "phase (draw_frame ui sv) = phase sv"
  by (simp add: draw_frame_def)

text \<open>The phases left.\<close>

fun remaining :: "pc \<Rightarrow> nat" where
  "remaining At_Select = 3"
| "remaining At_Disconnect = 3"
| "remaining At_Timeouts = 2"
| "remaining At_Weather = 2"
| "remaining At_Exit = 1"
| "remaining Finished = 0"

lemma phase_remaining: "worker_phase E False sv sv' \<Longrightarrow> remaining (phase sv') < remaining (phase sv)"
  by (induction rule: worker_phase.induct) simp_all

lemma stopping_remaining: "stopping E sv0 k sv \<Longrightarrow> k + remaining (phase sv) \<le> remaining (phase sv0)"
  by (induction rule: stopping.induct) (auto dest: phase_remaining)

lemma remaining_bound: "remaining p \<le> 3"
  by (cases p) simp_all

text \<open>
  A phase that has no traffic neither receives nor sends, so no client can hold it up: leaving the
  loop, the timeouts and the final closing are of this kind.
\<close>

definition no_traffic :: "server \<Rightarrow> server \<Rightarrow> bool" where
  "no_traffic sv sv' \<longleftrightarrow>
     (\<forall>h. rx (wnet (sworld sv') h) = rx (wnet (sworld sv) h) \<and> tx (wnet (sworld sv') h) = tx (wnet (sworld sv) h) \<and>
          outb (wnet (sworld sv') h) = outb (wnet (sworld sv) h))"

definition streams :: "world \<Rightarrow> handle \<Rightarrow> recv_event list \<times> send_event list \<times> byte list" where
  "streams w h = (rx (wnet w h), tx (wnet w h), outb (wnet w h))"

lemma no_traffic_streams: "no_traffic sv sv' \<longleftrightarrow> streams (sworld sv') = streams (sworld sv)"
  by (auto simp: no_traffic_def streams_def fun_eq_iff)

lemma session_close_streams: "streams (w\<lparr>wnet := snd (session_close (wnet w) s)\<rparr>) = streams w"
  by (simp add: streams_def fun_eq_iff)

lemma timeout_dispatch_streams: "dispatch (timeout_op E) h m w = (a, m', w') \<Longrightarrow> streams w' = streams w"
proof -
  assume d: "dispatch (timeout_op E) h m w = (a, m', w')"
  show ?thesis
  proof (cases "map_find m h")
    case None
    with d show ?thesis by (simp add: dispatch_def)
  next
    case (Some s)
    obtain s' w1 where f: "handleFault E ''SocketTimeout'' s w = (s', w1)" by (cases "handleFault E ''SocketTimeout'' s w")
    then have "streams w1 = streams w" using handleFault_eqD(4) [OF f] by (simp add: streams_def fun_eq_iff)
    moreover have "w' = snd (removeSession (map_assign h s' m) h w1)"
      using d Some f by (auto simp: dispatch_def timeout_op_def)
    ultimately show ?thesis
      using session_close_streams [of w1] by (auto simp: removeSession_def case_prod_beta Let_def split: option.split)
  qed
qed

lemma expire_streams: "expire_all E hs m w = (m', w') \<Longrightarrow> streams w' = streams w"
proof (induction hs arbitrary: m w)
  case (Cons h hs)
  obtain a m1 w1 where d: "dispatch (timeout_op E) h m w = (a, m1, w1)" by (cases "dispatch (timeout_op E) h m w") auto
  with Cons timeout_dispatch_streams [OF d] show ?case by simp
qed simp

lemma refresh_streams: "streams (refresh_dashboard E m w) = streams w"
  by (induction E m w rule: refresh_dashboard.induct) (simp_all add: streams_def)

lemma close_all_streams: "close_all m w = (m', w') \<Longrightarrow> streams w' = streams w"
proof (induction m w arbitrary: m' w' rule: close_all.induct)
  case (2 k s m w)
  obtain s1 n where c: "session_close (wnet w) s = (s1, n)" by (cases "session_close (wnet w) s")
  obtain m1 w1 where r: "close_all m (w\<lparr>wnet := n\<rparr>) = (m1, w1)" by (cases "close_all m (w\<lparr>wnet := n\<rparr>)")
  from "2.IH" [OF c [symmetric] r] "2.prems" c r session_close_streams [of w s] show ?case by auto
qed simp

lemma streams_tick [simp]: "streams (steady_tick w) = streams w"
  by (simp add: streams_def fun_eq_iff)

lemma quiet_phase:
  assumes "worker_phase E False sv sv'" "phase sv \<notin> {At_Disconnect, At_Select}"
  shows "no_traffic sv sv'"
  using assms
proof (induction rule: worker_phase.induct)
  case (timeouts sv m w)
  then have "streams w = streams (sworld sv)"
    by (auto simp: timeout_phase_def Let_def refresh_streams dest!: expire_streams)
  then show ?case by (simp add: no_traffic_streams)
next
  case (exit sv m w)
  then show ?case using close_all_streams by (simp add: no_traffic_streams)
qed (simp_all add: no_traffic_streams)

lemma quiet_possible:
  assumes "phase sv \<notin> {At_Disconnect, At_Select, Finished}"
  shows "\<exists>sv'. worker_phase E False sv sv'"
proof (cases "phase sv")
  case At_Timeouts
  then show ?thesis
    by (cases "timeout_phase E (sessions sv) (sworld sv)") (blast intro: worker_phase.timeouts)
next
  case At_Exit
  then show ?thesis by (cases "close_all (sessions sv) (sworld sv)") (blast intro: worker_phase.exit)
qed (use assms in \<open>auto intro: worker_phase.intros\<close>)

lemma phase_quiets: "worker_phase E False sv sv' \<Longrightarrow> phase sv' \<notin> {At_Disconnect, At_Select}"
  by (induction rule: worker_phase.induct) simp_all

lemma stopping_quiet: "stopping E sv0 k sv \<Longrightarrow> 0 < k \<Longrightarrow> phase sv \<notin> {At_Disconnect, At_Select}"
  by (induction rule: stopping.induct) (use phase_quiets in auto)

lemma phase_running:
  "worker_phase E r sv sv' \<Longrightarrow> r \<Longrightarrow> phase sv \<notin> {At_Exit, Finished} \<Longrightarrow> phase sv' \<notin> {At_Exit, Finished}"
  by (induction rule: worker_phase.induct) simp_all

lemma not_finished_running: "serving E sv0 r sv \<Longrightarrow> phase sv0 = At_Weather \<Longrightarrow> r \<Longrightarrow> phase sv \<notin> {At_Exit, Finished}"
proof (induction rule: serving.induct)
  case (works r sv sv')
  then show ?case by (intro phase_running [OF works.hyps(2)]) simp_all
qed simp_all

lemma serving_stopping: "stopping E sv k sv' \<Longrightarrow> serving E sv0 False sv \<Longrightarrow> serving E sv0 False sv'"
  by (induction rule: stopping.induct) (auto intro: serving.intros)

text \<open>
  C18. The server thread ends when it is told to, and not before. While the flag is set it does not
  leave its loop. Once the flag is cleared at most three phases of the loop still begin, the third of
  them the last, whatever point it had reached; only the first of them can have traffic, and every
  other one, and the first too unless it is the disconnect request or the select, is possible there
  and receives and sends nothing, so no client can hold it up; and when the thread has ended every
  connection it accepted has been closed exactly once. (Phases are counted, not time. A phase that
  has traffic lasts as long as its calls: a client that sends part of a header and then stays
  silent keeps the worker in \<open>recvAll\<close>, whatever the flag says, so this property is no promise that
  such a worker ends.)
\<close>

theorem server_thread_ends:
  assumes "serving E (start_server lg n) r sv"
  shows "(r \<longrightarrow> phase sv \<notin> {At_Exit, Finished}) \<and>
    (\<not> r \<longrightarrow>
      (\<forall>k sv'. stopping E sv k sv' \<longrightarrow>
         k \<le> 3 \<and> (k = 3 \<longrightarrow> phase sv' = Finished) \<and>
         (0 < k \<longrightarrow> phase sv' \<notin> {At_Disconnect, At_Select}) \<and>
         (phase sv' \<notin> {At_Disconnect, At_Select, Finished} \<longrightarrow>
            (\<exists>sv''. worker_phase E False sv' sv'') \<and> (\<forall>sv''. worker_phase E False sv' sv'' \<longrightarrow> no_traffic sv' sv'')) \<and>
         (phase sv' = Finished \<longrightarrow> (\<forall>h\<in>set (accepted sv'). closes (wnet (sworld sv') h) = 1))))"
proof (intro conjI impI allI)
  assume r: "r"
  have "phase (start_server lg n) = At_Weather" by (simp add: start_server_def)
  from not_finished_running [OF assms this r] show "phase sv \<notin> {At_Exit, Finished}" .
next
  fix k sv' assume "\<not> r" and s: "stopping E sv k sv'"
  then have "serving E (start_server lg n) False sv'" using assms serving_stopping by simp
  then have inv: "machine_inv sv'" using start_inv serving_reachable by blast
  have le: "k + remaining (phase sv') \<le> 3"
    using stopping_remaining [OF s] remaining_bound [of "phase sv"] by simp
  then show "k \<le> 3" by simp
  show "phase sv' = Finished" if "k = 3" using le that by (cases "phase sv'") simp_all
  show "phase sv' \<notin> {At_Disconnect, At_Select}" if "0 < k" using stopping_quiet [OF s that] .
  show "\<exists>sv''. worker_phase E False sv' sv''" if "phase sv' \<notin> {At_Disconnect, At_Select, Finished}"
    using that by (rule quiet_possible)
  show "no_traffic sv' sv''" if "phase sv' \<notin> {At_Disconnect, At_Select, Finished}" "worker_phase E False sv' sv''" for sv''
    using quiet_phase [OF that(2)] that(1) by simp
  show "\<forall>h\<in>set (accepted sv'). closes (wnet (sworld sv') h) = 1" if "phase sv' = Finished"
    using inv that by (simp add: machine_inv_def)
qed

text \<open>An example: a client has connected, the flag is cleared, and the thread ends.\<close>

lemma serving_next:
  assumes "serving E sv0 True sv" "c \<noteq> Halt"
  shows "serving E sv0 True (server_next E c sv)"
proof (cases c)
  case Go
  show ?thesis
    using assms(1) works [OF assms(1) worker_phase.weather [of sv True E]] works [OF assms(1) worker_phase.disconnect [of sv E]]
      works [OF assms(1) worker_phase.timeouts [of sv E _ _ True]]
    by (cases "phase sv") (auto simp: server_next_def Go split: prod.splits)
next
  case (Io inp)
  show ?thesis
  proof (cases "phase sv = At_Select \<and> list_all (\<lambda>h. h \<notin> set (map_keys (sessions sv))) (accepts inp)")
    case True
    obtain m w where w: "io_phase E inp (sessions sv) (sworld sv) = (m, w)" by (cases "io_phase E inp (sessions sv) (sworld sv)")
    have "kernel_fresh (sessions sv) inp"
      using True by (simp add: kernel_fresh_def list_all_iff map_keys_def map_find_def map_of_eq_None_iff)
    from works [OF assms(1) worker_phase.io [OF _ this _ _ w]] True w show ?thesis by (simp add: server_next_def Io)
  next
    case False
    with assms(1) show ?thesis by (auto simp: server_next_def Io)
  qed
next
  case (Frame ui)
  with draws [OF assms(1), of ui] show ?thesis by (simp add: server_next_def draw_frame_def)
qed (use assms(2) in simp)

lemma example_serving: "serving example_host example_start True (example_run 0)"
proof -
  have "serving example_host example_start True (fold (server_next example_host) cs example_start)" if "Halt \<notin> set cs" for cs
    using that by (induction cs rule: rev_induct) (auto intro: begins serving_next)
  note run = this
  show ?thesis unfolding example_run_def by (rule run) (simp add: iteration_def)
qed

theorem server_thread_ends_witness:
  "\<exists>sv. stopping example_host (example_run 0) 2 sv \<and> phase sv = Finished \<and> closes (wnet (sworld sv) 4) = 1"
proof -
  let ?sv1 = "(example_run 0)\<lparr>phase := At_Exit\<rparr>"
  obtain m w where w: "close_all (sessions ?sv1) (sworld ?sv1) = (m, w)" by (cases "close_all (sessions ?sv1) (sworld ?sv1)")
  let ?sv2 = "?sv1\<lparr>phase := Finished, sessions := m, sworld := w\<rparr>"
  have "worker_phase example_host False (example_run 0) ?sv1" using example_run_0(1) by (intro leave) simp_all
  moreover have "worker_phase example_host False ?sv1 ?sv2" using w by (intro worker_phase.exit) simp_all
  ultimately have s: "stopping example_host (example_run 0) 2 ?sv2"
    using stop_works [OF stop_works [OF stop_begins]] by (simp add: numeral_2_eq_2)
  have "serving example_host (start_server (new_logger ''groundctrl'' ''logs'' 0 1) (\<lambda>h. example_traffic)) False (example_run 0)"
    using clears [OF example_serving] by (simp add: example_start_def)
  from server_thread_ends [OF this] s have "phase ?sv2 = Finished \<longrightarrow>
      (\<forall>h\<in>set (accepted ?sv2). closes (wnet (sworld ?sv2) h) = 1)" by blast
  then have "closes (wnet (sworld ?sv2) 4) = 1" using example_run_0(3) by simp
  with s show ?thesis by (intro exI [of _ ?sv2]) simp
qed

end
