(* ===== verification/Server_Lifecycle.thy ===== *)
theory Server_Lifecycle
  imports Options Socket_Utils Dashboard
begin

text \<open>
  The life of the server process: \<open>server/main.cpp\<close>, \<open>GroundServer\<close>'s set-up and tear-down in
  \<open>server/ground_server.cpp\<close> (the signal handler, \<open>openListenSocket\<close>, \<open>runHeadless\<close>,
  \<open>runDashboard\<close> with its frame loop, \<open>closeListenSocket\<close>) and \<open>setReuseAddress\<close>. What happens
  while the process serves is a list of events: signals that arrive, turns of the frame loop,
  writes of the worker thread to the shared dashboard, and its end. What the worker does in between
  is \<open>server_step\<close>.
\<close>

subsection \<open>State\<close>

datatype sig = SIGINT | SIGTERM

datatype disposition = SIG_DFL | SIG_IGN | Termination_Handler

datatype worker = No_Worker | Serving handle | Joined

text \<open>
  The members \<open>options\<close>, \<open>running\<close>, \<open>listenSocket\<close> and the dashboard in \<open>sharedState\<close>; the signal dispositions with
  \<open>gSignalRunningFlag\<close> (set or null); sockets, options set on them, and whether they listen; the
  worker thread; what of GLFW and ImGui is alive; the two output streams. \<open>closed_under\<close> is
  history: the listening socket was closed while the worker thread still had it.
\<close>

record process =
  p_options :: ServerOptions
  p_running :: bool
  listenSocket :: handle
  p_shared :: DashboardState
  gSignalRunningFlag :: bool
  disposition_of :: "sig \<Rightarrow> disposition"
  p_net :: net
  reuse :: "handle set"
  bound :: "(handle \<times> 16 word) set"
  listening :: "handle set"
  p_worker :: worker
  glfw :: bool
  window :: bool
  imgui :: bool
  p_out :: "string list"
  p_err :: "string list"
  closed_under :: bool

text \<open>The answers of the system calls and of the GUI library.\<close>

record answers =
  a_socket :: handle
  a_bind :: bool
  a_listen :: bool
  a_glfwInit :: bool
  a_window :: bool

definition fresh_sock :: sock where
  "fresh_sock = \<lparr> rx = [], tx = [], outb = [], shut_all = False, shut_wr = False, closes = 0 \<rparr>"

text \<open>A process before \<open>main\<close>, with these signal dispositions; and the members of a new \<open>GroundServer\<close>.\<close>

definition process_start :: "(sig \<Rightarrow> disposition) \<Rightarrow> process" where
  "process_start d =
     \<lparr> p_options = \<lparr> listenPort = kDefaultServerPort, headless = False \<rparr>, p_running = True, listenSocket = INVALID_SOCK,
       p_shared = new_dashboard, gSignalRunningFlag = False, disposition_of = d, p_net = (\<lambda>h. fresh_sock), reuse = {}, bound = {}, listening = {},
       p_worker = No_Worker, glfw = False, window = False, imgui = False, p_out = [], p_err = [], closed_under = False \<rparr>"

definition new_server :: "ServerOptions \<Rightarrow> process \<Rightarrow> process" where
  "new_server options p = p\<lparr>p_options := options, p_running := True, listenSocket := INVALID_SOCK, p_shared := new_dashboard\<rparr>"

definition cerr :: "string \<Rightarrow> process \<Rightarrow> process" where
  "cerr line p = p\<lparr>p_err := p_err p @ [line]\<rparr>"

subsection \<open>The listening socket\<close>

definition closeListenSocket :: "process \<Rightarrow> process" where
  "closeListenSocket p =
     (if listenSocket p \<noteq> INVALID_SOCK
      then p\<lparr>p_net := closeSocket (p_net p) (listenSocket p), listenSocket := INVALID_SOCK,
             closed_under := (closed_under p \<or> p_worker p = Serving (listenSocket p))\<rparr>
      else p)"

definition setReuseAddress :: "handle \<Rightarrow> process \<Rightarrow> process" where
  "setReuseAddress h p = p\<lparr>reuse := insert h (reuse p)\<rparr>"

definition openListenSocket :: "answers \<Rightarrow> process \<Rightarrow> bool \<times> process" where
  "openListenSocket A p =
     (let h = a_socket A; p1 = p\<lparr>listenSocket := h\<rparr>
      in if h = INVALID_SOCK then (False, cerr ''Unable to create server socket.'' p1)
         else
           let p2 = setReuseAddress h (p1\<lparr>p_net := (p_net p1)(h := fresh_sock)\<rparr>);
               port = listenPort (p_options p2)
           in if \<not> a_bind A
              then (False, closeListenSocket (cerr (''Unable to bind server socket on port '' @ dec (unat port) @ ''.'') p2))
              else
                let p3 = p2\<lparr>bound := insert (h, port) (bound p2)\<rparr>
                in if \<not> a_listen A
                   then (False, closeListenSocket (cerr (''Unable to listen on server socket on port '' @ dec (unat port) @ ''.'') p3))
                   else (True, p3\<lparr>listening := insert h (listening p3)\<rparr>))"

subsection \<open>Signals\<close>

definition handleTerminationSignal :: "process \<Rightarrow> process" where
  "handleTerminationSignal p = (if gSignalRunningFlag p then p\<lparr>p_running := False\<rparr> else p)"

text \<open>The constructor returns the dispositions it replaced; the destructor puts them back.\<close>

definition install_handlers :: "process \<Rightarrow> (disposition \<times> disposition) \<times> process" where
  "install_handlers p =
     (let p1 = p\<lparr>gSignalRunningFlag := True\<rparr>;
          previousSigInt = disposition_of p1 SIGINT;
          p2 = p1\<lparr>disposition_of := (disposition_of p1)(SIGINT := Termination_Handler)\<rparr>;
          previousSigTerm = disposition_of p2 SIGTERM;
          p3 = p2\<lparr>disposition_of := (disposition_of p2)(SIGTERM := Termination_Handler)\<rparr>
      in ((previousSigInt, previousSigTerm), p3))"

definition restore_handlers :: "disposition \<times> disposition \<Rightarrow> process \<Rightarrow> process" where
  "restore_handlers previous p =
     p\<lparr>gSignalRunningFlag := False,
        disposition_of := (disposition_of p)(SIGINT := fst previous, SIGTERM := snd previous)\<rparr>"

text \<open>
  A signal at its disposition: the default action of both is to terminate the process on the spot
  (\<open>None\<close>), with no destructor run; an ignored one does nothing.
\<close>

definition deliver :: "sig \<Rightarrow> process \<Rightarrow> process option" where
  "deliver s p =
     (case disposition_of p s of
        SIG_DFL \<Rightarrow> None
      | SIG_IGN \<Rightarrow> Some p
      | Termination_Handler \<Rightarrow> Some (handleTerminationSignal p))"

subsection \<open>Running\<close>

text \<open>
  What happens while the process serves: a signal arrives; the frame loop takes a turn, with the
  answer of \<open>glfwWindowShouldClose\<close> and what the operator did; the worker writes to the shared
  dashboard; the worker thread ends.
\<close>

datatype event = Arrives sig | Turn bool ui_input | Worker_Writes DashboardState | Worker_Ends

text \<open>How far the process has come when the events so far are used up, or a signal has killed it.\<close>

datatype 'a progress = Done 'a | Killed sig process | Waiting process

fun and_then :: "'a progress \<Rightarrow> ('a \<Rightarrow> 'b progress) \<Rightarrow> 'b progress" where
  "and_then (Done a) f = f a"
| "and_then (Killed s p) f = Killed s p"
| "and_then (Waiting p) f = Waiting p"

definition start_worker :: "process \<Rightarrow> process" where
  "start_worker p = p\<lparr>p_worker := Serving (listenSocket p)\<rparr>"

text \<open>
  A join returns when the worker ends, which it does only once the flag is cleared
  (\<open>server_thread_ends\<close> in \<open>Server_Stop\<close>), and not at once: a worker inside a blocking call ends when
  that call returns, which is for its peer to decide. Until then the main thread waits, and what
  signals do to the process they do here too.
\<close>

fun join_worker :: "event list \<Rightarrow> process \<Rightarrow> process progress" where
  "join_worker [] p = Waiting p"
| "join_worker (Arrives s # es) p = (case deliver s p of None \<Rightarrow> Killed s p | Some p1 \<Rightarrow> join_worker es p1)"
| "join_worker (Turn quit ui # es) p = join_worker es p"
| "join_worker (Worker_Writes d # es) p = join_worker es (p\<lparr>p_shared := d\<rparr>)"
| "join_worker (Worker_Ends # es) p =
     (if p_running p then join_worker es p else Done (p\<lparr>p_worker := Joined\<rparr>))"

definition runHeadless :: "event list \<Rightarrow> process \<Rightarrow> (int \<times> process) progress" where
  "runHeadless es p =
     (case install_handlers p of (previous, p1) \<Rightarrow>
        let p2 = p1\<lparr>p_out := p_out p1 @ [''Ground server running in headless mode on port ''
                     @ dec (unat (listenPort (p_options p1))) @ ''.'']\<rparr>
        in and_then (join_worker es (start_worker p2))
             (\<lambda>p3. Done (0, restore_handlers previous (closeListenSocket p3))))"

text \<open>The frame loop; it is left, with the events still to come, when the window is to be closed.\<close>

fun frame_loop :: "event list \<Rightarrow> process \<Rightarrow> (event list \<times> process) progress" where
  "frame_loop [] p = Waiting p"
| "frame_loop (Arrives s # es) p = (case deliver s p of None \<Rightarrow> Killed s p | Some p1 \<Rightarrow> frame_loop es p1)"
| "frame_loop (Turn quit ui # es) p =
     (if quit then Done (es, p) else frame_loop es (p\<lparr>p_shared := renderDashboard ui (p_shared p)\<rparr>))"
| "frame_loop (Worker_Writes d # es) p = frame_loop es (p\<lparr>p_shared := d\<rparr>)"
| "frame_loop (Worker_Ends # es) p = frame_loop es p"

definition stop_dashboard :: "event list \<Rightarrow> process \<Rightarrow> (int \<times> process) progress" where
  "stop_dashboard es p =
     (let p1 = p\<lparr>p_running := False\<rparr>;
          p2 = p1\<lparr>p_net := shutdownSocket (p_net p1) (listenSocket p1)\<rparr>
      in and_then (join_worker es (closeListenSocket p2))
           (\<lambda>p3. Done (0, p3\<lparr>imgui := False, window := False, glfw := False\<rparr>)))"

definition runDashboard :: "answers \<Rightarrow> event list \<Rightarrow> process \<Rightarrow> (int \<times> process) progress" where
  "runDashboard A es p =
     (if \<not> a_glfwInit A
      then Done (1, closeListenSocket (cerr ''Unable to initialize GLFW.'' p))
      else
        let p1 = p\<lparr>glfw := True\<rparr>
        in if \<not> a_window A
           then Done (1, closeListenSocket ((cerr ''Unable to create GLFW window.'' p1)\<lparr>glfw := False\<rparr>))
           else and_then (frame_loop es (start_worker (p1\<lparr>window := True, imgui := True\<rparr>)))
                  (\<lambda>(es1, p2). stop_dashboard es1 p2))"

definition server_run :: "answers \<Rightarrow> event list \<Rightarrow> process \<Rightarrow> (int \<times> process) progress" where
  "server_run A es p =
     (case openListenSocket A p of
        (False, p1) \<Rightarrow> Done (1, p1)
      | (True, p1) \<Rightarrow> if headless (p_options p1) then runHeadless es p1 else runDashboard A es p1)"

definition destroy_server :: "process \<Rightarrow> process" where
  "destroy_server p = closeListenSocket (p\<lparr>p_running := False\<rparr>)"

definition server_main :: "answers \<Rightarrow> event list \<Rightarrow> string list \<Rightarrow> process \<Rightarrow> (int \<times> process) progress" where
  "server_main A es args p =
     (case parseServerOptions args of
        Inl msg \<Rightarrow> Done (1, cerr msg p)
      | Inr options \<Rightarrow>
          and_then (server_run A es (new_server options p)) (\<lambda>(exitCode, p1). Done (exitCode, destroy_server p1)))"

subsection \<open>Every way to end\<close>

text \<open>Whether the process gets to serve.\<close>

definition serves :: "answers \<Rightarrow> string list \<Rightarrow> bool" where
  "serves A args \<longleftrightarrow>
     a_socket A \<noteq> INVALID_SOCK \<and> a_bind A \<and> a_listen A \<and>
     (case parseServerOptions args of
        Inl msg \<Rightarrow> False
      | Inr options \<Rightarrow> headless options \<or> a_glfwInit A \<and> a_window A)"

definition is_headless :: "string list \<Rightarrow> bool" where
  "is_headless args \<longleftrightarrow> (case parseServerOptions args of Inl msg \<Rightarrow> False | Inr options \<Rightarrow> headless options)"

text \<open>
  What tells the server to stop: without a display a signal, with it the window being closed. It has
  ended if the worker ends after that; its life is the events up to then; and a signal is fatal if it
  arrives in that life with the dashboard, where no handler is installed, at the default action.
\<close>

fun tells :: "bool \<Rightarrow> event \<Rightarrow> bool" where
  "tells without (Arrives s) = without"
| "tells without (Turn quit ui) = (\<not> without \<and> quit)"
| "tells without (Worker_Writes d) = False"
| "tells without Worker_Ends = False"

fun told_and_ended :: "bool \<Rightarrow> event list \<Rightarrow> bool" where
  "told_and_ended without [] = False"
| "told_and_ended without (e # es) = (if tells without e then Worker_Ends \<in> set es else told_and_ended without es)"

fun life :: "bool \<Rightarrow> event list \<Rightarrow> event list" where
  "life without [] = []"
| "life without (e # es) = e # (if tells without e then takeWhile (\<lambda>e. e \<noteq> Worker_Ends) es else life without es)"

definition fatal :: "string list \<Rightarrow> (sig \<Rightarrow> disposition) \<Rightarrow> event list \<Rightarrow> sig \<Rightarrow> bool" where
  "fatal args d es s \<longleftrightarrow> \<not> is_headless args \<and> Arrives s \<in> set (life False es) \<and> d s = SIG_DFL"

text \<open>
  Nothing is left behind: no listening socket, the one opened (if any) closed once and no other
  touched, the signal dispositions as they were, GLFW and ImGui shut down, and no worker at large.
\<close>

definition left_clean :: "answers \<Rightarrow> string list \<Rightarrow> (sig \<Rightarrow> disposition) \<Rightarrow> process \<Rightarrow> bool" where
  "left_clean A args d p \<longleftrightarrow>
     (listenSocket p = INVALID_SOCK \<and>
     (\<forall>h. closes (p_net p h) = (if h = a_socket A \<and> h \<noteq> INVALID_SOCK \<and> (\<exists>options. parseServerOptions args = Inr options) then 1 else 0)) \<and>
     disposition_of p = d \<and> \<not> gSignalRunningFlag p \<and> \<not> glfw p \<and> \<not> window p \<and> \<not> imgui p \<and>
     p_worker p = (if serves A args then Joined else No_Worker) \<and>
     (p_err p = [] \<longleftrightarrow> serves A args))"

text \<open>Its opposite: the worker is not joined, and what was opened for the display is still there.\<close>

definition still_up :: "answers \<Rightarrow> string list \<Rightarrow> process \<Rightarrow> bool" where
  "still_up A args p \<longleftrightarrow>
     p_worker p = Serving (a_socket A) \<and> (glfw p \<longleftrightarrow> \<not> is_headless args) \<and> (window p \<longleftrightarrow> \<not> is_headless args) \<and>
     (imgui p \<longleftrightarrow> \<not> is_headless args)"

text \<open>Waiting changes nothing but the flag and the shared dashboard.\<close>

definition core :: "process \<Rightarrow> process" where
  "core p = p\<lparr>p_running := True, p_shared := new_dashboard\<rparr>"

lemma coreD:
  assumes "core p = core q"
  shows "listenSocket p = listenSocket q" "p_net p = p_net q" "disposition_of p = disposition_of q"
    "gSignalRunningFlag p = gSignalRunningFlag q" "glfw p = glfw q" "window p = window q" "imgui p = imgui q"
    "p_worker p = p_worker q" "p_err p = p_err q" "closed_under p = closed_under q"
  using arg_cong [OF assms, of listenSocket] arg_cong [OF assms, of p_net] arg_cong [OF assms, of disposition_of]
    arg_cong [OF assms, of gSignalRunningFlag] arg_cong [OF assms, of glfw] arg_cong [OF assms, of window]
    arg_cong [OF assms, of imgui] arg_cong [OF assms, of p_worker] arg_cong [OF assms, of p_err]
    arg_cong [OF assms, of closed_under]
  by (simp_all add: core_def)

lemma core_simps [simp]:
  "core (p\<lparr>p_running := r\<rparr>) = core p" "core (p\<lparr>p_shared := st\<rparr>) = core p"
  by (simp_all add: core_def)

lemma core_worker: "core p = core q \<Longrightarrow> core (p\<lparr>p_worker := x\<rparr>) = core (q\<lparr>p_worker := x\<rparr>)"
proof -
  have "core (r\<lparr>p_worker := x\<rparr>) = (core r)\<lparr>p_worker := x\<rparr>" for r by (cases r) (simp add: core_def)
  then show "core p = core q \<Longrightarrow> core (p\<lparr>p_worker := x\<rparr>) = core (q\<lparr>p_worker := x\<rparr>)" by simp
qed

lemma deliver_Some:
  assumes "deliver s p = Some p1"
  shows "core p1 = core p" "disposition_of p s \<noteq> SIG_DFL"
    "p_running p1 \<longleftrightarrow> p_running p \<and> \<not> (disposition_of p s = Termination_Handler \<and> gSignalRunningFlag p)"
  using assms by (auto simp: deliver_def handleTerminationSignal_def split: disposition.splits if_splits)

lemma deliver_None: "deliver s p = None \<longleftrightarrow> disposition_of p s = SIG_DFL"
  by (simp add: deliver_def split: disposition.split)

lemma join_core:
  "case join_worker es p of
     Done p' \<Rightarrow> core p' = core (p\<lparr>p_worker := Joined\<rparr>) | Killed s p' \<Rightarrow> core p' = core p | Waiting p' \<Rightarrow> core p' = core p"
proof (induction es p rule: join_worker.induct)
  case (2 s es p)
  show ?case
  proof (cases "deliver s p")
    case (Some p1)
    note c = deliver_Some(1) [OF Some]
    from "2.IH" [OF Some] show ?thesis by (simp add: Some c core_worker [OF c] split: progress.splits)
  qed simp
next
  case (4 st es p)
  have "core (p\<lparr>p_shared := st, p_worker := Joined\<rparr>) = core (p\<lparr>p_worker := Joined\<rparr>)" by (intro core_worker) simp
  with 4 show ?case by (simp split: progress.splits)
qed (simp_all split: progress.splits)

lemma frame_core:
  "case frame_loop es p of
     Done (es1, p') \<Rightarrow> core p' = core p | Killed s p' \<Rightarrow> core p' = core p | Waiting p' \<Rightarrow> core p' = core p"
proof (induction es p rule: frame_loop.induct)
  case (2 s es p)
  show ?case
  proof (cases "deliver s p")
    case (Some p1)
    from "2.IH" [OF Some] show ?thesis by (auto simp: Some deliver_Some(1) [OF Some] split: progress.splits prod.splits)
  qed simp
qed (auto split: progress.splits prod.splits)

text \<open>With the handlers installed no signal kills, and the join returns if the server was told and has ended.\<close>

lemma join_headless:
  assumes "\<forall>s. disposition_of p s = Termination_Handler" "gSignalRunningFlag p"
  shows "case join_worker es p of
      Done p' \<Rightarrow> (if p_running p then told_and_ended True es else Worker_Ends \<in> set es)
    | Killed s p' \<Rightarrow> False
    | Waiting p' \<Rightarrow> \<not> (if p_running p then told_and_ended True es else Worker_Ends \<in> set es)"
  using assms
proof (induction es p rule: join_worker.induct)
  case (2 s es p)
  obtain p1 where p1: "deliver s p = Some p1" using "2.prems"(1) deliver_None by (cases "deliver s p") auto
  note d = deliver_Some [OF p1]
  from "2.IH" [OF p1] "2.prems" coreD(3,4) [OF d(1)] d(3) show ?case by (simp add: p1 split: progress.splits)
qed (auto split: progress.splits if_splits)

text \<open>In the two waits of the dashboard a fatal signal kills, and no other does.\<close>

lemma join_dashboard:
  assumes "\<not> p_running p" "disposition_of p = d"
  shows "case join_worker es p of
      Done p' \<Rightarrow> Worker_Ends \<in> set es \<and> (\<forall>s. Arrives s \<in> set (takeWhile (\<lambda>e. e \<noteq> Worker_Ends) es) \<longrightarrow> d s \<noteq> SIG_DFL)
    | Killed s p' \<Rightarrow> Arrives s \<in> set (takeWhile (\<lambda>e. e \<noteq> Worker_Ends) es) \<and> d s = SIG_DFL
    | Waiting p' \<Rightarrow> Worker_Ends \<notin> set es \<and> (\<forall>s. Arrives s \<in> set (takeWhile (\<lambda>e. e \<noteq> Worker_Ends) es) \<longrightarrow> d s \<noteq> SIG_DFL)"
  using assms
proof (induction es p rule: join_worker.induct)
  case (2 s es p)
  show ?case
  proof (cases "deliver s p")
    case None
    with "2.prems" deliver_None [of s p] show ?thesis by simp
  next
    case (Some p1)
    note d = deliver_Some [OF Some]
    from "2.IH" [OF Some] "2.prems" coreD(3) [OF d(1)] d(2,3) show ?thesis by (auto simp: Some split: progress.splits)
  qed
qed (auto split: progress.splits)

lemma loop_dashboard:
  assumes "disposition_of p = d"
  shows "case frame_loop es p of
      Done (es1, p') \<Rightarrow> told_and_ended False es = (Worker_Ends \<in> set es1) \<and>
        (\<forall>s. d s = SIG_DFL \<longrightarrow>
          (Arrives s \<in> set (life False es) \<longleftrightarrow> Arrives s \<in> set (takeWhile (\<lambda>e. e \<noteq> Worker_Ends) es1)))
    | Killed s p' \<Rightarrow> Arrives s \<in> set (life False es) \<and> d s = SIG_DFL
    | Waiting p' \<Rightarrow> \<not> told_and_ended False es \<and> (\<forall>s. Arrives s \<in> set (life False es) \<longrightarrow> d s \<noteq> SIG_DFL)"
  using assms
proof (induction es p rule: frame_loop.induct)
  case (2 s es p)
  show ?case
  proof (cases "deliver s p")
    case None
    with "2.prems" deliver_None [of s p] show ?thesis by simp
  next
    case (Some p1)
    note d = deliver_Some [OF Some]
    from "2.IH" [OF Some] "2.prems" coreD(3) [OF d(1)] d(2) show ?thesis by (auto simp: Some split: progress.splits)
  qed
qed (auto split: progress.splits)

lemmas lifecycle_defs = closeListenSocket_def closeSocket_def shutdownSocket_def cerr_def setReuseAddress_def
  start_worker_def destroy_server_def new_server_def process_start_def

text \<open>What a run comes to.\<close>

definition outcome ::
  "answers \<Rightarrow> event list \<Rightarrow> string list \<Rightarrow> (sig \<Rightarrow> disposition) \<Rightarrow> (int \<times> process) progress \<Rightarrow> bool" where
  "outcome A es args d r \<longleftrightarrow>
     (case r of
        Done (code, p) \<Rightarrow>
          code = (if serves A args then 0 else 1) \<and> left_clean A args d p \<and>
          (closed_under p \<longleftrightarrow> serves A args \<and> \<not> is_headless args) \<and>
          (serves A args \<longrightarrow> told_and_ended (is_headless args) es \<and> (\<forall>s. \<not> fatal args d es s))
      | Killed s p \<Rightarrow> serves A args \<and> fatal args d es s \<and> still_up A args p
      | Waiting p \<Rightarrow> serves A args \<and> \<not> told_and_ended (is_headless args) es \<and> (\<forall>s. \<not> fatal args d es s) \<and>
          still_up A args p)"

lemma outcome_closed:
  assumes "parseServerOptions args = Inr options" "\<not> (a_socket A \<noteq> INVALID_SOCK \<and> a_bind A \<and> a_listen A)"
  shows "outcome A es args d (server_main A es args (process_start d))"
  using assms
  by (auto simp: outcome_def server_main_def server_run_def openListenSocket_def Let_def lifecycle_defs left_clean_def
      serves_def is_headless_def fresh_sock_def split: if_splits)



text \<open>The process with its socket listening.\<close>

definition listening_process :: "answers \<Rightarrow> ServerOptions \<Rightarrow> (sig \<Rightarrow> disposition) \<Rightarrow> process" where
  "listening_process A options d =
     (new_server options (process_start d))
       \<lparr>listenSocket := a_socket A, p_net := (\<lambda>h. fresh_sock), reuse := {a_socket A},
        bound := {(a_socket A, listenPort options)}, listening := {a_socket A}\<rparr>"

lemma opened:
  assumes "a_socket A \<noteq> INVALID_SOCK" "a_bind A" "a_listen A"
  shows "openListenSocket A (new_server options (process_start d)) = (True, listening_process A options d)"
  using assms
  by (simp add: openListenSocket_def Let_def listening_process_def setReuseAddress_def new_server_def process_start_def
      fun_upd_idem)

lemma both_replaced: "d(SIGINT := a, SIGTERM := b, SIGINT := d SIGINT, SIGTERM := d SIGTERM) = d"
  by (auto simp: fun_eq_iff)

lemma outcome_headless:
  assumes "parseServerOptions args = Inr options" "a_socket A \<noteq> INVALID_SOCK" "a_bind A" "a_listen A" "headless options"
  shows "outcome A es args d (server_main A es args (process_start d))"
proof -
  define q where "q = start_worker ((snd (install_handlers (listening_process A options d)))
      \<lparr>p_out := [''Ground server running in headless mode on port '' @ dec (unat (listenPort options)) @ ''.'']\<rparr>)"
  have q: "listenSocket q = a_socket A" "p_net q = (\<lambda>h. fresh_sock)" "p_running q" "gSignalRunningFlag q"
    "disposition_of q = d(SIGINT := Termination_Handler, SIGTERM := Termination_Handler)" "\<not> glfw q" "\<not> window q"
    "\<not> imgui q" "p_worker q = Serving (a_socket A)" "p_err q = []" "\<not> closed_under q"
    by (simp_all add: q_def listening_process_def install_handlers_def Let_def lifecycle_defs)
  have run: "server_main A es args (process_start d) =
      and_then (join_worker es q)
        (\<lambda>p. Done (0, destroy_server (restore_handlers (d SIGINT, d SIGTERM) (closeListenSocket p))))"
    using assms opened [OF assms(2-4), of options d]
    by (cases "join_worker es q")
       (simp_all add: server_main_def server_run_def runHeadless_def install_handlers_def Let_def q_def
        listening_process_def new_server_def process_start_def)
  have sv: "serves A args" "is_headless args" using assms by (simp_all add: serves_def is_headless_def)
  have h: "\<forall>s. disposition_of q s = Termination_Handler"
  proof
    fix s show "disposition_of q s = Termination_Handler" by (cases s) (simp_all add: q(5))
  qed
  note j = join_headless [where es = es, OF h q(4)]
  show ?thesis
  proof (cases "join_worker es q")
    case (Done p)
    then have "core p = core (q\<lparr>p_worker := Joined\<rparr>)" using join_core [where es = es and p = q] by simp
    note c = coreD [OF this]
    show ?thesis
      using Done j c q sv assms(1,2)
      by (simp add: outcome_def run left_clean_def fatal_def closeListenSocket_def closeSocket_def destroy_server_def
          restore_handlers_def both_replaced fresh_sock_def)
  next
    case (Killed s p)
    with j show ?thesis by simp
  next
    case (Waiting p)
    then have "core p = core q" using join_core [where es = es and p = q] by simp
    with Waiting j q sv coreD [OF this] show ?thesis by (simp add: outcome_def run still_up_def fatal_def)
  qed
qed

lemma outcome_no_display:
  assumes "parseServerOptions args = Inr options" "a_socket A \<noteq> INVALID_SOCK" "a_bind A" "a_listen A" "\<not> headless options"
    and "\<not> (a_glfwInit A \<and> a_window A)"
  shows "outcome A es args d (server_main A es args (process_start d))"
  using assms opened [OF assms(2-4), of options d]
  by (auto simp: outcome_def server_main_def server_run_def runDashboard_def Let_def lifecycle_defs left_clean_def
      serves_def is_headless_def fresh_sock_def listening_process_def)

lemma outcome_dashboard:
  assumes "parseServerOptions args = Inr options" "a_socket A \<noteq> INVALID_SOCK" "a_bind A" "a_listen A" "\<not> headless options"
    and "a_glfwInit A" "a_window A"
  shows "outcome A es args d (server_main A es args (process_start d))"
proof -
  define q where "q = start_worker ((listening_process A options d)\<lparr>glfw := True, window := True, imgui := True\<rparr>)"
  have q: "listenSocket q = a_socket A" "p_net q = (\<lambda>h. fresh_sock)" "\<not> gSignalRunningFlag q" "disposition_of q = d"
    "glfw q" "window q" "imgui q" "p_worker q = Serving (a_socket A)" "p_err q = []" "\<not> closed_under q"
    by (simp_all add: q_def listening_process_def Let_def lifecycle_defs)
  have run: "server_main A es args (process_start d) =
      and_then (and_then (frame_loop es q) (\<lambda>(es1, p). stop_dashboard es1 p))
        (\<lambda>(exitCode, p). Done (exitCode, destroy_server p))"
    using assms opened [OF assms(2-4), of options d]
    by (simp add: server_main_def server_run_def runDashboard_def Let_def q_def)
       (simp add: listening_process_def new_server_def process_start_def)
  have sv: "serves A args" "\<not> is_headless args" using assms by (simp_all add: serves_def is_headless_def)
  note f = loop_dashboard [where es = es, OF q(4)] and fc = frame_core [where es = es and p = q]
  show ?thesis
  proof (cases "frame_loop es q")
    case (Killed s p)
    then have "core p = core q" using fc by simp
    with Killed f q sv coreD [OF this] show ?thesis by (simp add: outcome_def run still_up_def fatal_def)
  next
    case (Waiting p)
    then have "core p = core q" using fc by simp
    with Waiting f q sv coreD [OF this] show ?thesis by (simp add: outcome_def run still_up_def fatal_def)
  next
    case (Done ep)
    obtain es1 p where ep: "ep = (es1, p)" by (cases ep)
    then have "core p = core q" using fc Done by simp
    note c = coreD [OF this, unfolded q]
    define r where "r = closeListenSocket (p\<lparr>p_running := False, p_net := shutdownSocket (p_net p) (a_socket A)\<rparr>)"
    have r: "\<not> p_running r" "listenSocket r = INVALID_SOCK" "\<not> gSignalRunningFlag r" "disposition_of r = d"
      "glfw r" "window r" "imgui r" "p_worker r = Serving (a_socket A)" "p_err r = []" "closed_under r"
      "\<And>h. closes (p_net r h) = (if h = a_socket A then 1 else 0)"
      using c q assms(2) by (simp_all add: r_def closeListenSocket_def shutdownSocket_def closeSocket_def fresh_sock_def)
    have run2: "server_main A es args (process_start d) =
        and_then (join_worker es1 r) (\<lambda>p. Done (0, destroy_server (p\<lparr>imgui := False, window := False, glfw := False\<rparr>)))"
      unfolding run Done ep using c(1)
      by (cases "join_worker es1 r") (simp_all add: stop_dashboard_def Let_def r_def)
    note j = join_dashboard [where es = es1, OF r(1,4)] and jc = join_core [where es = es1 and p = r]
    note f' = f [unfolded Done ep, simplified]
    show ?thesis
    proof (cases "join_worker es1 r")
      case (Done p2)
      then have "core p2 = core (r\<lparr>p_worker := Joined\<rparr>)" using jc by simp
      note c2 = coreD [OF this]
      show ?thesis
        using Done j f' c2 r sv assms(1,2)
        by (auto simp: outcome_def run2 left_clean_def fatal_def destroy_server_def closeListenSocket_def)
    next
      case (Killed s p2)
      then have "core p2 = core r" using jc by simp
      with Killed j f' r sv coreD [OF this] show ?thesis by (simp add: outcome_def run2 still_up_def fatal_def)
    next
      case (Waiting p2)
      then have "core p2 = core r" using jc by simp
      with Waiting j f' r sv coreD [OF this] show ?thesis by (auto simp: outcome_def run2 still_up_def fatal_def)
    qed
  qed
qed

text \<open>
  C19. How the server process can end, whatever the command line, the system calls, the GUI library, the
  worker, the operator and the signals that arrive while it serves do. It returns, with exit code
  0 exactly if it came to serve and a message on its error stream exactly if it did not, and then
  nothing is left behind: its listening socket was closed exactly once and no other, the
  dispositions of SIGINT and SIGTERM are those it found, GLFW and ImGui are shut down and the
  worker, if started, was joined; where it came to serve it had been told to stop (by a signal
  without a display, by the window being closed with it) and its worker had ended after that. Or,
  with the dashboard only, SIGINT or SIGTERM arrived at the default action, no handler being
  installed there, and killed it on the spot, with the worker not joined and the display not
  shut down. Or it is still waiting, for one of these events. With the dashboard the listening
  socket is always closed while the worker thread still has it, without never.
\<close>

theorem server_process_ends_clean:
  "case server_main A es args (process_start d) of
     Done (code, p) \<Rightarrow>
       code = (if serves A args then 0 else 1) \<and> left_clean A args d p \<and>
       (closed_under p \<longleftrightarrow> serves A args \<and> \<not> is_headless args) \<and>
       (serves A args \<longrightarrow> told_and_ended (is_headless args) es \<and> (\<forall>s. \<not> fatal args d es s))
   | Killed s p \<Rightarrow> serves A args \<and> fatal args d es s \<and> still_up A args p
   | Waiting p \<Rightarrow> serves A args \<and> \<not> told_and_ended (is_headless args) es \<and> (\<forall>s. \<not> fatal args d es s) \<and>
       still_up A args p"
proof -
  have "outcome A es args d (server_main A es args (process_start d))"
  proof (cases "parseServerOptions args")
    case (Inl msg)
    then show ?thesis
      by (auto simp: outcome_def server_main_def left_clean_def serves_def is_headless_def lifecycle_defs fresh_sock_def)
  next
    case (Inr options)
    then show ?thesis using outcome_closed outcome_headless outcome_no_display outcome_dashboard by blast
  qed
  then show ?thesis by (simp add: outcome_def)
qed

text \<open>
  Interrupted without a display the process ends cleanly once the worker has; with the dashboard the
  same signal kills it.
\<close>

definition willing_host :: answers where
  "willing_host = \<lparr> a_socket = 3, a_bind = True, a_listen = True, a_glfwInit = True, a_window = True \<rparr>"

lemma example_arguments:
  "serves willing_host [''--headless'']" "is_headless [''--headless'']" "serves willing_host []" "\<not> is_headless []"
  by code_simp+

theorem server_process_ends_clean_witness:
  "(\<exists>p. server_main willing_host [Arrives SIGINT, Worker_Ends] [''--headless''] (process_start (\<lambda>s. SIG_DFL)) = Done (0, p) \<and>
      p_worker p = Joined) \<and>
   (\<exists>p. server_main willing_host [Arrives SIGINT, Worker_Ends] [] (process_start (\<lambda>s. SIG_DFL)) = Killed SIGINT p \<and>
      p_worker p = Serving 3)"
proof -
  let ?es = "[Arrives SIGINT, Worker_Ends]" and ?d = "\<lambda>s. SIG_DFL"
  have "told_and_ended True ?es" "fatal [] ?d ?es SIGINT" "\<And>s. fatal [] ?d ?es s \<Longrightarrow> s = SIGINT"
    "\<And>s. \<not> fatal [''--headless''] ?d ?es s"
    using example_arguments by (simp_all add: fatal_def)
  with server_process_ends_clean [where A = willing_host and es = ?es and args = "[''--headless'']" and d = ?d]
    server_process_ends_clean [where A = willing_host and es = ?es and args = "[]" and d = ?d] example_arguments
  show ?thesis
    by (auto simp: left_clean_def still_up_def willing_host_def split: progress.splits)
qed

end
