(* ===== verification/Payload_Ownership.thy ===== *)
theory Payload_Ownership
  imports Packet
begin

text \<open>
  The ownership of the buffer of \<open>LargeFilePayload\<close> (\<open>common/packet.h\<close>): the special members of
  the struct over an explicit heap, with freeing a block that is not allocated as undefined
  behaviour (\<open>None\<close>), and the abstract view in which a payload variable simply holds an
  optional buffer and a size. Addresses are handed out in increasing order and never reused, which makes
  the history of frees exact.
\<close>

subsection \<open>Heap and objects\<close>

datatype ptr = Null | Addr nat

record heap =
  blocks :: "nat \<rightharpoonup> byte list"
  next_addr :: nat
  freed :: "nat list"

definition heap_free :: "ptr \<Rightarrow> heap \<Rightarrow> heap option" where
  "heap_free p H =
     (case p of
        Null \<Rightarrow> Some H
      | Addr a \<Rightarrow> (case blocks H a of
                    None \<Rightarrow> None
                  | Some _ \<Rightarrow> Some (H\<lparr>blocks := (blocks H)(a := None), freed := a # freed H\<rparr>)))"

text \<open>\<open>malloc\<close> of as many bytes as are then stored there; it may fail.\<close>

definition heap_malloc :: "byte list \<Rightarrow> bool \<Rightarrow> heap \<Rightarrow> ptr \<times> heap" where
  "heap_malloc bs ok H =
     (if ok then (Addr (next_addr H),
                  H\<lparr>blocks := (blocks H)(next_addr H \<mapsto> bs), next_addr := Suc (next_addr H)\<rparr>)
      else (Null, H))"

record LargeFilePayload =
  pdata :: ptr
  psize :: u32

record mem =
  mheap :: heap
  objs :: "nat \<rightharpoonup> LargeFilePayload"

subsection \<open>The special members\<close>

definition payload_construct :: LargeFilePayload where
  "payload_construct = \<lparr> pdata = Null, psize = 0 \<rparr>"

definition payload_destroy :: "nat \<Rightarrow> mem \<Rightarrow> mem option" where
  "payload_destroy x m =
     (case objs m x of
        None \<Rightarrow> None
      | Some p \<Rightarrow>
          (case heap_free (pdata p) (mheap m) of
             None \<Rightarrow> None
           | Some H \<Rightarrow> Some (m\<lparr>mheap := H, objs := (objs m)(x := None)\<rparr>)))"

definition payload_move_construct :: "nat \<Rightarrow> nat \<Rightarrow> mem \<Rightarrow> mem option" where
  "payload_move_construct x other m =
     (case objs m other of
        None \<Rightarrow> None
      | Some q \<Rightarrow>
          Some (m\<lparr>objs := (objs m)(x \<mapsto> \<lparr> pdata = pdata q, psize = psize q \<rparr>,
                                   other \<mapsto> \<lparr> pdata = Null, psize = 0 \<rparr>)\<rparr>))"

definition payload_move_assign :: "nat \<Rightarrow> nat \<Rightarrow> mem \<Rightarrow> mem option" where
  "payload_move_assign x other m =
     (case (objs m x, objs m other) of
        (Some p, Some q) \<Rightarrow>
          (if x \<noteq> other
           then (case heap_free (pdata p) (mheap m) of
                   None \<Rightarrow> None
                 | Some H \<Rightarrow>
                     Some (m\<lparr>mheap := H,
                             objs := (objs m)(x \<mapsto> \<lparr> pdata = pdata q, psize = psize q \<rparr>,
                                              other \<mapsto> \<lparr> pdata = Null, psize = 0 \<rparr>)\<rparr>))
           else Some m)
      | _ \<Rightarrow> None)"

text \<open>How the program fills a payload: \<open>data = malloc(n); size = n\<close>, then the bytes.\<close>

definition payload_fill :: "nat \<Rightarrow> byte list \<Rightarrow> bool \<Rightarrow> mem \<Rightarrow> mem option" where
  "payload_fill x bs ok m =
     (case objs m x of
        None \<Rightarrow> None
      | Some p \<Rightarrow>
          (case heap_malloc bs ok (mheap m) of
             (d, H) \<Rightarrow> Some (m\<lparr>mheap := H,
                               objs := (objs m)(x \<mapsto> \<lparr> pdata = d, psize = word_of_nat (length bs) \<rparr>)\<rparr>)))"

subsection \<open>Programs over payload variables\<close>

datatype payload_op =
    Construct nat
  | Destroy nat
  | Move_Construct nat nat
  | Move_Assign nat nat
  | Fill nat "byte list" bool

fun exec_op :: "payload_op \<Rightarrow> mem \<Rightarrow> mem option" where
  "exec_op (Construct x) m = Some (m\<lparr>objs := (objs m)(x \<mapsto> payload_construct)\<rparr>)"
| "exec_op (Destroy x) m = payload_destroy x m"
| "exec_op (Move_Construct x y) m = payload_move_construct x y m"
| "exec_op (Move_Assign x y) m = payload_move_assign x y m"
| "exec_op (Fill x bs ok) m = payload_fill x bs ok m"

text \<open>
  The same programs over variables that hold an optional buffer and a size. \<open>None\<close> marks the programs that
  the scoping rules exclude (an object constructed twice, or used outside its lifetime) and those
  that fill a payload which still has a buffer, which the sources never do.
\<close>

type_synonym payload_vars = "nat \<rightharpoonup> byte list option \<times> u32"

fun spec_op :: "payload_op \<Rightarrow> payload_vars \<Rightarrow> payload_vars option" where
  "spec_op (Construct x) v = (if x \<in> dom v then None else Some (v(x \<mapsto> (None, 0))))"
| "spec_op (Destroy x) v = (if x \<in> dom v then Some (v(x := None)) else None)"
| "spec_op (Move_Construct x y) v =
     (case v y of
        Some b \<Rightarrow> if x \<in> dom v then None else Some (v(x \<mapsto> b, y \<mapsto> (None, 0)))
      | None \<Rightarrow> None)"
| "spec_op (Move_Assign x y) v =
     (case v y of
        Some b \<Rightarrow> if x \<notin> dom v then None else if x = y then Some v else Some (v(x \<mapsto> b, y \<mapsto> (None, 0)))
      | None \<Rightarrow> None)"
| "spec_op (Fill x bs ok) v =
     (case v x of
        Some (None, n) \<Rightarrow> Some (v(x \<mapsto> (if ok then Some bs else None, word_of_nat (length bs))))
      | _ \<Rightarrow> None)"

fun run_ops :: "('m \<Rightarrow> 'm option) list \<Rightarrow> 'm \<Rightarrow> 'm option" where
  "run_ops [] m = Some m"
| "run_ops (f # fs) m = (case f m of None \<Rightarrow> None | Some m' \<Rightarrow> run_ops fs m')"

definition empty_mem :: mem where
  "empty_mem = \<lparr> mheap = \<lparr> blocks = Map.empty, next_addr = 0, freed = [] \<rparr>, objs = Map.empty \<rparr>"

subsection \<open>Abstraction and ownership\<close>

definition buffer_at :: "heap \<Rightarrow> ptr \<Rightarrow> byte list option" where
  "buffer_at H p = (case p of Null \<Rightarrow> None | Addr a \<Rightarrow> blocks H a)"

definition payload_abs :: "mem \<Rightarrow> payload_vars" where
  "payload_abs m = (\<lambda>x. map_option (\<lambda>p. (buffer_at (mheap m) (pdata p), psize p)) (objs m x))"

definition owns :: "mem \<Rightarrow> nat \<Rightarrow> nat \<Rightarrow> bool" where
  "owns m x a \<longleftrightarrow> (\<exists>p. objs m x = Some p \<and> pdata p = Addr a)"

text \<open>Every block has exactly one owner, and every address handed out is in use or was freed once.\<close>

definition heap_history :: "heap \<Rightarrow> bool" where
  "heap_history H \<longleftrightarrow>
     distinct (freed H) \<and> set (freed H) \<inter> dom (blocks H) = {} \<and>
     set (freed H) \<union> dom (blocks H) = {..<next_addr H}"

definition heap_inv :: "(nat \<Rightarrow> nat \<Rightarrow> bool) \<Rightarrow> heap \<Rightarrow> bool" where
  "heap_inv own H \<longleftrightarrow>
     (\<forall>a. (\<exists>x. own x a) \<longleftrightarrow> a \<in> dom (blocks H)) \<and>
     (\<forall>x y a. own x a \<longrightarrow> own y a \<longrightarrow> x = y) \<and> heap_history H"

definition payload_inv :: "mem \<Rightarrow> bool" where
  "payload_inv m \<longleftrightarrow> heap_inv (owns m) (mheap m)"

lemma heap_invD:
  assumes "heap_inv own H"
  shows "(\<exists>x. own x a) \<longleftrightarrow> a \<in> dom (blocks H)" "own x a \<Longrightarrow> own y a \<Longrightarrow> x = y" "heap_history H"
  using assms by (simp_all add: heap_inv_def)

lemma heap_invI:
  "(\<And>a. (\<exists>x. own x a) \<longleftrightarrow> a \<in> dom (blocks H)) \<Longrightarrow> (\<And>x y a. own x a \<Longrightarrow> own y a \<Longrightarrow> x = y) \<Longrightarrow>
   heap_history H \<Longrightarrow> heap_inv own H"
  by (simp add: heap_inv_def)

lemma payload_inv_empty: "payload_inv empty_mem"
  by (simp add: payload_inv_def heap_inv_def heap_history_def empty_mem_def owns_def)

lemma payload_abs_empty: "payload_abs empty_mem = Map.empty"
  by (rule ext) (simp add: payload_abs_def empty_mem_def)

lemma payload_abs_dom: "x \<in> dom (payload_abs m) \<longleftrightarrow> objs m x \<noteq> None"
  by (auto simp: payload_abs_def)

lemma payload_abs_Some: "payload_abs m x = Some b \<longleftrightarrow>
    (\<exists>p. objs m x = Some p \<and> b = (buffer_at (mheap m) (pdata p), psize p))"
  by (auto simp: payload_abs_def)

text \<open>
  Freeing what an object owns is defined, disturbs nobody else's buffer and leaves the heap to the
  other owners.
\<close>

lemma free_owned:
  assumes "payload_inv m" "objs m x = Some p"
  obtains H where "heap_free (pdata p) (mheap m) = Some H" "heap_inv (\<lambda>z a. z \<noteq> x \<and> owns m z a) H"
    "\<forall>z q. objs m z = Some q \<longrightarrow> z \<noteq> x \<longrightarrow> buffer_at H (pdata q) = buffer_at (mheap m) (pdata q)"
proof (cases "pdata p")
  case Null
  then have "(\<lambda>z a. z \<noteq> x \<and> owns m z a) = owns m"
    using assms(2) by (intro ext) (auto simp: owns_def)
  with Null assms(1) that [of "mheap m"] show ?thesis by (simp add: heap_free_def payload_inv_def)
next
  case (Addr a)
  have inv: "heap_inv (owns m) (mheap m)" using assms(1) by (simp add: payload_inv_def)
  have own: "owns m x a" using assms(2) Addr by (simp add: owns_def)
  obtain bs where bs: "blocks (mheap m) a = Some bs"
    using heap_invD(1) [OF inv, of a] own by auto
  have uniq: "z = x" if "owns m z a" for z
    using heap_invD(2) [OF inv that own] .
  have only: "b = a" if "owns m x b" for b
    using that own by (auto simp: owns_def)
  let ?H = "(mheap m)\<lparr>blocks := (blocks (mheap m))(a := None), freed := a # freed (mheap m)\<rparr>"
  have "heap_inv (\<lambda>z a. z \<noteq> x \<and> owns m z a) ?H"
  proof (rule heap_invI)
    show "heap_history ?H"
      using heap_invD(3) [OF inv] bs unfolding heap_history_def by auto
    show "(\<exists>z. z \<noteq> x \<and> owns m z b) \<longleftrightarrow> b \<in> dom (blocks ?H)" for b
    proof (cases "b = a")
      case True
      then show ?thesis using uniq by auto
    next
      case False
      then have "(\<exists>z. z \<noteq> x \<and> owns m z b) \<longleftrightarrow> (\<exists>z. owns m z b)" using only by metis
      with False heap_invD(1) [OF inv, of b] show ?thesis by simp
    qed
    show "z = y" if "z \<noteq> x \<and> owns m z b" "y \<noteq> x \<and> owns m y b" for z y b
      using that heap_invD(2) [OF inv, of z b y] by simp
  qed
  moreover have "buffer_at ?H (pdata q) = buffer_at (mheap m) (pdata q)"
    if "objs m z = Some q" "z \<noteq> x" for z q
    using that uniq [of z] by (auto simp: buffer_at_def owns_def split: ptr.splits)
  ultimately show ?thesis using that [of ?H] Addr bs by (simp add: heap_free_def)
qed

text \<open>Only who owns what matters to the invariant.\<close>

lemma payload_invI:
  assumes "heap_inv own (mheap m)" "\<And>z a. owns m z a \<longleftrightarrow> own z a"
  shows "payload_inv m"
proof -
  have "owns m = own" by (intro ext) (rule assms(2))
  with assms(1) show ?thesis by (simp add: payload_inv_def)
qed

lemma heap_inv_transfer:
  assumes "heap_inv own H" "\<And>a. \<not> own x a"
  shows "heap_inv (\<lambda>z a. if z = x then own y a else z \<noteq> y \<and> own z a) H"
proof -
  note D = heap_invD [OF assms(1)]
  show ?thesis
  proof (rule heap_invI [OF _ _ D(3)])
    have "(\<exists>z. if z = x then own y a else z \<noteq> y \<and> own z a) \<longleftrightarrow> (\<exists>z. own z a)" for a
      using assms(2) by metis
    then show "(\<exists>z. if z = x then own y a else z \<noteq> y \<and> own z a) \<longleftrightarrow> a \<in> dom (blocks H)" for a
      by (simp add: D(1))
    show "u = v" if "if u = x then own y a else u \<noteq> y \<and> own u a"
      "if v = x then own y a else v \<noteq> y \<and> own v a" for u v a
      using that D(2) [of u a v] D(2) [of u a y] D(2) [of v a y] by (auto split: if_splits)
  qed
qed

lemma heap_inv_new:
  assumes "heap_inv own H" "\<And>a. \<not> own x a"
  shows "heap_inv (\<lambda>z a. if z = x then a = next_addr H else own z a)
    (H\<lparr>blocks := (blocks H)(next_addr H \<mapsto> bs), next_addr := Suc (next_addr H)\<rparr>)"
proof -
  note ex = heap_invD(1) [OF assms(1)] and un = heap_invD(2) [OF assms(1)]
    and hist = heap_invD(3) [OF assms(1)]
  have fresh: "next_addr H \<notin> dom (blocks H)" "next_addr H \<notin> set (freed H)"
    using hist unfolding heap_history_def by auto
  let ?H = "H\<lparr>blocks := (blocks H)(next_addr H \<mapsto> bs), next_addr := Suc (next_addr H)\<rparr>"
  have "heap_history ?H"
    using hist fresh unfolding heap_history_def by (auto simp: lessThan_Suc)
  moreover have "(\<exists>z. if z = x then a = next_addr H else own z a) \<longleftrightarrow> a \<in> dom (blocks ?H)" for a
  proof -
    have "(\<exists>z. if z = x then a = next_addr H else own z a) \<longleftrightarrow> a = next_addr H \<or> (\<exists>z. own z a)"
      using assms(2) by metis
    then show ?thesis by (simp add: ex)
  qed
  moreover have "z = y" if "if z = x then a = next_addr H else own z a"
    "if y = x then a = next_addr H else own y a" for z y a
    using that un [of z a y] ex [of a] fresh(1) by (auto split: if_splits)
  ultimately show ?thesis by (intro heap_invI)
qed


lemma empty_no_owner:
  assumes "payload_abs m x = Some (None, n)" "payload_inv m"
  shows "\<not> owns m x a"
proof
  assume o: "owns m x a"
  then have "a \<in> dom (blocks (mheap m))"
    using assms(2) heap_invD(1) [of "owns m" "mheap m" a] by (auto simp: payload_inv_def)
  with o assms(1) show False by (auto simp: payload_abs_Some owns_def buffer_at_def)
qed

subsection \<open>The simulation\<close>

lemma sim_construct:
  assumes "payload_inv m" "x \<notin> dom (payload_abs m)"
  shows "payload_inv (m\<lparr>objs := (objs m)(x \<mapsto> payload_construct)\<rparr>)" (is "payload_inv ?m")
    "payload_abs (m\<lparr>objs := (objs m)(x \<mapsto> payload_construct)\<rparr>) = (payload_abs m)(x \<mapsto> (None, 0))"
proof -
  have none: "objs m x = None" using assms(2) by (simp add: payload_abs_dom)
  have "owns ?m z a \<longleftrightarrow> owns m z a" for z a
    using none by (auto simp: owns_def payload_construct_def)
  with assms(1) show "payload_inv ?m" by (intro payload_invI [of "owns m"]) (simp_all add: payload_inv_def)
  show "payload_abs ?m = (payload_abs m)(x \<mapsto> (None, 0))"
    by (rule ext) (simp add: payload_abs_def payload_construct_def buffer_at_def)
qed

lemma sim_destroy:
  assumes "payload_inv m" "x \<in> dom (payload_abs m)"
  shows "\<exists>m'. payload_destroy x m = Some m' \<and> payload_inv m' \<and> payload_abs m' = (payload_abs m)(x := None)"
proof -
  obtain p where p: "objs m x = Some p" using assms(2) by (auto simp: payload_abs_dom)
  obtain H where H: "heap_free (pdata p) (mheap m) = Some H" "heap_inv (\<lambda>z a. z \<noteq> x \<and> owns m z a) H"
    "\<forall>z q. objs m z = Some q \<longrightarrow> z \<noteq> x \<longrightarrow> buffer_at H (pdata q) = buffer_at (mheap m) (pdata q)"
    by (rule free_owned [OF assms(1) p])
  let ?m = "m\<lparr>mheap := H, objs := (objs m)(x := None)\<rparr>"
  have own: "owns ?m z a \<longleftrightarrow> z \<noteq> x \<and> owns m z a" for z a by (auto simp: owns_def)
  have "payload_inv ?m" by (rule payload_invI [OF _ own]) (simp add: H(2))
  moreover have "payload_abs ?m = (payload_abs m)(x := None)"
    by (rule ext) (auto simp: payload_abs_def H(3) intro!: option.map_cong)
  ultimately show ?thesis by (simp add: payload_destroy_def p H(1))
qed

lemma move_owner:
  assumes "objs m y = Some q" "x \<noteq> y" "heap_inv own H" "\<And>a. \<not> own x a"
    and "\<And>z a. z \<noteq> x \<Longrightarrow> owns m z a \<longleftrightarrow> own z a"
    and "\<forall>z p. objs m z = Some p \<longrightarrow> z \<noteq> x \<longrightarrow> buffer_at H (pdata p) = buffer_at (mheap m) (pdata p)"
  shows "payload_inv (m\<lparr>mheap := H, objs := (objs m)(x \<mapsto> \<lparr> pdata = pdata q, psize = psize q \<rparr>,
           y \<mapsto> \<lparr> pdata = Null, psize = 0 \<rparr>)\<rparr>)" (is "payload_inv ?m")
    "payload_abs (m\<lparr>mheap := H, objs := (objs m)(x \<mapsto> \<lparr> pdata = pdata q, psize = psize q \<rparr>,
           y \<mapsto> \<lparr> pdata = Null, psize = 0 \<rparr>)\<rparr>)
       = (payload_abs m)(x \<mapsto> (buffer_at (mheap m) (pdata q), psize q), y \<mapsto> (None, 0))"
proof -
  have own: "owns ?m z a \<longleftrightarrow> (if z = x then own y a else z \<noteq> y \<and> own z a)" for z a
    using assms(1,2) assms(5) [of z a] assms(5) [of y a] by (auto simp: owns_def)
  show "payload_inv ?m"
    by (rule payload_invI [OF _ own]) (simp add: heap_inv_transfer [OF assms(3,4)])
  show "payload_abs ?m = (payload_abs m)(x \<mapsto> (buffer_at (mheap m) (pdata q), psize q), y \<mapsto> (None, 0))"
    using assms(1,2,6) by (intro ext) (auto simp: payload_abs_def buffer_at_def [of H Null] intro!: option.map_cong)
qed

lemma sim_op:
  assumes inv: "payload_inv m" and spec: "spec_op c (payload_abs m) = Some v"
  shows "\<exists>m'. exec_op c m = Some m' \<and> payload_inv m' \<and> payload_abs m' = v"
proof (cases c)
  case (Construct x)
  with spec sim_construct [OF inv, of x] show ?thesis by (simp split: if_splits)
next
  case (Destroy x)
  with spec sim_destroy [OF inv, of x] show ?thesis by (simp split: if_splits)
next
  case (Move_Construct x y)
  with spec obtain b where b: "payload_abs m y = Some b" "x \<notin> dom (payload_abs m)"
    "v = (payload_abs m)(x \<mapsto> b, y \<mapsto> (None, 0))" by (auto split: option.splits if_splits)
  then obtain q where q: "objs m y = Some q" "b = (buffer_at (mheap m) (pdata q), psize q)" "objs m x = None"
    by (auto simp: payload_abs_Some payload_abs_dom)
  then have ne: "x \<noteq> y" by auto
  have "heap_inv (owns m) (mheap m)" "\<And>a. \<not> owns m x a"
    using inv q(3) by (simp_all add: payload_inv_def owns_def)
  from move_owner [OF q(1) ne this] show ?thesis
    by (simp add: Move_Construct payload_move_construct_def q(1) b(3) q(2) [symmetric])
next
  case (Move_Assign x y)
  with spec obtain b where b: "payload_abs m y = Some b" "x \<in> dom (payload_abs m)"
    "v = (if x = y then payload_abs m else (payload_abs m)(x \<mapsto> b, y \<mapsto> (None, 0)))"
    by (auto split: option.splits if_splits)
  then obtain p q where pq: "objs m x = Some p" "objs m y = Some q" "b = (buffer_at (mheap m) (pdata q), psize q)"
    by (auto simp: payload_abs_Some payload_abs_dom)
  show ?thesis
  proof (cases "x = y")
    case True
    with inv b pq show ?thesis by (simp add: Move_Assign payload_move_assign_def)
  next
    case False
    obtain H where H: "heap_free (pdata p) (mheap m) = Some H" "heap_inv (\<lambda>z a. z \<noteq> x \<and> owns m z a) H"
      "\<forall>z q. objs m z = Some q \<longrightarrow> z \<noteq> x \<longrightarrow> buffer_at H (pdata q) = buffer_at (mheap m) (pdata q)"
      by (rule free_owned [OF inv pq(1)])
    from move_owner [OF pq(2) False H(2) _ _ H(3)] show ?thesis
      by (simp add: Move_Assign payload_move_assign_def pq(1,2) H(1) b(3) False pq(3) [symmetric])
  qed
next
  case (Fill x bs ok)
  with spec obtain k where f: "payload_abs m x = Some (None, k)"
    "v = (payload_abs m)(x \<mapsto> (if ok then Some bs else None, word_of_nat (length bs)))"
    by (auto split: option.splits)
  then obtain p where p: "objs m x = Some p" by (auto simp: payload_abs_Some)
  note no = empty_no_owner [OF f(1) inv]
  have inv': "heap_inv (owns m) (mheap m)" using inv by (simp add: payload_inv_def)
  let ?n = "next_addr (mheap m)"
  show ?thesis
  proof (cases ok)
    case False
    let ?m = "m\<lparr>objs := (objs m)(x \<mapsto> \<lparr> pdata = Null, psize = word_of_nat (length bs) \<rparr>)\<rparr>"
    have "owns ?m z a \<longleftrightarrow> owns m z a" for z a using no [of a] by (auto simp: owns_def)
    then have "payload_inv ?m" by (intro payload_invI [of "owns m"]) (simp_all add: inv')
    moreover have "payload_abs ?m = v"
      using f False by (intro ext) (simp add: payload_abs_def buffer_at_def)
    ultimately show ?thesis using False by (simp add: Fill payload_fill_def p heap_malloc_def)
  next
    case True
    let ?H = "(mheap m)\<lparr>blocks := (blocks (mheap m))(?n \<mapsto> bs), next_addr := Suc ?n\<rparr>"
    let ?m = "m\<lparr>mheap := ?H, objs := (objs m)(x \<mapsto> \<lparr> pdata = Addr ?n, psize = word_of_nat (length bs) \<rparr>)\<rparr>"
    have own: "owns ?m z a \<longleftrightarrow> (if z = x then a = ?n else owns m z a)" for z a by (auto simp: owns_def)
    have "payload_inv ?m"
      by (rule payload_invI [OF _ own]) (simp add: heap_inv_new [OF inv' no])
    moreover have fresh: "\<not> owns m z ?n" for z
      using heap_invD(1) [OF inv', of ?n] heap_invD(3) [OF inv'] unfolding heap_history_def by auto
    have "payload_abs ?m = v"
      using f True fresh
      by (intro ext) (auto simp: payload_abs_def buffer_at_def owns_def split: ptr.splits intro!: option.map_cong)
    ultimately show ?thesis using True by (simp add: Fill payload_fill_def p heap_malloc_def)
  qed
qed


lemma sim_run:
  "payload_inv m \<Longrightarrow> run_ops (map spec_op cs) (payload_abs m) = Some v \<Longrightarrow>
     \<exists>m'. run_ops (map exec_op cs) m = Some m' \<and> payload_inv m' \<and> payload_abs m' = v"
proof (induction cs arbitrary: m)
  case (Cons c cs)
  then obtain v1 where v1: "spec_op c (payload_abs m) = Some v1" "run_ops (map spec_op cs) v1 = Some v"
    by (auto split: option.splits)
  obtain m1 where m1: "exec_op c m = Some m1" "payload_inv m1" "payload_abs m1 = v1"
    using sim_op [OF Cons.prems(1) v1(1)] by blast
  with Cons.IH [OF m1(2)] v1(2) show ?case by auto
qed simp

text \<open>
  C17. The buffer of a payload is owned by exactly one object: every program over payload variables
  (construction, destruction, move construction, move assignment, self-assignment included, and
  filling an empty payload) runs without freeing anything twice, its variables hold the buffers
  and the sizes they would hold if moving simply handed both over and left the source empty,
  every allocated block belongs to exactly one variable, and every block not in use any more was
  freed exactly once; so no block is left once all variables are destroyed.
\<close>

theorem payload_refines_ownership:
  assumes "run_ops (map spec_op cs) Map.empty = Some v"
  shows "\<exists>m. run_ops (map exec_op cs) empty_mem = Some m \<and> payload_abs m = v \<and>
    (\<forall>a. a \<in> dom (blocks (mheap m)) \<longleftrightarrow> (\<exists>!x. owns m x a)) \<and>
    distinct (freed (mheap m)) \<and>
    set (freed (mheap m)) = {..<next_addr (mheap m)} - dom (blocks (mheap m)) \<and>
    (v = Map.empty \<longrightarrow> set (freed (mheap m)) = {..<next_addr (mheap m)})"
proof -
  obtain m where m: "run_ops (map exec_op cs) empty_mem = Some m" "payload_inv m" "payload_abs m = v"
    using sim_run [OF payload_inv_empty, of cs v] assms by (auto simp: payload_abs_empty)
  have inv: "heap_inv (owns m) (mheap m)" using m(2) by (simp add: payload_inv_def)
  note D = heap_invD [OF inv]
  have one: "a \<in> dom (blocks (mheap m)) \<longleftrightarrow> (\<exists>!x. owns m x a)" for a
    using D(1) [of a] D(2) by blast
  have hist: "distinct (freed (mheap m))"
    "set (freed (mheap m)) = {..<next_addr (mheap m)} - dom (blocks (mheap m))"
    using D(3) unfolding heap_history_def by auto
  have "dom (blocks (mheap m)) = {}" if "v = Map.empty"
  proof -
    have "\<not> owns m x a" for x a
      using m(3) that payload_abs_dom [of x m] by (simp add: owns_def)
    then have "a \<notin> dom (blocks (mheap m))" for a using D(1) [of a] by simp
    then show ?thesis by blast
  qed
  then have all: "v = Map.empty \<longrightarrow> set (freed (mheap m)) = {..<next_addr (mheap m)}"
    using hist(2) by simp
  show ?thesis by (intro exI [of _ m] conjI allI m(1,3) one hist all)
qed

theorem payload_refines_ownership_witness:
  "\<exists>m. run_ops (map exec_op [Construct 0, Fill 0 [1, 2] True, Move_Construct 1 0, Construct 2,
       Fill 2 [3] True, Move_Assign 2 1, Move_Assign 2 2, Destroy 0, Destroy 1, Destroy 2]) empty_mem = Some m \<and>
     set (freed (mheap m)) = {..<next_addr (mheap m)}"
proof -
  have "run_ops (map spec_op [Construct 0, Fill 0 [1, 2] True, Move_Construct 1 0, Construct 2,
       Fill 2 [3] True, Move_Assign 2 1, Move_Assign 2 2, Destroy 0, Destroy 1, Destroy 2]) Map.empty
     = Some Map.empty"
    by (simp add: fun_eq_iff)
  from payload_refines_ownership [OF this] show ?thesis by blast
qed

end
