(* ===== verification/Dashboard_View.thy ===== *)
theory Dashboard_View
  imports Dashboard Std_Float
begin

text \<open>
  What a frame of \<open>renderDashboard\<close> (\<open>server/imgui_dashboard.cpp\<close>) puts on the screen: the
  texts of the aircraft list, the telemetry panel and the log panel, in drawing order, and the
  colours of the states. The state changes of a frame are in \<open>Dashboard\<close>; layout is left out.
\<close>

subsection \<open>Drawing\<close>

type_synonym color = "f32 \<times> f32 \<times> f32 \<times> f32"

datatype draw = Text string | Colored color string | Wrapped string | Row string bool

definition rgba :: "rat \<Rightarrow> rat \<Rightarrow> rat \<Rightarrow> rat \<Rightarrow> color" where
  "rgba r g b a = (f32_round r, f32_round g, f32_round b, f32_round a)"

fun stateColor :: "State \<Rightarrow> color" where
  "stateColor DISCONNECTED = rgba (6/10) (6/10) (6/10) 1"
| "stateColor HANDSHAKE_PENDING = rgba (9/10) (8/10) (2/10) 1"
| "stateColor CONNECTED = rgba (2/10) (8/10) (3/10) 1"
| "stateColor TELEMETRY = rgba (2/10) (8/10) (3/10) 1"
| "stateColor LARGE_FILE_TRANSFER = rgba (2/10) (5/10) (9/10) 1"
| "stateColor FAULT = rgba (9/10) (2/10) (2/10) 1"

definition renderTelemetryValue :: "string \<Rightarrow> string \<Rightarrow> draw list" where
  "renderTelemetryValue label value = [Text label, Text value]"

text \<open>\<open>std::snprintf(buffer, n, ...)\<close> keeps what fits beside the terminating NUL.\<close>

definition snprintf :: "nat \<Rightarrow> string \<Rightarrow> string" where
  "snprintf n s = take (n - 1) s"

definition aircraft_rows :: "DashboardState \<Rightarrow> draw list" where
  "aircraft_rows st =
     map (\<lambda>(aircraftId, a). Row (aircraftId @ '' ['' @ dashboardShortStateLabel (dash_state a) @ '']'')
                                 (aircraftId = selectedAircraftId st)) (aircraft st)"

definition telemetry_rows :: "AircraftDashboardState \<Rightarrow> draw list" where
  "telemetry_rows a =
     (if dash_telemetryValid a
      then (let t = dash_telemetry a
            in renderTelemetryValue ''Latitude'' (snprintf 64 (fmt_fixed 4 (latitude t)))
               @ renderTelemetryValue ''Longitude'' (snprintf 64 (fmt_fixed 4 (longitude t)))
               @ renderTelemetryValue ''Altitude'' (snprintf 64 (fmt_fixed 0 (altitude t) @ '' ft''))
               @ renderTelemetryValue ''Speed'' (snprintf 64 (fmt_fixed 1 (speed t) @ '' kts''))
               @ renderTelemetryValue ''Heading'' (snprintf 64 (fmt_fixed 0 (heading t) @ '' deg'')))
      else concat (map (\<lambda>label. renderTelemetryValue label ''--'')
             [''Latitude'', ''Longitude'', ''Altitude'', ''Speed'', ''Heading'']))"

definition telemetry_panel :: "AircraftDashboardState option \<Rightarrow> draw list" where
  "telemetry_panel selected =
     Text ''SELECTED AIRCRAFT'' #
     (case selected of
        None \<Rightarrow> [Text ''No aircraft connected yet.'']
      | Some a \<Rightarrow>
          [Text (''Viewing '' @ dash_id a)] @ renderTelemetryValue ''Aircraft ID'' (dash_id a)
          @ [Text ''State:'', Colored (stateColor (dash_state a)) (dashboardShortStateLabel (dash_state a))]
          @ telemetry_rows a
          @ (if dash_alert a \<noteq> []
             then [Colored (rgba (95/100) (25/100) (25/100) 1) (''Alert: '' @ dash_alert a)] else []))"

definition log_panel :: "DashboardState \<Rightarrow> draw list" where
  "log_panel st = Text ''COMMUNICATION LOG (last 20 entries)'' # map Wrapped (recentLogEntries st)"

subsection \<open>The telemetry values fit their buffer\<close>

lemma f32_of_bits_bound:
  assumes "f32_of_bits w = Fin r"
  shows "\<bar>r\<bar> < 2 ^ 128"
proof -
  let ?n = "uint w"
  define m where "m = ?n mod 8388608"
  define e where "e = ?n div 8388608 mod 256"
  define v where "v = (if e = 0 then of_int m * pow2 (- 149) else of_int (8388608 + m) * pow2 (e - 150))"
  have m: "0 \<le> m" "m < 8388608" by (simp_all add: m_def)
  have e: "0 \<le> e" "e < 256" by (simp_all add: e_def)
  have "e \<noteq> 255" "\<bar>r\<bar> = \<bar>v\<bar>"
    using assms by (auto simp: f32_of_bits_def Let_def m_def [symmetric] e_def [symmetric] v_def split: if_splits)
  moreover have "\<bar>v\<bar> < 2 ^ 128" if "e \<noteq> 255"
  proof -
    have p: "pow2 (if e = 0 then - 149 else e - 150) \<le> pow2 104"
      using e that by (intro pow2_mono) auto
    have i: "of_int (if e = 0 then m else 8388608 + m) < (16777216 :: rat)"
      using m by (simp only: of_int_less_numeral_iff) auto
    have "\<bar>v\<bar> = of_int (if e = 0 then m else 8388608 + m) * pow2 (if e = 0 then - 149 else e - 150)"
      using m by (simp add: v_def abs_mult)
    also have "\<dots> < 16777216 * pow2 104"
      using i p m by (intro mult_less_le_imp_less) auto
    also have "\<dots> = 2 ^ 128" by (simp add: pow2_def)
    finally show ?thesis .
  qed
  ultimately show ?thesis by simp
qed

lemma round_even_le: "r \<le> of_int i \<Longrightarrow> round_even r \<le> i"
proof -
  assume r: "r \<le> of_int i"
  then have f: "\<lfloor>r\<rfloor> \<le> i" by (simp add: floor_le_iff)
  show ?thesis
  proof (cases "\<lfloor>r\<rfloor> = i")
    case True
    with r have "r = of_int i" by linarith
    then show ?thesis by simp
  next
    case False
    with f have "\<lfloor>r\<rfloor> + 1 \<le> i" by simp
    moreover have "round_even r \<le> \<lfloor>r\<rfloor> + 1" by (simp add: round_even_def Let_def)
    ultimately show ?thesis by simp
  qed
qed

lemma length_fmt_fixed: "length (fmt_fixed p w) \<le> 41 + p"
proof (cases "f32_of_bits w")
  case (Fin r)
  let ?t = "nat (round_even (\<bar>r\<bar> * 10 ^ p))"
  have "\<bar>r\<bar> * 10 ^ p \<le> of_int (2 ^ 128 * 10 ^ p)"
    using f32_of_bits_bound [OF Fin] by (simp add: mult_right_mono)
  then have "round_even (\<bar>r\<bar> * 10 ^ p) \<le> 2 ^ 128 * 10 ^ p" by (rule round_even_le)
  then have t: "?t \<le> 2 ^ 128 * 10 ^ p" by (simp add: nat_le_iff)
  then have "?t div 10 ^ p \<le> 2 ^ 128 * 10 ^ p div 10 ^ p" by (rule div_le_mono)
  then have "?t div 10 ^ p < 10 ^ 39" by simp
  then have i: "length (dec (?t div 10 ^ p)) \<le> 39" by (intro length_dec_le) simp_all
  have f: "length (pad0 p (dec (?t mod 10 ^ p))) = p" if "0 < p"
    using that by (intro length_pad0 length_dec_le) simp_all
  show ?thesis
    using i f by (cases "p = 0") (simp_all add: fmt_fixed_def Fin Let_def)
qed (simp_all add: fmt_fixed_def)

lemma snprintf_fits: "length s < n \<Longrightarrow> snprintf n s = s"
  by (simp add: snprintf_def)

text \<open>
  C40. No telemetry value is ever cut off: whatever 160 bits a client sends as its telemetry, the
  largest floats, infinities and NaNs included, each of the five values and its unit fits the
  64-character buffer of the panel, so that the panel shows it in full, and without valid
  telemetry it shows no value at all.
\<close>

theorem telemetry_shown_in_full:
  "telemetry_rows a =
     (if dash_telemetryValid a
      then [Text ''Latitude'', Text (fmt_fixed 4 (latitude (dash_telemetry a))),
            Text ''Longitude'', Text (fmt_fixed 4 (longitude (dash_telemetry a))),
            Text ''Altitude'', Text (fmt_fixed 0 (altitude (dash_telemetry a)) @ '' ft''),
            Text ''Speed'', Text (fmt_fixed 1 (speed (dash_telemetry a)) @ '' kts''),
            Text ''Heading'', Text (fmt_fixed 0 (heading (dash_telemetry a)) @ '' deg'')]
      else [Text ''Latitude'', Text ''--'', Text ''Longitude'', Text ''--'', Text ''Altitude'', Text ''--'',
            Text ''Speed'', Text ''--'', Text ''Heading'', Text ''--''])"
proof -
  have "snprintf 64 (fmt_fixed p w @ u) = fmt_fixed p w @ u" if "p \<le> 4" "length u \<le> 4" for p w u
    using length_fmt_fixed [of p w] that by (intro snprintf_fits) simp
  from this [of _ "[]"] this show ?thesis
    by (simp add: telemetry_rows_def Let_def renderTelemetryValue_def)
qed

end
