(* ===== verification/Spec2Isabelle.thy ===== *)
theory Spec2Isabelle
  imports Reception_Run Client_Process Server_Frames Server_Stop Server_Lifecycle Client_Transfer Payload_Ownership Dashboard_View
begin

text \<open>
  Communications in flight: a verification development of the aircraft client and the ground
  server.

  The program. The server (\<open>server/\<close>) listens on a TCP port; its worker thread serves any number of
  aircraft from one \<open>select\<close> loop, and its main thread draws the operator's dashboard. Each
  aircraft (\<open>client/\<close>) opens a session with a handshake, then sends a telemetry packet per second,
  may ask for a weather map, and receives it as a file; the operator can send a map and end a
  session. Both sides log what they send and receive (\<open>common/logger\<close>) and share the packet formats
  (\<open>common/packet.h\<close>) and the transfer loops over sockets (\<open>common/socket_utils.h\<close>).

  Layers. \<open>Prelude\<close>: types, theorem collections, generic lemmas. \<open>Std_Text\<close>, \<open>Std_Float\<close> and
  \<open>Std_Map\<close>: the parts of the C++ library the program uses (numbers to text and back, \<open>std::stoi\<close>,
  UTC times; IEEE single precision with rounding to even, fixed-point formatting; the ordered map,
  as a locale interpreted on sorted association lists).

  Shared components. \<open>Packet\<close>: header, payloads, checksum. \<open>Payload_Ownership\<close>: the special members of
  \<open>LargeFilePayload\<close> over an explicit heap. \<open>Socket_Utils\<close>: \<open>sendAll\<close>, \<open>recvAll\<close> and readiness; the
  locale \<open>stream_socket\<close> says what a stream socket promises, and a socket whose script of events
  decides how the kernel cuts the stream and where it fails is its interpretation. \<open>Logger\<close>.

  Server. \<open>State_Machine\<close>, \<open>Client_Session\<close>, \<open>Session_Logic\<close>, \<open>Dashboard\<close> and \<open>Dashboard_View\<close>,
  \<open>Weather_Map\<close> (the generator, byte by byte) and \<open>Options\<close> follow the files of those names.
  \<open>Ground_Server\<close> has the handlers of \<open>ground_server.cpp\<close> as functions on a session and the world
  it shares (logs, dashboard, sockets, clocks); \<open>Handler_Facts\<close> says what each leaves alone;
  \<open>Session_Handlers\<close> states the contract of an operation dispatched to one session as a locale and
  interprets it for reading, the two operator commands and the timeout; \<open>Server_Loop\<close> is
  \<open>serverThreadMain\<close> as a step relation, one phase per step, with a dashboard frame possible between
  any two; \<open>Server_Run\<close> has its invariants. \<open>Server_Frames\<close> shows that frames inside the phases make
  no difference. \<open>Server_Lifecycle\<close> is \<open>main\<close> with the set-up and tear-down around the loop, the
  frame loop of the dashboard, and the signals, frames and worker's end that come while it serves as
  a list of events. \<open>Server_Stop\<close> is the loop with the running flag the two threads share. \<open>Delivery\<close> follows packets
  from the client's bytes to the server's state, and a map to the wire.

  Client. \<open>Client_Utils\<close>, \<open>Flight_Sim\<close>, \<open>Client_Packets\<close> and \<open>Options\<close>; \<open>Aircraft_Client\<close> has the
  state of \<open>AircraftClient\<close> and what its main thread does alone, connecting above all.
  \<open>Client_Threads\<close> has the telemetry thread, the receiver thread and the menu loop of
  \<open>client_app.cpp\<close> as lists of instructions, each one access to shared state or one system call,
  that \<open>client_step\<close> interleaves freely. \<open>Client_Safety\<close> has what holds in every interleaving, with
  the contract of a worker thread as a locale interpreted for both workers; \<open>Client_Run\<close> has runs
  by schedules and an example session; \<open>Client_Process\<close> is \<open>main\<close> and the way out, with calls
  that wait for a silent peer;
  \<open>Client_Transfer\<close> is the way of a map from the server's \<open>sendWeatherMap\<close> to the client's file.

  Both together. \<open>Client_Wire\<close> says what a client can have written to a connection, over all its runs,
  and \<open>Server_Wire\<close> the same of the server. \<open>Fleet_Handlers\<close> and \<open>Fleet\<close> are the server on
  connections that clients have written, \<open>Client_Reception\<close> a client on connections a server has
  written; \<open>Fleet_Run\<close> and \<open>Reception_Run\<close> are runs of both sides, one delivering telemetry, one a
  map from its request to the file. The locales \<open>calm_handler\<close>, \<open>talking_handler\<close> and
  \<open>blind_handler\<close> extend the contract of the server's handlers by what these, the wire and the
  frames need of them.

  What is shown. Invariants: the server's session map, its dashboard and its descriptors in every
  reachable state; the client's descriptors and the order of its threads' lives; the language each
  side speaks. Agreement of the two: the server never accuses a client of breaking the protocol and
  shows only telemetry that was flown; the client saves only maps that were sent and finds no
  fault with them. Functional behaviour of every handler, its error branches included. Round trips
  of header and id field; detection of corrupted payloads; exactness of the transfer loops for
  every segmentation; bounds of formatted telemetry and of the map's arithmetic, with the inputs
  for which it is undefined. Bounds on the attempts of connecting, on the steps of the client's
  workers and on the phases of the server's once they are told to stop; completion of a transfer;
  a way out of the client from every state in which no peer keeps it waiting. Refinement of payload
  ownership; equivalence of the option parser and of the flight simulation with references. Some
  theorems exhibit defects: a select on a closed descriptor, an alert that never shows, a listening
  socket closed under its user, a client caught by a silent server, a dashboard that signals kill.

  Bounds. There is no fuel: every loop is structural or has a measure (bytes left to send or to
  receive, attempts left), and the endless loops are step relations. Words have the width of
  the source's types.

  Inputs of the model. Clock readings, random draws, the answers of system calls and of the GUI
  library, memory and disk are arguments or scripts, so that a theorem holds for all of them. Taken
  for granted: \<open>accept\<close> and \<open>socket\<close> return descriptors that are not open; \<open>send\<close> reports an error
  where POSIX would raise SIGPIPE; log files and the client's output file open and take what is
  written; the bytes of a \<open>float\<close> and an integer are little-endian. What a
  client writes is described for hosts whose random draws are in range and whose sockets take at
  least one byte per \<open>send\<close> and, once they have refused, refuse for good (\<open>steady_host\<close>), as stream
  sockets do. In the composition a connection carries a beginning of what some run of the other
  side has written, so any loss of the connection is covered, and any change of its bytes is not:
  that is \<open>corrupted_payload_rejected\<close>.

  Waiting. A script of traffic that is used up is the end of the connection, so as functions the
  calls that receive and send return, and what the handlers and threads do is described for calls
  that have returned. A peer that neither goes on nor closes makes such a call wait for ever. Where
  that matters it is said: \<open>Client_Process\<close> takes the set of silent peers as a parameter, gives no
  step to a thread that waits for one, and shows what is left of the way out, and that connecting
  to such a server is a trap; \<open>Server_Lifecycle\<close> lets the worker end only by an event that need not
  come; \<open>Server_Stop\<close> counts phases and says which of them have traffic; the bounds of
  \<open>connect_ends_clean\<close> and \<open>workers_wind_down\<close> count attempts and steps, not time.

  Granularity. \<open>recvAll\<close>, \<open>sendPacketLocked\<close> and connecting are single steps of the client: only the
  receiver reads, a send holds the mutex, and no other thread of the client runs while it
  connects. That the main thread may shut the socket down or close it in the middle of a \<open>recvAll\<close> is
  therefore seen before or after it (a \<open>recv\<close> already waiting is not woken by the close; the way out
  in \<open>Client_Process\<close> passes no state in which a thread waits). The server's worker takes the dashboard's mutex anew for each
  access, but the only other thread changes nothing that a phase depends on once its request is
  taken.

  Not modelled: Dear ImGui, GLFW and OpenGL beyond what a frame shows and asks; the layout of the
  window; the Windows branches; sleeping; tests and scripts.
\<close>

end
